(* ===== verification/Nas_Prelude.thy ===== *)
theory Nas_Prelude
  imports Main "HOL-Library.Word" "HOL-Library.Sublist" "HOL-Library.Char_ord"
    "HOL-Library.List_Lexorder"
begin

text \<open>
  Shared vocabulary of the development: text, decimal numbers, results, and the lemma
  collections the component theories extend.

  Text.  A QString and a QByteArray are both modelled as \<^typ>\<open>string\<close>, a list of bytes: the
  UTF-8 encoding of the text.  Unit files, credential files and path names are exactly these
  bytes, sizes taken with \<open>toUtf8().size()\<close> are \<^const>\<open>length\<close>, and every character the source
  tests for is ASCII, so a test on a code unit is the same test on a byte.  The one operation that
  looks at characters beyond ASCII is \<open>trimmed()\<close>; \<open>trimmed\<close> below strips the UTF-8
  encodings of every character \<open>QChar::isSpace()\<close> accepts.

  Results.  A C++ function that returns false after setting \<open>*error\<close> returns \<open>Inl e\<close> with a value
  of an error datatype that has one constructor per message; true with an output parameter is
  \<open>Inr v\<close>.
\<close>

named_theorems text_simps \<open>evaluation of the text operations\<close>

type_synonym qstring = string
type_synonym uid = "32 word"
type_synonym gid = "32 word"

text \<open>\<open>s.isEmpty() ? t : s\<close>.\<close>

definition or_else :: "qstring \<Rightarrow> qstring \<Rightarrow> qstring" where
  "or_else s t = (if s = [] then t else s)"

section \<open>Characters\<close>

definition is_digit :: "char \<Rightarrow> bool" where
  "is_digit c \<longleftrightarrow> CHR ''0'' \<le> c \<and> c \<le> CHR ''9''"

definition is_alpha :: "char \<Rightarrow> bool" where
  "is_alpha c \<longleftrightarrow> CHR ''A'' \<le> c \<and> c \<le> CHR ''Z'' \<or> CHR ''a'' \<le> c \<and> c \<le> CHR ''z''"

definition is_lower_hex :: "char \<Rightarrow> bool" where
  "is_lower_hex c \<longleftrightarrow> is_digit c \<or> CHR ''a'' \<le> c \<and> c \<le> CHR ''f''"

lemmas char_class_defs = is_digit_def is_alpha_def is_lower_hex_def less_eq_char_def less_char_def

lemma is_digit_lit [simp, text_simps]:
  "is_digit CHR ''0''" "is_digit CHR ''1''" "is_digit CHR ''2''" "is_digit CHR ''3''"
  "is_digit CHR ''4''" "is_digit CHR ''5''" "is_digit CHR ''6''" "is_digit CHR ''7''"
  "is_digit CHR ''8''" "is_digit CHR ''9''"
  by (simp_all add: char_class_defs)

lemma not_is_digit_lit [simp]:
  "\<not> is_digit CHR 0x0A" "\<not> is_digit CHR ''%''" "\<not> is_digit CHR ''='' " "\<not> is_digit CHR ''#''"
  "\<not> is_digit CHR '' ''" "\<not> is_digit CHR 0x5C" "\<not> is_digit CHR '','' " "\<not> is_digit CHR ''/''"
  "\<not> is_digit CHR 0x22" "\<not> is_digit CHR 0x27"
  by (simp_all add: char_class_defs)

lemma not_is_lower_hex_lit [simp]:
  "\<not> is_lower_hex CHR 0x0A" "\<not> is_lower_hex CHR ''%''" "\<not> is_lower_hex CHR ''/''"
  "\<not> is_lower_hex CHR 0x5C" "\<not> is_lower_hex CHR ''.''" "\<not> is_lower_hex CHR '' ''"
  by (simp_all add: char_class_defs)

section \<open>Splitting and joining\<close>

text \<open>\<open>QString::split(sep)\<close>, empty parts kept; \<open>Qt::SkipEmptyParts\<close> drops them.\<close>

fun split_on :: "char \<Rightarrow> qstring \<Rightarrow> qstring list" where
  "split_on c [] = [[]]"
| "split_on c (x # xs) =
     (if x = c then [] # split_on c xs
      else (case split_on c xs of [] \<Rightarrow> [[x]] | l # ls \<Rightarrow> (x # l) # ls))"

definition split_skip_empty :: "char \<Rightarrow> qstring \<Rightarrow> qstring list" where
  "split_skip_empty c s = filter (\<lambda>p. p \<noteq> []) (split_on c s)"

text \<open>\<open>QStringList::join(sep)\<close>.\<close>

fun join_with :: "qstring \<Rightarrow> qstring list \<Rightarrow> qstring" where
  "join_with sep [] = []"
| "join_with sep [x] = x"
| "join_with sep (x # y # ys) = x @ sep @ join_with sep (y # ys)"

lemma split_on_not_Nil [simp]: "split_on c s \<noteq> []"
  by (induction s) (auto split: list.splits)

lemma split_on_no_sep [simp]: "c \<notin> set s \<Longrightarrow> split_on c s = [s]"
  by (induction s) auto

lemma split_on_append_sep [simp]:
  "c \<notin> set a \<Longrightarrow> split_on c (a @ c # b) = a # split_on c b"
  by (induction a) auto

lemma split_on_parts_no_sep: "p \<in> set (split_on c s) \<Longrightarrow> c \<notin> set p"
  by (induction s arbitrary: p) (auto split: list.splits if_splits)

lemma split_on_subset: "p \<in> set (split_on c s) \<Longrightarrow> set p \<subseteq> set s"
proof (induction s arbitrary: p)
  case (Cons x xs)
  then show ?case by (fastforce split: list.splits if_splits)
qed simp

lemma join_split_on: "join_with [c] (split_on c s) = s"
proof (induction s)
  case (Cons x xs)
  then show ?case
    by (cases "split_on c xs"; cases "tl (split_on c xs)") (auto)
qed simp

lemma join_with_Cons: "ys \<noteq> [] \<Longrightarrow> join_with sep (x # ys) = x @ sep @ join_with sep ys"
  by (cases ys) auto

lemma split_join:
  assumes "\<And>p. p \<in> set ps \<Longrightarrow> c \<notin> set p" and "ps \<noteq> []"
  shows "split_on c (join_with [c] ps) = ps"
  using assms
proof (induction ps)
  case (Cons p ps)
  then show ?case
    by (cases "ps = []") (simp_all add: join_with_Cons)
qed simp

text \<open>Lines, each ended by a newline.\<close>

definition unlines :: "qstring list \<Rightarrow> qstring" where
  "unlines ls = concat (map (\<lambda>l. l @ [CHR 0x0A]) ls)"

lemma unlines_simps [simp]:
  "unlines [] = []" "unlines (l # ls) = l @ CHR 0x0A # unlines ls"
  "unlines (ls @ ls') = unlines ls @ unlines ls'"
  by (simp_all add: unlines_def)

lemma split_unlines:
  "(\<And>l. l \<in> set ls \<Longrightarrow> CHR 0x0A \<notin> set l) \<Longrightarrow>
   split_on CHR 0x0A (unlines ls @ rest) = ls @ split_on CHR 0x0A rest"
  by (induction ls) auto

lemma set_split_skip_empty: "p \<in> set (split_skip_empty c s) \<Longrightarrow> p \<noteq> [] \<and> c \<notin> set p"
  by (auto simp: split_skip_empty_def dest: split_on_parts_no_sep)

section \<open>Replacement\<close>

text \<open>
  \<open>QString::replace(before, after)\<close>: every occurrence, from the left, without overlaps.  The
  source never replaces an empty pattern.
\<close>

function replace_all :: "qstring \<Rightarrow> qstring \<Rightarrow> qstring \<Rightarrow> qstring" where
  "replace_all p r s =
     (if p = [] \<or> s = [] then s
      else if prefix p s then r @ replace_all p r (drop (length p) s)
      else hd s # replace_all p r (tl s))"
  by pat_completeness auto
termination
  by (relation "measure (\<lambda>(p, r, s). length s)") (auto dest: prefix_length_le)

declare replace_all.simps [simp del]

lemma replace_all_Nil [simp]: "replace_all p r [] = []"
  by (simp add: replace_all.simps)

lemma replace_all_Cons:
  "p \<noteq> [] \<Longrightarrow> replace_all p r (x # xs) =
     (if prefix p (x # xs) then r @ replace_all p r (drop (length p) (x # xs))
      else x # replace_all p r xs)"
  by (subst replace_all.simps) simp

text \<open>\<open>QString::replace(QChar, QString)\<close>.\<close>

definition replace_char :: "char \<Rightarrow> qstring \<Rightarrow> qstring \<Rightarrow> qstring" where
  "replace_char c r s = concat (map (\<lambda>x. if x = c then r else [x]) s)"

lemma replace_char_simps [simp, text_simps]:
  "replace_char c r [] = []"
  "replace_char c r (x # xs) = (if x = c then r else [x]) @ replace_char c r xs"
  by (simp_all add: replace_char_def)

lemma replace_char_append [simp]:
  "replace_char c r (xs @ ys) = replace_char c r xs @ replace_char c r ys"
  by (simp add: replace_char_def)

lemma replace_char_id [simp]: "c \<notin> set s \<Longrightarrow> replace_char c r s = s"
  by (induction s) auto

lemma replace_char_eq_Nil [simp]: "r \<noteq> [] \<Longrightarrow> replace_char c r s = [] \<longleftrightarrow> s = []"
  by (cases s) auto

lemma set_replace_char: "set (replace_char c r s) \<subseteq> set s \<union> set r"
  by (induction s) auto

text \<open>\<open>QString::toHtmlEscaped()\<close>.\<close>

definition html_escape_char :: "char \<Rightarrow> qstring" where
  "html_escape_char c =
     (if c = CHR ''<'' then ''&lt;'' else if c = CHR ''>'' then ''&gt;''
      else if c = CHR ''&'' then ''&amp;'' else if c = CHR 0x22 then ''&quot;'' else [c])"

definition to_html_escaped :: "qstring \<Rightarrow> qstring" where
  "to_html_escaped s = concat (map html_escape_char s)"

lemma newline_to_html_escaped [simp]:
  "CHR 0x0A \<in> set (to_html_escaped s) \<longleftrightarrow> CHR 0x0A \<in> set s"
  by (auto simp: to_html_escaped_def html_escape_char_def split: if_splits)

lemma to_html_escaped_snoc: "to_html_escaped (s @ [c]) = to_html_escaped s @ html_escape_char c"
  by (simp add: to_html_escaped_def)

section \<open>White space\<close>

text \<open>
  The UTF-8 encodings of the characters \<open>QChar::isSpace()\<close> accepts: U+0009 to U+000D, U+0020,
  U+0085, U+00A0, U+1680, U+2000 to U+200A, U+2028, U+2029, U+202F, U+205F and U+3000.
\<close>

definition ascii_space :: "qstring list" where
  "ascii_space = [[CHR 0x09], [CHR 0x0A], [CHR 0x0B], [CHR 0x0C], [CHR 0x0D], [CHR 0x20]]"

definition unicode_space :: "qstring list" where
  "unicode_space = ascii_space @
     [[CHR 0xC2, CHR 0x85], [CHR 0xC2, CHR 0xA0], [CHR 0xE1, CHR 0x9A, CHR 0x80]] @
     map (\<lambda>b. [CHR 0xE2, CHR 0x80, b])
       [CHR 0x80, CHR 0x81, CHR 0x82, CHR 0x83, CHR 0x84, CHR 0x85, CHR 0x86, CHR 0x87,
        CHR 0x88, CHR 0x89, CHR 0x8A, CHR 0xA8, CHR 0xA9, CHR 0xAF] @
     [[CHR 0xE2, CHR 0x81, CHR 0x9F], [CHR 0xE3, CHR 0x80, CHR 0x80]]"

text \<open>The number of bytes of the first listed sequence that \<open>s\<close> starts with, 0 if none.\<close>

fun lead_space :: "qstring list \<Rightarrow> qstring \<Rightarrow> nat" where
  "lead_space [] s = 0"
| "lead_space (w # ws) s = (if prefix w s then length w else lead_space ws s)"

function strip_left :: "qstring list \<Rightarrow> qstring \<Rightarrow> qstring" where
  "strip_left ws s =
     (if s = [] \<or> lead_space ws s = 0 then s else strip_left ws (drop (lead_space ws s) s))"
  by pat_completeness auto
termination
  by (relation "measure (\<lambda>(ws, s). length s)") auto

declare strip_left.simps [simp del]

definition strip_right :: "qstring list \<Rightarrow> qstring \<Rightarrow> qstring" where
  "strip_right ws s = rev (strip_left (map rev ws) (rev s))"

text \<open>\<open>QString::trimmed()\<close> and \<open>QByteArray::trimmed()\<close>.\<close>

definition trimmed :: "qstring \<Rightarrow> qstring" where
  "trimmed s = strip_right unicode_space (strip_left unicode_space s)"

definition bytes_trimmed :: "qstring \<Rightarrow> qstring" where
  "bytes_trimmed s = strip_right ascii_space (strip_left ascii_space s)"

lemma strip_left_Nil [simp]: "strip_left ws [] = []"
  by (simp add: strip_left.simps)

lemma lead_space_Nil: "[] \<notin> set ws \<Longrightarrow> lead_space ws [] = 0"
  by (induction ws) auto

lemma strip_left_id: "lead_space ws s = 0 \<Longrightarrow> strip_left ws s = s"
  by (simp add: strip_left.simps)

lemma lead_space_drop_id:
  assumes "[] \<notin> set ws" "\<And>w. w \<in> set ws \<Longrightarrow> \<not> prefix w s"
  shows "lead_space ws s = 0"
  using assms by (induction ws) auto

section \<open>Decimal numbers\<close>

text \<open>\<open>QString::arg(uint)\<close> and \<open>QByteArray::number()\<close> in base 10.\<close>

definition digit_char :: "nat \<Rightarrow> char" where
  "digit_char n = ''0123456789'' ! n"

definition digit_value :: "char \<Rightarrow> nat" where
  "digit_value c = of_char c - 48"

fun decimal :: "nat \<Rightarrow> qstring" where
  "decimal n = (if n < 10 then [digit_char n] else decimal (n div 10) @ [digit_char (n mod 10)])"

declare decimal.simps [simp del]

definition parse_decimal :: "qstring \<Rightarrow> nat" where
  "parse_decimal s = foldl (\<lambda>a c. 10 * a + digit_value c) 0 s"

lemma less_10_cases:
  "(n::nat) < 10 \<Longrightarrow> n = 0 \<or> n = 1 \<or> n = 2 \<or> n = 3 \<or> n = 4 \<or> n = 5 \<or> n = 6 \<or> n = 7 \<or> n = 8 \<or> n = 9"
  by arith

lemma digit_char_is_digit [simp]: "n < 10 \<Longrightarrow> is_digit (digit_char n)"
  by (auto simp: digit_char_def dest!: less_10_cases)

lemma digit_value_digit_char [simp]: "n < 10 \<Longrightarrow> digit_value (digit_char n) = n"
  by (auto simp: digit_char_def digit_value_def dest!: less_10_cases)

lemma decimal_not_Nil [simp]: "decimal n \<noteq> []"
  by (subst decimal.simps) simp

lemma decimal_digits [simp]: "list_all is_digit (decimal n)"
  by (induction n rule: decimal.induct) (subst decimal.simps, simp)

lemma set_decimal_digits: "c \<in> set (decimal n) \<Longrightarrow> is_digit c"
  using decimal_digits [of n] by (simp add: list_all_iff)

lemma decimal_avoids [simp]: "\<not> is_digit c \<Longrightarrow> c \<notin> set (decimal n)"
  using set_decimal_digits by blast

lemma parse_decimal_snoc: "parse_decimal (s @ [c]) = 10 * parse_decimal s + digit_value c"
  by (simp add: parse_decimal_def)

lemma parse_decimal_decimal [simp]: "parse_decimal (decimal n) = n"
proof (induction n rule: decimal.induct)
  case (1 n)
  show ?case
  proof (cases "n < 10")
    case True
    then show ?thesis
      by (subst decimal.simps) (simp add: parse_decimal_def)
  next
    case False
    with 1 have "parse_decimal (decimal (n div 10)) = n div 10" by simp
    with False show ?thesis
      by (subst decimal.simps) (simp add: parse_decimal_snoc)
  qed
qed

text \<open>
  \<open>QString::toUInt(&ok)\<close> on a text of decimal digits; the callers in the unit-value code only
  convert what a regular expression has already restricted to digits.
\<close>

definition to_uint :: "qstring \<Rightarrow> (32 word) option" where
  "to_uint s =
     (if s \<noteq> [] \<and> list_all is_digit s \<and> parse_decimal s < 2 ^ 32
      then Some (word_of_nat (parse_decimal s)) else None)"

text \<open>The same through binary integers, which is how closed terms are evaluated.\<close>

definition decimal_int :: "qstring \<Rightarrow> int" where
  "decimal_int s = foldl (\<lambda>a c. 10 * a + of_char c - 48) 0 s"

lemma decimal_int: "list_all is_digit s \<Longrightarrow> int (parse_decimal s) = decimal_int s"
proof (induction s rule: rev_induct)
  case (snoc c s)
  then have "48 \<le> (of_char c :: nat)" by (simp add: char_class_defs)
  then have "int (digit_value c) = of_char c - 48" by (simp add: digit_value_def of_nat_diff of_nat_of_char)
  with snoc show ?case by (simp add: parse_decimal_snoc) (simp add: decimal_int_def)
qed (simp add: parse_decimal_def decimal_int_def)

lemma to_uint_code [code]:
  "to_uint s =
     (if s \<noteq> [] \<and> list_all is_digit s \<and> decimal_int s < 4294967296
      then Some (word_of_int (decimal_int s)) else None)"
proof -
  have "parse_decimal s < 2 ^ 32 \<longleftrightarrow> decimal_int s < 4294967296"
    "(word_of_nat (parse_decimal s) :: uid) = word_of_int (decimal_int s)" if d: "list_all is_digit s"
  proof -
    have "int (parse_decimal s) < 4294967296 \<longleftrightarrow> parse_decimal s < 4294967296" by linarith
    then show "parse_decimal s < 2 ^ 32 \<longleftrightarrow> decimal_int s < 4294967296" using decimal_int [OF d] by simp
    show "(word_of_nat (parse_decimal s) :: uid) = word_of_int (decimal_int s)"
      by (simp only: decimal_int [OF d, symmetric] of_int_of_nat_eq)
  qed
  then show ?thesis unfolding to_uint_def
    by (cases "list_all is_digit s") (simp_all only: simp_thms if_False)
qed

lemma to_uint_decimal [simp]: "to_uint (decimal (unat (u :: 32 word))) = Some u"
  using unsigned_less [of u] by (simp add: to_uint_def)

section \<open>Encoders and decoders\<close>

text \<open>
  The contract between a writer and a reader of one format: what is written is read back.  A
  strict reader, in addition, accepts nothing the writer does not produce.
\<close>

locale codec =
  fixes encode :: "'a \<Rightarrow> 'b"
    and decode :: "'b \<Rightarrow> 'a option"
    and valid :: "'a \<Rightarrow> bool"
  assumes decode_encode: "valid x \<Longrightarrow> decode (encode x) = Some x"
begin

lemma encode_inject: "valid x \<Longrightarrow> valid y \<Longrightarrow> encode x = encode y \<longleftrightarrow> x = y"
  using decode_encode by (metis option.inject)

end

locale strict_codec = codec +
  assumes encode_decode: "decode y = Some x \<Longrightarrow> valid x \<and> encode x = y"
begin

lemma decode_iff: "decode y = Some x \<longleftrightarrow> valid x \<and> y = encode x"
  using decode_encode encode_decode by blast

lemma decode_None: "decode y = None \<longleftrightarrow> (\<forall>x. valid x \<longrightarrow> encode x \<noteq> y)"
  using decode_encode encode_decode by (metis not_None_eq option.discI)

end

interpretation uint_text: codec "\<lambda>u :: 32 word. decimal (unat u)" to_uint "\<lambda>_. True"
  by unfold_locales simp

end
