(* ===== verification/UnitValue.thy ===== *)
theory UnitValue
  imports Nas_Prelude
begin

text \<open>
  Model of \<open>src/core/unitvalue.cpp\<close> and \<open>unitvalue.h\<close>: the encoder every value of a generated
  unit file goes through, the names of the two unit files of a share, the access-mode vocabulary,
  and the marker block that proves a unit file is managed by this tool.
  \<open>UnitSpec::hasControlChars\<close> is here because the encoder calls it.
\<close>

section \<open>Values of unit files\<close>

definition hasControlChars :: "qstring \<Rightarrow> bool" where
  "hasControlChars s \<longleftrightarrow> (\<exists>c \<in> set s. c < CHR 0x20 \<or> c = CHR 0x7F)"

datatype encode_error =
  ValueControlChars | ValueWhitespace | ValueEmpty | ValueTrailingBackslash | ValueLeadingQuote

definition encodeUnitValue :: "qstring \<Rightarrow> encode_error + qstring" where
  "encodeUnitValue v =
     (if hasControlChars v then Inl ValueControlChars
      else if v \<noteq> trimmed v then Inl ValueWhitespace
      else if v = [] then Inl ValueEmpty
      else if suffix [CHR 0x5C] v then Inl ValueTrailingBackslash
      else if prefix [CHR 0x22] v \<or> prefix [CHR 0x27] v then Inl ValueLeadingQuote
      else Inr (replace_char CHR ''%'' ''%%'' v))"

definition undoublePercent :: "qstring \<Rightarrow> qstring" where
  "undoublePercent v = replace_all ''%%'' ''%'' v"

record unit_paths =
  unitName :: qstring
  mountUnitPath :: qstring
  automountUnitPath :: qstring

datatype paths_error = EscapeFailed qstring | EscapeEmptyName

text \<open>
  \<open>systemd-escape -p\<close> is an external program: the parameter gives, for a path, None when it does
  not finish in time, and otherwise its exit code, standard output and standard error.
\<close>

type_synonym escape_program = "qstring \<Rightarrow> (int \<times> qstring \<times> qstring) option"

definition unitPathsFor :: "escape_program \<Rightarrow> qstring \<Rightarrow> paths_error + unit_paths" where
  "unitPathsFor systemd_escape mountPoint =
     (case systemd_escape mountPoint of
        None \<Rightarrow> Inl (EscapeFailed [])
      | Some (code, out, err) \<Rightarrow>
          if code \<noteq> 0 then Inl (EscapeFailed (trimmed err))
          else (let name = trimmed out in
            if name = [] then Inl EscapeEmptyName
            else Inr \<lparr>unitName = name,
                      mountUnitPath = ''/etc/systemd/system/'' @ name @ ''.mount'',
                      automountUnitPath = ''/etc/systemd/system/'' @ name @ ''.automount''\<rparr>))"

section \<open>Authentication kind, access mode, share id\<close>

datatype AuthenticationKind = Credentials | Guest

datatype AccessMode = ReadWrite | ReadOnly | ReadWriteExecutable

fun accessModeToString :: "AccessMode \<Rightarrow> qstring" where
  "accessModeToString ReadOnly = ''readonly''"
| "accessModeToString ReadWriteExecutable = ''readwrite-executable''"
| "accessModeToString ReadWrite = ''readwrite''"

definition accessModeFromString :: "qstring \<Rightarrow> AccessMode option" where
  "accessModeFromString t =
     (if t = ''readwrite'' then Some ReadWrite
      else if t = ''readonly'' then Some ReadOnly
      else if t = ''readwrite-executable'' then Some ReadWriteExecutable
      else None)"

definition isValidShareId :: "qstring \<Rightarrow> bool" where
  "isValidShareId i \<longleftrightarrow> length i = 32 \<and> list_all is_lower_hex i"

section \<open>The marker\<close>

record marker =
  ownerUid :: uid
  ownerGid :: gid
  marker_id :: qstring
  authentication :: AuthenticationKind
  access :: AccessMode

definition MarkerPrefix :: qstring where
  "MarkerPrefix = ''# X-Nasmount-''"

text \<open>One line of the marker block, without its newline.\<close>

definition marker_line :: "qstring \<Rightarrow> qstring \<Rightarrow> qstring" where
  "marker_line key v = MarkerPrefix @ key @ ''='' @ v"

fun authentication_text :: "AuthenticationKind \<Rightarrow> qstring" where
  "authentication_text Guest = ''guest''"
| "authentication_text Credentials = ''credentials''"

definition marker_lines :: "marker \<Rightarrow> qstring list" where
  "marker_lines m =
     [marker_line ''Managed'' ''1'',
      marker_line ''Owner-Uid'' (decimal (unat (ownerUid m))),
      marker_line ''Owner-Gid'' (decimal (unat (ownerGid m))),
      marker_line ''Id'' (marker_id m),
      marker_line ''Mode'' ''system'',
      marker_line ''Authentication'' (authentication_text (authentication m))] @
     (case access m of
        ReadWrite \<Rightarrow> []
      | ReadOnly \<Rightarrow> [marker_line ''Access'' ''readonly'']
      | ReadWriteExecutable \<Rightarrow> [marker_line ''Access'' ''readwrite-executable''])"

definition markerComment :: "marker \<Rightarrow> qstring" where
  "markerComment m = unlines (marker_lines m)"

abbreviation lines_of :: "qstring \<Rightarrow> qstring list" where
  "lines_of content \<equiv> split_on CHR 0x0A content"

abbreviation is_marker_line :: "qstring \<Rightarrow> bool" where
  "is_marker_line l \<equiv> prefix MarkerPrefix l"

definition hasMarker :: "qstring \<Rightarrow> bool" where
  "hasMarker content \<longleftrightarrow> (\<exists>l \<in> set (lines_of content). is_marker_line l)"

text \<open>
  \<open>FieldSpec\<close>: the key, the anchored pattern of the whole line with its one capture group, and
  whether the field is required.  A pattern is the function that returns the captured text.
\<close>

record field_spec =
  spec_key :: qstring
  spec_pattern :: "qstring \<Rightarrow> qstring option"
  spec_required :: bool

definition line_pattern :: "qstring \<Rightarrow> (qstring \<Rightarrow> bool) \<Rightarrow> qstring \<Rightarrow> qstring option" where
  "line_pattern key ok line =
     (let p = marker_line key [] in
      if prefix p line \<and> ok (drop (length p) line) then Some (drop (length p) line) else None)"

definition fieldSpecs :: "field_spec list" where
  "fieldSpecs =
     [\<lparr>spec_key = ''Managed'', spec_pattern = line_pattern ''Managed'' (\<lambda>v. v = ''1''),
       spec_required = True\<rparr>,
      \<lparr>spec_key = ''Owner-Uid'',
       spec_pattern = line_pattern ''Owner-Uid'' (\<lambda>v. v \<noteq> [] \<and> list_all is_digit v),
       spec_required = True\<rparr>,
      \<lparr>spec_key = ''Owner-Gid'',
       spec_pattern = line_pattern ''Owner-Gid'' (\<lambda>v. v \<noteq> [] \<and> list_all is_digit v),
       spec_required = True\<rparr>,
      \<lparr>spec_key = ''Id'',
       spec_pattern = line_pattern ''Id'' (\<lambda>v. length v = 32 \<and> list_all is_lower_hex v),
       spec_required = True\<rparr>,
      \<lparr>spec_key = ''Mode'', spec_pattern = line_pattern ''Mode'' (\<lambda>v. v = ''system''),
       spec_required = True\<rparr>,
      \<lparr>spec_key = ''Authentication'',
       spec_pattern = line_pattern ''Authentication'' (\<lambda>v. v = ''credentials'' \<or> v = ''guest''),
       spec_required = True\<rparr>,
      \<lparr>spec_key = ''Access'',
       spec_pattern = line_pattern ''Access''
         (\<lambda>v. v = ''readwrite-executable'' \<or> v = ''readwrite'' \<or> v = ''readonly''),
       spec_required = False\<rparr>]"

datatype marker_error =
  DuplicateField qstring | MalformedField qstring | MissingField qstring
| InvalidOwnerUid | InvalidOwnerGid | InvalidAccess

text \<open>The local variables of \<open>parseMarker\<close>: the keys seen and the captured values.\<close>

record marker_scan =
  seen :: "qstring list"
  ownerUidValue :: qstring
  ownerGidValue :: qstring
  idValue :: qstring
  authValue :: qstring
  accessValue :: qstring

definition empty_scan :: marker_scan where
  "empty_scan = \<lparr>seen = [], ownerUidValue = [], ownerGidValue = [], idValue = [],
                 authValue = [], accessValue = []\<rparr>"

definition store_value :: "qstring \<Rightarrow> qstring \<Rightarrow> marker_scan \<Rightarrow> marker_scan" where
  "store_value key v s =
     (if key = ''Owner-Uid'' then s\<lparr>ownerUidValue := v\<rparr>
      else if key = ''Owner-Gid'' then s\<lparr>ownerGidValue := v\<rparr>
      else if key = ''Id'' then s\<lparr>idValue := v\<rparr>
      else if key = ''Authentication'' then s\<lparr>authValue := v\<rparr>
      else if key = ''Access'' then s\<lparr>accessValue := v\<rparr>
      else s)"

text \<open>The inner loop over the field specifications, for one line of the managed namespace.\<close>

fun scan_fields :: "field_spec list \<Rightarrow> qstring \<Rightarrow> marker_scan \<Rightarrow> marker_error + marker_scan" where
  "scan_fields [] line s = Inl (MalformedField line)"
| "scan_fields (f # fs) line s =
     (case spec_pattern f line of
        None \<Rightarrow> scan_fields fs line s
      | Some v \<Rightarrow>
          if spec_key f \<in> set (seen s) then Inl (DuplicateField (spec_key f))
          else Inr (store_value (spec_key f) v (s\<lparr>seen := spec_key f # seen s\<rparr>)))"

fun scan_lines :: "qstring list \<Rightarrow> marker_scan \<Rightarrow> marker_error + marker_scan" where
  "scan_lines [] s = Inr s"
| "scan_lines (l # ls) s =
     (if \<not> is_marker_line l then scan_lines ls s
      else case scan_fields fieldSpecs l s of
             Inl e \<Rightarrow> Inl e
           | Inr s' \<Rightarrow> scan_lines ls s')"

fun missing_field :: "field_spec list \<Rightarrow> marker_scan \<Rightarrow> qstring option" where
  "missing_field [] s = None"
| "missing_field (f # fs) s =
     (if spec_required f \<and> spec_key f \<notin> set (seen s) then Some (spec_key f)
      else missing_field fs s)"

text \<open>Converting the captured values, after every line has been scanned.\<close>

definition marker_of_scan :: "marker_scan \<Rightarrow> marker_error + marker" where
  "marker_of_scan s =
     (case missing_field fieldSpecs s of
        Some key \<Rightarrow> Inl (MissingField key)
      | None \<Rightarrow>
     (case to_uint (ownerUidValue s) of
        None \<Rightarrow> Inl InvalidOwnerUid
      | Some u \<Rightarrow>
     (case to_uint (ownerGidValue s) of
        None \<Rightarrow> Inl InvalidOwnerGid
      | Some g \<Rightarrow>
     (let result = \<lparr>ownerUid = u, ownerGid = g, marker_id = idValue s,
                    authentication = (if authValue s = ''guest'' then Guest else Credentials),
                    access = ReadWrite\<rparr> in
      if accessValue s = [] then Inr result
      else case accessModeFromString (accessValue s) of
             None \<Rightarrow> Inl InvalidAccess
           | Some a \<Rightarrow> Inr (result\<lparr>access := a\<rparr>)))))"

definition parseMarker :: "qstring \<Rightarrow> marker_error + marker" where
  "parseMarker content =
     (case scan_lines (lines_of content) empty_scan of
        Inl e \<Rightarrow> Inl e
      | Inr s \<Rightarrow> marker_of_scan s)"

section \<open>What the encoder guarantees\<close>

named_theorems unit_text \<open>rules for the pieces of a unit file\<close>

lemma undouble_double: "undoublePercent (replace_char CHR ''%'' ''%%'' v) = v"
  unfolding undoublePercent_def
proof (induction v)
  case (Cons c v)
  then show ?case
    by (cases "c = CHR ''%''") (simp_all add: replace_all_Cons)
qed simp

lemma encodeUnitValue_Inr_iff:
  "encodeUnitValue v = Inr e \<longleftrightarrow>
     \<not> hasControlChars v \<and> trimmed v = v \<and> v \<noteq> [] \<and> \<not> suffix [CHR 0x5C] v \<and>
     \<not> prefix [CHR 0x22] v \<and> \<not> prefix [CHR 0x27] v \<and> e = replace_char CHR ''%'' ''%%'' v"
  by (cases "trimmed v = v") (auto simp: encodeUnitValue_def)

lemma newline_less_space: "CHR 0x0A < CHR 0x20"
  by (simp add: less_char_def)

lemma hasControlChars_newline: "\<not> hasControlChars v \<Longrightarrow> CHR 0x0A \<notin> set v"
  using newline_less_space unfolding hasControlChars_def by blast

lemma suffix_singleton: "suffix [c] s \<longleftrightarrow> s \<noteq> [] \<and> last s = c"
  by (cases s rule: rev_cases) (auto simp: suffix_def)

lemma prefix_singleton: "prefix [c] s \<longleftrightarrow> s \<noteq> [] \<and> hd s = c"
  by (cases s) auto

lemma last_replace_char:
  "s \<noteq> [] \<Longrightarrow> r \<noteq> [] \<Longrightarrow>
   last (replace_char c r s) = (if last s = c then last r else last s)"
  by (cases s rule: rev_cases) auto

lemma hd_replace_char:
  "s \<noteq> [] \<Longrightarrow> r \<noteq> [] \<Longrightarrow> hd (replace_char c r s) = (if hd s = c then hd r else hd s)"
  by (cases s) auto

text \<open>The encoder and the two validators' decoder are a codec.\<close>

definition encoded :: "qstring \<Rightarrow> qstring" where
  "encoded v = replace_char CHR ''%'' ''%%'' v"

interpretation percent: codec encoded "\<lambda>e. Some (undoublePercent e)" "\<lambda>_. True"
  by unfold_locales (simp add: encoded_def undouble_double)

interpretation access_text: strict_codec accessModeToString accessModeFromString "\<lambda>_. True"
proof (unfold_locales, goal_cases)
  case (1 x)
  show ?case by (cases x) (simp_all add: accessModeFromString_def)
next
  case (2 y x)
  then show ?case by (auto simp: accessModeFromString_def split: if_splits)
qed

section \<open>Reading back the marker\<close>

lemma scan_lines_filter: "scan_lines ls s = scan_lines (filter is_marker_line ls) s"
  by (induction ls arbitrary: s) (auto split: sum.splits)

lemma line_pattern_same [simp]:
  "line_pattern k ok (marker_line k v) = (if ok v then Some v else None)"
  by (simp add: line_pattern_def marker_line_def)

lemma key_prefix:
  "CHR ''='' \<notin> set k \<Longrightarrow> CHR ''='' \<notin> set k' \<Longrightarrow>
   prefix (k @ ''='') (k' @ CHR ''='' # v) \<longleftrightarrow> k = k'"
proof (induction k arbitrary: k')
  case Nil
  then show ?case by (cases k') auto
next
  case (Cons c k)
  then show ?case by (cases k') auto
qed

lemma line_pattern_other:
  "CHR ''='' \<notin> set k \<Longrightarrow> CHR ''='' \<notin> set k' \<Longrightarrow> k \<noteq> k' \<Longrightarrow>
   line_pattern k ok (marker_line k' v) = None"
  by (simp add: line_pattern_def marker_line_def key_prefix)

lemma is_marker_line_marker_line [simp]: "is_marker_line (marker_line k v)"
  by (simp add: marker_line_def)

text \<open>Scanning a line that one of the field specifications describes.\<close>

lemma scan_fields_marker_line:
  "find (\<lambda>f. spec_key f = k) fs = Some f \<Longrightarrow>
   \<forall>f \<in> set fs. CHR ''='' \<notin> set (spec_key f) \<and>
     (\<exists>ok. spec_pattern f = line_pattern (spec_key f) ok) \<Longrightarrow>
   CHR ''='' \<notin> set k \<Longrightarrow>
   spec_pattern f (marker_line k v) = Some v \<Longrightarrow> k \<notin> set (seen s) \<Longrightarrow>
   scan_fields fs (marker_line k v) s = Inr (store_value k v (s\<lparr>seen := k # seen s\<rparr>))"
proof (induction fs)
  case (Cons g fs)
  then show ?case
    by (auto simp: line_pattern_other split: if_splits)
qed simp

lemma fieldSpecs_wf:
  "\<forall>f \<in> set fieldSpecs. CHR ''='' \<notin> set (spec_key f) \<and>
     (\<exists>ok. spec_pattern f = line_pattern (spec_key f) ok)"
  by (auto simp: fieldSpecs_def)

text \<open>What each field accepts.\<close>

fun field_accepts :: "qstring \<Rightarrow> qstring \<Rightarrow> bool" where
  "field_accepts k v \<longleftrightarrow>
     k = ''Managed'' \<and> v = ''1'' \<or>
     (k = ''Owner-Uid'' \<or> k = ''Owner-Gid'') \<and> v \<noteq> [] \<and> list_all is_digit v \<or>
     k = ''Id'' \<and> isValidShareId v \<or>
     k = ''Mode'' \<and> v = ''system'' \<or>
     k = ''Authentication'' \<and> (v = ''credentials'' \<or> v = ''guest'') \<or>
     k = ''Access'' \<and> (v = ''readwrite-executable'' \<or> v = ''readwrite'' \<or> v = ''readonly'')"

declare field_accepts.simps [simp del]

lemma scan_fields_accepted:
  assumes "field_accepts k v" and "k \<notin> set (seen s)"
  shows "scan_fields fieldSpecs (marker_line k v) s =
           Inr (store_value k v (s\<lparr>seen := k # seen s\<rparr>))"
proof -
  obtain f where "find (\<lambda>f. spec_key f = k) fieldSpecs = Some f"
    and "spec_pattern f (marker_line k v) = Some v" and "CHR ''='' \<notin> set k"
    using assms(1)
    by (elim field_accepts.simps [THEN iffD1, elim_format] disjE conjE)
      (simp_all add: fieldSpecs_def isValidShareId_def)
  then show ?thesis
    using scan_fields_marker_line fieldSpecs_wf assms(2) by blast
qed

lemma scan_lines_accepted:
  "field_accepts k v \<Longrightarrow> k \<notin> set (seen s) \<Longrightarrow>
   scan_lines (marker_line k v # ls) s = scan_lines ls (store_value k v (s\<lparr>seen := k # seen s\<rparr>))"
  by (simp add: scan_fields_accepted)

lemma field_accepts_written:
  "field_accepts ''Managed'' ''1''"
  "field_accepts ''Owner-Uid'' (decimal n)" "field_accepts ''Owner-Gid'' (decimal n)"
  "isValidShareId i \<Longrightarrow> field_accepts ''Id'' i"
  "field_accepts ''Mode'' ''system''"
  "field_accepts ''Authentication'' (authentication_text a)"
  "field_accepts ''Access'' ''readonly''" "field_accepts ''Access'' ''readwrite-executable''"
  by (cases a; simp add: field_accepts.simps)+

lemma authentication_text_guest [simp]: "authentication_text a = ''guest'' \<longleftrightarrow> a = Guest"
  by (cases a) simp_all

lemma parse_marker_lines:
  assumes "isValidShareId (marker_id m)"
    and "filter is_marker_line (lines_of content) = marker_lines m"
  shows "parseMarker content = Inr m"
proof -
  have "scan_lines (lines_of content) empty_scan = scan_lines (marker_lines m) empty_scan"
    using scan_lines_filter [of "lines_of content"] assms(2) by simp
  moreover have "scan_lines (marker_lines m) empty_scan =
      Inr \<lparr>seen = (if access m = ReadWrite then [] else [''Access'']) @
              [''Authentication'', ''Mode'', ''Id'', ''Owner-Gid'', ''Owner-Uid'', ''Managed''],
           ownerUidValue = decimal (unat (ownerUid m)),
           ownerGidValue = decimal (unat (ownerGid m)), idValue = marker_id m,
           authValue = authentication_text (authentication m),
           accessValue = (if access m = ReadWrite then [] else accessModeToString (access m))\<rparr>"
    using assms(1)
    by (cases "access m")
      (simp_all del: scan_lines.simps(2) add: marker_lines_def scan_lines_accepted
        field_accepts_written empty_scan_def store_value_def)
  ultimately show ?thesis
    by (cases "access m"; cases "authentication m")
      (simp_all add: parseMarker_def marker_of_scan_def fieldSpecs_def accessModeFromString_def)
qed

section \<open>The marker grammar\<close>

text \<open>
  What a marker block is, independent of the scan: the managed lines of the content are the
  renderings of key and value pairs with distinct keys, every value is one its field accepts, and
  the six required keys are among them.
\<close>

definition required_keys :: "qstring set" where
  "required_keys =
     {''Managed'', ''Owner-Uid'', ''Owner-Gid'', ''Id'', ''Mode'', ''Authentication''}"

definition marker_fields_ok :: "(qstring \<times> qstring) list \<Rightarrow> bool" where
  "marker_fields_ok kvs \<longleftrightarrow>
     distinct (map fst kvs) \<and> (\<forall>kv \<in> set kvs. field_accepts (fst kv) (snd kv)) \<and>
     required_keys \<subseteq> fst ` set kvs"

definition field_value :: "(qstring \<times> qstring) list \<Rightarrow> qstring \<Rightarrow> qstring" where
  "field_value kvs k = (case map_of kvs k of None \<Rightarrow> [] | Some v \<Rightarrow> v)"

definition marker_of_fields :: "(qstring \<times> qstring) list \<Rightarrow> marker option" where
  "marker_of_fields kvs =
     (case (to_uint (field_value kvs ''Owner-Uid''), to_uint (field_value kvs ''Owner-Gid'')) of
        (Some u, Some g) \<Rightarrow>
          Some \<lparr>ownerUid = u, ownerGid = g, marker_id = field_value kvs ''Id'',
                authentication =
                  (if field_value kvs ''Authentication'' = ''guest'' then Guest else Credentials),
                access = (case accessModeFromString (field_value kvs ''Access'') of
                            None \<Rightarrow> ReadWrite | Some a \<Rightarrow> a)\<rparr>
      | _ \<Rightarrow> None)"

abbreviation render_field :: "qstring \<times> qstring \<Rightarrow> qstring" where
  "render_field kv \<equiv> marker_line (fst kv) (snd kv)"

definition scan_step :: "marker_scan \<Rightarrow> qstring \<times> qstring \<Rightarrow> marker_scan" where
  "scan_step s kv = store_value (fst kv) (snd kv) (s\<lparr>seen := fst kv # seen s\<rparr>)"

lemma line_pattern_Some:
  "line_pattern k ok l = Some v \<longleftrightarrow> l = marker_line k v \<and> ok v"
  by (auto simp: line_pattern_def marker_line_def Let_def elim!: prefixE)

lemma fieldSpecs_pattern:
  assumes "f \<in> set fieldSpecs" and "spec_pattern f l = Some v"
  shows "l = marker_line (spec_key f) v \<and> field_accepts (spec_key f) v"
proof -
  have "list_all (\<lambda>f. \<forall>l v. spec_pattern f l = Some v \<longrightarrow>
      l = marker_line (spec_key f) v \<and> field_accepts (spec_key f) v) fieldSpecs"
    by (simp add: fieldSpecs_def line_pattern_Some field_accepts.simps isValidShareId_def)
  then show ?thesis using assms by (simp add: list_all_iff)
qed

lemma scan_fields_found:
  "scan_fields fs l s = Inr s' \<Longrightarrow>
   \<exists>f \<in> set fs. \<exists>v. spec_pattern f l = Some v \<and> spec_key f \<notin> set (seen s) \<and>
     s' = scan_step s (spec_key f, v)"
  by (induction fs) (auto simp: scan_step_def split: option.splits if_splits)

lemma scan_fields_sound:
  assumes "scan_fields fieldSpecs l s = Inr s'"
  obtains kv where "l = render_field kv" "field_accepts (fst kv) (snd kv)"
    "fst kv \<notin> set (seen s)" "s' = scan_step s kv"
  using scan_fields_found [OF assms] fieldSpecs_pattern by fastforce

lemma store_value_fields [simp]:
  "seen (store_value k v s) = seen s"
  "ownerUidValue (store_value k v s) = (if k = ''Owner-Uid'' then v else ownerUidValue s)"
  "ownerGidValue (store_value k v s) = (if k = ''Owner-Gid'' then v else ownerGidValue s)"
  "idValue (store_value k v s) = (if k = ''Id'' then v else idValue s)"
  "authValue (store_value k v s) = (if k = ''Authentication'' then v else authValue s)"
  "accessValue (store_value k v s) = (if k = ''Access'' then v else accessValue s)"
  by (simp_all add: store_value_def)

lemma scan_step_fields [simp]:
  "seen (scan_step s kv) = fst kv # seen s"
  "ownerUidValue (scan_step s kv) = (if fst kv = ''Owner-Uid'' then snd kv else ownerUidValue s)"
  "ownerGidValue (scan_step s kv) = (if fst kv = ''Owner-Gid'' then snd kv else ownerGidValue s)"
  "idValue (scan_step s kv) = (if fst kv = ''Id'' then snd kv else idValue s)"
  "authValue (scan_step s kv) = (if fst kv = ''Authentication'' then snd kv else authValue s)"
  "accessValue (scan_step s kv) = (if fst kv = ''Access'' then snd kv else accessValue s)"
  by (simp_all add: scan_step_def)

lemma scan_lines_sound:
  "scan_lines ls s = Inr s' \<Longrightarrow>
   \<exists>kvs. filter is_marker_line ls = map render_field kvs \<and> distinct (map fst kvs) \<and>
     (\<forall>kv \<in> set kvs. field_accepts (fst kv) (snd kv) \<and> fst kv \<notin> set (seen s)) \<and>
     s' = foldl scan_step s kvs"
proof (induction ls arbitrary: s)
  case (Cons l ls)
  show ?case
  proof (cases "is_marker_line l")
    case True
    with Cons.prems obtain s1 where s1: "scan_fields fieldSpecs l s = Inr s1"
      and rest: "scan_lines ls s1 = Inr s'"
      by (auto split: sum.splits)
    from scan_fields_sound [OF s1] obtain kv where kv: "l = render_field kv"
      "field_accepts (fst kv) (snd kv)" "fst kv \<notin> set (seen s)" "s1 = scan_step s kv" by blast
    from Cons.IH [OF rest] obtain kvs where
      "filter is_marker_line ls = map render_field kvs" "distinct (map fst kvs)"
      "\<forall>kv \<in> set kvs. field_accepts (fst kv) (snd kv) \<and> fst kv \<notin> set (seen s1)"
      "s' = foldl scan_step s1 kvs"
      by blast
    with True kv have "filter is_marker_line (l # ls) = map render_field (kv # kvs) \<and>
        distinct (map fst (kv # kvs)) \<and>
        (\<forall>kv \<in> set (kv # kvs). field_accepts (fst kv) (snd kv) \<and> fst kv \<notin> set (seen s)) \<and>
        s' = foldl scan_step s (kv # kvs)"
      by auto
    then show ?thesis by blast
  next
    case False
    with Cons show ?thesis by simp
  qed
qed (intro exI [of _ "[]"], simp)

lemma scan_fields_complete:
  "distinct (map fst kvs) \<Longrightarrow>
   \<forall>kv \<in> set kvs. field_accepts (fst kv) (snd kv) \<and> fst kv \<notin> set (seen s) \<Longrightarrow>
   scan_lines (map render_field kvs) s = Inr (foldl scan_step s kvs)"
proof (induction kvs arbitrary: s)
  case (Cons kv kvs)
  then have "scan_lines (map render_field (kv # kvs)) s =
      scan_lines (map render_field kvs) (scan_step s kv)"
    by (simp del: scan_lines.simps(2) add: scan_lines_accepted scan_step_def)
  moreover have "\<forall>kv' \<in> set kvs. field_accepts (fst kv') (snd kv') \<and>
      fst kv' \<notin> set (seen (scan_step s kv))"
    using Cons.prems by (force simp: image_iff)
  ultimately show ?case
    using Cons.IH [of "scan_step s kv"] Cons.prems by simp
qed simp

lemma seen_foldl: "set (seen (foldl scan_step s kvs)) = set (seen s) \<union> fst ` set kvs"
  by (induction kvs arbitrary: s) auto

lemma foldl_scan_value:
  "(\<And>s kv. g (scan_step s kv) = (if fst kv = K then snd kv else g s)) \<Longrightarrow>
   distinct (map fst kvs) \<Longrightarrow>
   g (foldl scan_step s kvs) = (case map_of kvs K of None \<Rightarrow> g s | Some v \<Rightarrow> v)"
proof (induction kvs arbitrary: s)
  case (Cons kv kvs)
  have IH: "g (foldl scan_step (scan_step s kv) kvs) =
      (case map_of kvs K of None \<Rightarrow> g (scan_step s kv) | Some v \<Rightarrow> v)"
    using Cons by simp
  show ?case
  proof (cases "fst kv = K")
    case True
    with Cons.prems have "map_of kvs K = None" by (auto simp: map_of_eq_None_iff)
    with IH True Cons.prems(1) show ?thesis by (cases kv) simp
  next
    case False
    with IH Cons.prems(1) show ?thesis by (cases kv) (simp split: option.split)
  qed
qed simp

lemma empty_scan_fields [simp]:
  "seen empty_scan = []" "ownerUidValue empty_scan = []" "ownerGidValue empty_scan = []"
  "idValue empty_scan = []" "authValue empty_scan = []" "accessValue empty_scan = []"
  by (simp_all add: empty_scan_def)

text \<open>The scan and the conversion, over the list of fields.\<close>

definition scanned :: "(qstring \<times> qstring) list \<Rightarrow> marker_scan" where
  "scanned kvs = foldl scan_step empty_scan kvs"

lemma scanned_fields:
  assumes "distinct (map fst kvs)"
  shows "set (seen (scanned kvs)) = fst ` set kvs"
    and "ownerUidValue (scanned kvs) = field_value kvs ''Owner-Uid''"
    and "ownerGidValue (scanned kvs) = field_value kvs ''Owner-Gid''"
    and "idValue (scanned kvs) = field_value kvs ''Id''"
    and "authValue (scanned kvs) = field_value kvs ''Authentication''"
    and "accessValue (scanned kvs) = field_value kvs ''Access''"
  using assms
  by (simp_all add: scanned_def seen_foldl field_value_def foldl_scan_value [OF _ assms]
      split: option.split)

lemma missing_field_None:
  "missing_field fieldSpecs s = None \<longleftrightarrow> required_keys \<subseteq> set (seen s)"
  by (simp add: fieldSpecs_def required_keys_def)

lemma access_value_accepted:
  "distinct (map fst kvs) \<Longrightarrow> \<forall>kv \<in> set kvs. field_accepts (fst kv) (snd kv) \<Longrightarrow>
   field_value kvs ''Access'' = [] \<or> (\<exists>a. accessModeFromString (field_value kvs ''Access'') = Some a)"
  by (auto simp: field_value_def field_accepts.simps accessModeFromString_def
      split: option.splits dest!: map_of_SomeD)

lemma scanned_marker:
  assumes "distinct (map fst kvs)" and "\<forall>kv \<in> set kvs. field_accepts (fst kv) (snd kv)"
    and "required_keys \<subseteq> fst ` set kvs"
  shows "marker_of_scan (scanned kvs) = Inr m \<longleftrightarrow> marker_of_fields kvs = Some m"
proof -
  have "missing_field fieldSpecs (scanned kvs) = None"
    using assms(3) by (simp add: missing_field_None scanned_fields [OF assms(1)])
  moreover note access_value_accepted [OF assms(1,2)]
  ultimately show ?thesis
    by (auto simp: marker_of_scan_def marker_of_fields_def scanned_fields [OF assms(1)]
        accessModeFromString_def Let_def split: option.splits)
qed

lemma parseMarker_iff:
  "parseMarker content = Inr m \<longleftrightarrow>
     (\<exists>kvs. filter is_marker_line (lines_of content) = map render_field kvs \<and>
        marker_fields_ok kvs \<and> marker_of_fields kvs = Some m)"
  (is "?parse \<longleftrightarrow> ?grammar")
proof
  assume ?parse
  then obtain s where s: "scan_lines (lines_of content) empty_scan = Inr s"
    and m: "marker_of_scan s = Inr m"
    by (auto simp: parseMarker_def split: sum.splits)
  from scan_lines_sound [OF s] obtain kvs where
    kvs: "filter is_marker_line (lines_of content) = map render_field kvs" "distinct (map fst kvs)"
      "\<forall>kv \<in> set kvs. field_accepts (fst kv) (snd kv)" "s = scanned kvs"
    by (auto simp: scanned_def)
  have req: "required_keys \<subseteq> fst ` set kvs"
    using m missing_field_None [of s] kvs(2,4)
    by (auto simp: marker_of_scan_def scanned_fields split: option.splits)
  with kvs m show ?grammar
    by (intro exI [of _ kvs]) (simp add: marker_fields_ok_def scanned_marker)
next
  assume ?grammar
  then obtain kvs where kvs: "filter is_marker_line (lines_of content) = map render_field kvs"
    "marker_fields_ok kvs" "marker_of_fields kvs = Some m" by blast
  have "scan_lines (lines_of content) empty_scan = Inr (scanned kvs)"
    using scan_fields_complete [of kvs empty_scan] kvs(2)
    by (subst scan_lines_filter) (simp add: kvs(1) marker_fields_ok_def scanned_def)
  with kvs show ?parse
    by (simp add: parseMarker_def marker_fields_ok_def scanned_marker)
qed

lemma parseMarker_valid_id:
  assumes "parseMarker content = Inr m"
  shows "isValidShareId (marker_id m)"
proof -
  from assms [unfolded parseMarker_iff] obtain kvs where
    kvs: "marker_fields_ok kvs" "marker_of_fields kvs = Some m" by blast
  then obtain v where v: "map_of kvs ''Id'' = Some v"
    by (fastforce simp: marker_fields_ok_def required_keys_def map_of_eq_None_iff)
  then have "field_accepts ''Id'' v" using kvs(1) by (auto simp: marker_fields_ok_def dest: map_of_SomeD)
  moreover have "marker_id m = v"
    using kvs(2) v by (auto simp: marker_of_fields_def field_value_def split: option.splits)
  ultimately show ?thesis by (auto simp: isValidShareId_def field_accepts.simps)
qed

text \<open>
  C2.  The parser implements the marker grammar exactly: content yields the marker \<open>m\<close> if and
  only if its managed lines are a list of well-formed fields with distinct keys that includes
  every required key, and \<open>m\<close> is what those fields say.  A duplicate, unknown, malformed or
  missing field, or a number that does not fit, is never accepted.
\<close>

theorem parseMarker_grammar:
  "parseMarker content = Inr m \<longleftrightarrow>
     (\<exists>kvs. filter is_marker_line (lines_of content) = map render_field kvs \<and>
        marker_fields_ok kvs \<and> marker_of_fields kvs = Some m)"
  by (rule parseMarker_iff)

end
