(* ===== verification/UnitSpec.thy ===== *)
theory UnitSpec
  imports UnitValue
begin

text \<open>
  Model of the text half of \<open>src/core/unitspec.cpp\<close>: validation of the UNC path and of the mount
  point, the CIFS option list, the generators of the two unit files and the validators that
  re-derive and compare them.  The descriptor walks of the same file are in the theory
  \<open>MountWalk\<close>.
\<close>

section \<open>UNC paths\<close>

datatype unc_error = UncControlChars | UncComma | UncInvalid qstring | UncDotDot

definition chop_slashes :: "qstring \<Rightarrow> qstring" where
  "chop_slashes s = rev (dropWhile (\<lambda>c. c = CHR ''/'') (rev s))"

definition host_char :: "char \<Rightarrow> bool" where
  "host_char c \<longleftrightarrow> is_alpha c \<or> is_digit c \<or> c = CHR ''.'' \<or> c = CHR ''_'' \<or> c = CHR ''-''"

text \<open>
  The pattern \<open>^//([A-Za-z0-9._-]+)/([^/].*)$\<close>: its two capture groups.  The host class has no
  slash, so the first group is the longest run of host characters.
\<close>

definition unc_match :: "qstring \<Rightarrow> (qstring \<times> qstring) option" where
  "unc_match v =
     (if prefix ''//'' v then
        (let host = takeWhile host_char (drop 2 v); tail = dropWhile host_char (drop 2 v) in
         case tail of
           c # s # ss \<Rightarrow>
             if host \<noteq> [] \<and> c = CHR ''/'' \<and> s \<noteq> CHR ''/'' \<and> CHR 0x0A \<notin> set ss
             then Some (host, s # ss) else None
         | _ \<Rightarrow> None)
      else None)"

definition validateUnc :: "qstring \<Rightarrow> unc_error + qstring" where
  "validateUnc unc =
     (if hasControlChars unc then Inl UncControlChars
      else if CHR '','' \<in> set unc then Inl UncComma
      else (let v = chop_slashes unc in
        case unc_match v of
          None \<Rightarrow> Inl (UncInvalid unc)
        | Some (host, share) \<Rightarrow>
            if ''..'' \<in> set (split_on CHR ''/'' share) then Inl UncDotDot else Inr v))"

section \<open>Mount points\<close>

text \<open>
  \<open>QDir::cleanPath\<close>: separators collapsed, \<open>.\<close> dropped, \<open>..\<close> resolved where a component precedes
  it and kept where none does.  The stack holds the components so far, last first.
\<close>

definition clean_step :: "qstring list \<Rightarrow> qstring \<Rightarrow> qstring list" where
  "clean_step st seg =
     (if seg = ''.'' then st
      else if seg = ''..'' then (case st of [] \<Rightarrow> [seg] | t # ts \<Rightarrow> if t = ''..'' then seg # st else ts)
      else seg # st)"

definition clean_segments :: "qstring \<Rightarrow> qstring list" where
  "clean_segments p = rev (foldl clean_step [] (split_skip_empty CHR ''/'' p))"

definition cleanPath :: "qstring \<Rightarrow> qstring" where
  "cleanPath p =
     (if p = [] then []
      else if prefix ''/'' p then CHR ''/'' # join_with ''/'' (clean_segments p)
      else if clean_segments p = [] then ''.''
      else join_with ''/'' (clean_segments p))"

record mountpoint_plan =
  plan_path :: qstring
  plan_root :: qstring
  plan_suffix :: "qstring list"

datatype mountpoint_error =
  MpControlChars | MpNotAbsolute | MpTrailingBackslash | MpWhitespace
| MpDirectlyOnto qstring | MpDotDot | MpOutside "qstring list"

definition staticAllowedRoots :: "qstring list" where
  "staticAllowedRoots = [''/mnt'', ''/media'']"

text \<open>The loop over the allowed roots; None when it falls through.\<close>

fun match_roots :: "qstring \<Rightarrow> qstring list \<Rightarrow> (mountpoint_error + mountpoint_plan) option" where
  "match_roots clean [] = None"
| "match_roots clean (root # roots) =
     (if clean = root then Some (Inl (MpDirectlyOnto root))
      else if \<not> prefix (root @ ''/'') clean then match_roots clean roots
      else (let suffix = split_skip_empty CHR ''/'' (drop (length root + 1) clean) in
        if suffix = [] then Some (Inl (MpDirectlyOnto root))
        else if ''..'' \<in> set suffix then Some (Inl MpDotDot)
        else Some (Inr \<lparr>plan_path = clean, plan_root = root, plan_suffix = suffix\<rparr>)))"

definition allowed_roots :: "qstring \<Rightarrow> qstring list" where
  "allowed_roots homeDir =
     staticAllowedRoots @ (if homeDir = [] then [] else [cleanPath homeDir])"

definition validateMountpoint :: "qstring \<Rightarrow> qstring \<Rightarrow> mountpoint_error + mountpoint_plan" where
  "validateMountpoint rawPath homeDir =
     (if hasControlChars rawPath then Inl MpControlChars
      else if \<not> prefix ''/'' rawPath then Inl MpNotAbsolute
      else if suffix [CHR 0x5C] rawPath then Inl MpTrailingBackslash
      else if rawPath \<noteq> trimmed rawPath then Inl MpWhitespace
      else (case match_roots (cleanPath rawPath) (allowed_roots homeDir) of
              Some r \<Rightarrow> r
            | None \<Rightarrow> Inl (MpOutside (allowed_roots homeDir))))"

section \<open>Mount options\<close>

definition mountOptions :: "uid \<Rightarrow> gid \<Rightarrow> qstring \<Rightarrow> AccessMode \<Rightarrow> qstring" where
  "mountOptions u g credPath acc =
     join_with '',''
       ([if credPath = [] then ''guest'' else ''credentials='' @ credPath,
         ''nosuid'', ''nodev'', ''forceuid'', ''forcegid'',
         ''uid='' @ decimal (unat u), ''gid='' @ decimal (unat g),
         ''nounix'', ''iocharset=utf8''] @
        (case acc of
           ReadWrite \<Rightarrow> [''file_mode=0600'', ''dir_mode=0700'']
         | ReadOnly \<Rightarrow> [''ro'', ''file_mode=0400'', ''dir_mode=0500'']
         | ReadWriteExecutable \<Rightarrow> [''file_mode=0700'', ''dir_mode=0700'']))"

definition credentialDirectory :: qstring where
  "credentialDirectory = ''/etc/nasmount''"

definition credentialPathFor :: "qstring \<Rightarrow> qstring" where
  "credentialPathFor i = credentialDirectory @ ''/'' @ i @ ''.cred''"

definition mountOptionsFor :: "marker \<Rightarrow> qstring" where
  "mountOptionsFor m =
     mountOptions (ownerUid m) (ownerGid m)
       (if authentication m = Guest then [] else credentialPathFor (marker_id m)) (access m)"

section \<open>Generating the unit files\<close>

definition managed_header :: qstring where
  "managed_header =
     ''# Managed by nasmount '' @ [CHR 0xE2, CHR 0x80, CHR 0x94] @
     '' do not edit by hand; use the KCM or the dialog.''"

definition mount_unit_text :: "marker \<Rightarrow> qstring \<Rightarrow> qstring \<Rightarrow> qstring \<Rightarrow> qstring \<Rightarrow> qstring" where
  "mount_unit_text m unc what wher options =
     unlines ([managed_header] @ marker_lines m @
       [''[Unit]'',
        ''Description=nasmount: '' @ to_html_escaped unc,
        [],
        ''[Mount]'',
        ''What='' @ what,
        ''Where='' @ wher,
        ''Type=cifs'',
        ''Options='' @ options,
        ''TimeoutSec=30''])"

definition buildMountUnitContent :: "marker \<Rightarrow> qstring \<Rightarrow> qstring \<Rightarrow> encode_error + qstring" where
  "buildMountUnitContent m unc mountPoint =
     (case encodeUnitValue unc of Inl e \<Rightarrow> Inl e | Inr what \<Rightarrow>
     (case encodeUnitValue mountPoint of Inl e \<Rightarrow> Inl e | Inr wher \<Rightarrow>
     (case encodeUnitValue (mountOptionsFor m) of Inl e \<Rightarrow> Inl e | Inr options \<Rightarrow>
        Inr (mount_unit_text m unc what wher options))))"

definition automount_unit_text :: "marker \<Rightarrow> qstring \<Rightarrow> qstring \<Rightarrow> qstring" where
  "automount_unit_text m mountPoint wher =
     unlines ([managed_header] @ marker_lines m @
       [''[Unit]'',
        ''Description=nasmount automount: '' @ to_html_escaped mountPoint,
        ''ConditionPathIsDirectory='' @ wher,
        [],
        ''[Automount]'',
        ''Where='' @ wher,
        ''TimeoutIdleSec=60'',
        ''DirectoryMode=0700''])"

definition buildAutomountUnitContent :: "marker \<Rightarrow> qstring \<Rightarrow> encode_error + qstring" where
  "buildAutomountUnitContent m mountPoint =
     (case encodeUnitValue mountPoint of
        Inl e \<Rightarrow> Inl e
      | Inr wher \<Rightarrow> Inr (automount_unit_text m mountPoint wher))"

section \<open>Validating the unit files\<close>

datatype body_error =
  LineContinuation
| UnparseableLine qstring qstring | UnknownDirective qstring qstring
| DuplicateAssignment qstring qstring | MissingSection qstring
| MissingDirective qstring qstring
| NotCifs | BadTimeoutSec | WhereDisagrees | InvalidWhat unc_error
| ExpectedOptionsEncoding encode_error | OptionsMismatch
| ExpectedWhereEncoding encode_error | ConditionDisagrees | BadTimeoutIdleSec | BadDirectoryMode

definition hasLineContinuation :: "qstring \<Rightarrow> bool" where
  "hasLineContinuation content \<longleftrightarrow> (\<exists>l \<in> set (lines_of content). suffix [CHR 0x5C] l)"

text \<open>The pattern \<open>^\[([A-Za-z]+)\]$\<close>: the section name.\<close>

definition section_header :: "qstring \<Rightarrow> qstring option" where
  "section_header l =
     (case l of
        [] \<Rightarrow> None
      | c # cs \<Rightarrow>
          (let name = takeWhile is_alpha cs in
           if c = CHR ''['' \<and> name \<noteq> [] \<and> dropWhile is_alpha cs = '']'' then Some name else None))"

text \<open>The pattern \<open>^([A-Za-z][A-Za-z0-9]*)=(.*)$\<close>: key and value.\<close>

definition assignment_match :: "qstring \<Rightarrow> (qstring \<times> qstring) option" where
  "assignment_match l =
     (let key = takeWhile (\<lambda>c. is_alpha c \<or> is_digit c) l;
          rest = dropWhile (\<lambda>c. is_alpha c \<or> is_digit c) l in
      case (key, rest) of
        (k # ks, c # v) \<Rightarrow> if is_alpha k \<and> c = CHR ''='' then Some (key, v) else None
      | _ \<Rightarrow> None)"

fun extract_lines ::
    "qstring \<Rightarrow> qstring list \<Rightarrow> qstring list \<Rightarrow> bool \<Rightarrow> bool \<Rightarrow> (qstring \<rightharpoonup> qstring) \<Rightarrow>
     body_error + (qstring \<rightharpoonup> qstring)" where
  "extract_lines sec allowed [] inSection sectionSeen values =
     (if sectionSeen then Inr values else Inl (MissingSection sec))"
| "extract_lines sec allowed (l # ls) inSection sectionSeen values =
     (case section_header l of
        Some name \<Rightarrow>
          extract_lines sec allowed ls (name = sec) (sectionSeen \<or> name = sec) values
      | None \<Rightarrow>
          if \<not> inSection \<or> trimmed l = [] then extract_lines sec allowed ls inSection sectionSeen values
          else (case assignment_match l of
            None \<Rightarrow> Inl (UnparseableLine sec l)
          | Some (key, v) \<Rightarrow>
              if key \<notin> set allowed then Inl (UnknownDirective sec key)
              else if values key \<noteq> None then Inl (DuplicateAssignment sec key)
              else extract_lines sec allowed ls inSection sectionSeen (values(key \<mapsto> v))))"

definition extractSectionAssignments ::
    "qstring \<Rightarrow> qstring \<Rightarrow> qstring list \<Rightarrow> body_error + (qstring \<rightharpoonup> qstring)" where
  "extractSectionAssignments content sec allowed =
     extract_lines sec allowed (lines_of content) False False Map.empty"

text \<open>The first of \<open>keys\<close> that has no value; \<open>QMap::value\<close> of an absent key is empty.\<close>

fun missing_key :: "qstring list \<Rightarrow> (qstring \<rightharpoonup> qstring) \<Rightarrow> qstring option" where
  "missing_key [] values = None"
| "missing_key (k # ks) values = (if values k = None then Some k else missing_key ks values)"

definition value_of :: "(qstring \<rightharpoonup> qstring) \<Rightarrow> qstring \<Rightarrow> qstring" where
  "value_of values k = (case values k of None \<Rightarrow> [] | Some v \<Rightarrow> v)"

definition mount_allowed :: "qstring list" where
  "mount_allowed = [''What'', ''Where'', ''Type'', ''Options'', ''TimeoutSec'']"

definition validateMountUnitBody :: "qstring \<Rightarrow> marker \<Rightarrow> qstring \<Rightarrow> body_error + qstring" where
  "validateMountUnitBody content m canonicalMountPoint =
     (if hasLineContinuation content then Inl LineContinuation
      else case extractSectionAssignments content ''Mount'' mount_allowed of
        Inl e \<Rightarrow> Inl e
      | Inr values \<Rightarrow>
     (case missing_key mount_allowed values of
        Some key \<Rightarrow> Inl (MissingDirective ''Mount'' key)
      | None \<Rightarrow>
      if value_of values ''Type'' \<noteq> ''cifs'' then Inl NotCifs
      else if value_of values ''TimeoutSec'' \<noteq> ''30'' then Inl BadTimeoutSec
      else if undoublePercent (value_of values ''Where'') \<noteq> canonicalMountPoint then Inl WhereDisagrees
      else (let decodedUnc = undoublePercent (value_of values ''What'') in
        case validateUnc decodedUnc of
          Inl e \<Rightarrow> Inl (InvalidWhat e)
        | Inr _ \<Rightarrow>
        (case encodeUnitValue (mountOptionsFor m) of
           Inl e \<Rightarrow> Inl (ExpectedOptionsEncoding e)
         | Inr expected \<Rightarrow>
             if value_of values ''Options'' \<noteq> expected then Inl OptionsMismatch
             else Inr decodedUnc))))"

definition automount_allowed :: "qstring list" where
  "automount_allowed = [''Where'', ''TimeoutIdleSec'', ''DirectoryMode'']"

definition unit_allowed :: "qstring list" where
  "unit_allowed = [''Description'', ''ConditionPathIsDirectory'']"

definition validateAutomountUnitBody :: "qstring \<Rightarrow> marker \<Rightarrow> qstring \<Rightarrow> body_error + unit" where
  "validateAutomountUnitBody content m canonicalMountPoint =
     (if hasLineContinuation content then Inl LineContinuation
      else case extractSectionAssignments content ''Automount'' automount_allowed of
        Inl e \<Rightarrow> Inl e
      | Inr values \<Rightarrow>
     (case missing_key automount_allowed values of
        Some key \<Rightarrow> Inl (MissingDirective ''Automount'' key)
      | None \<Rightarrow>
     (case extractSectionAssignments content ''Unit'' unit_allowed of
        Inl e \<Rightarrow> Inl e
      | Inr unitValues \<Rightarrow>
      if unitValues ''ConditionPathIsDirectory'' = None
      then Inl (MissingDirective ''Unit'' ''ConditionPathIsDirectory'')
      else (case encodeUnitValue canonicalMountPoint of
         Inl e \<Rightarrow> Inl (ExpectedWhereEncoding e)
       | Inr expectedWhere \<Rightarrow>
           if value_of values ''Where'' \<noteq> expectedWhere then Inl WhereDisagrees
           else if value_of unitValues ''ConditionPathIsDirectory'' \<noteq> expectedWhere
             then Inl ConditionDisagrees
           else if value_of values ''TimeoutIdleSec'' \<noteq> ''60'' then Inl BadTimeoutIdleSec
           else if value_of values ''DirectoryMode'' \<noteq> ''0700'' then Inl BadDirectoryMode
           else Inr ()))))"

section \<open>White space and line ends of generated text\<close>

abbreviation space_bytes :: "char set" where
  "space_bytes \<equiv> \<Union> (set ` set unicode_space)"

lemma lead_space_le: "lead_space ws s \<le> length s"
  by (induction ws) (auto dest: prefix_length_le)

lemma lead_space_prefix:
  "lead_space ws s = 0 \<or> (\<exists>w \<in> set ws. prefix w s \<and> lead_space ws s = length w)"
  by (induction ws) auto

lemma strip_left_keeps_last:
  "(\<And>w. w \<in> set ws \<Longrightarrow> c \<notin> set w) \<Longrightarrow> \<exists>ys. strip_left ws (xs @ [c]) = ys @ [c]"
proof (induction ws "xs @ [c]" arbitrary: xs rule: strip_left.induct)
  case (1 ws)
  show ?case
  proof (cases "lead_space ws (xs @ [c]) = 0")
    case True
    then show ?thesis by (simp add: strip_left_id)
  next
    case False
    with lead_space_prefix [of ws "xs @ [c]"] obtain w where w: "w \<in> set ws" "prefix w (xs @ [c])"
      "lead_space ws (xs @ [c]) = length w" by blast
    with "1.prems" have "prefix w xs"
      by (metis append_is_Nil_conv in_set_conv_decomp not_Cons_self2 prefix_snoc)
    then have "drop (length w) (xs @ [c]) = drop (length w) xs @ [c]"
      by (simp add: prefix_length_le)
    with "1.hyps" [of "drop (length w) xs"] "1.prems" w False show ?thesis
      by (subst strip_left.simps) simp
  qed
qed

lemma lead_space_other:
  "\<forall>w \<in> set ws. w \<noteq> [] \<and> c \<noteq> hd w \<Longrightarrow> lead_space ws (c # s) = 0"
  by (induction ws) (auto simp: prefix_Cons)

lemma unicode_space_hd: "c \<notin> space_bytes \<Longrightarrow> w \<in> set unicode_space \<Longrightarrow> w \<noteq> [] \<and> c \<noteq> hd w"
  by (auto simp: unicode_space_def ascii_space_def)

lemma strip_left_other: "c \<notin> space_bytes \<Longrightarrow> strip_left unicode_space (c # s) = c # s"
  by (intro strip_left_id lead_space_other ballI unicode_space_hd)

lemma trimmed_not_Nil:
  assumes "c \<notin> space_bytes"
  shows "trimmed (c # s) \<noteq> []"
proof -
  have "\<exists>ys. strip_left (map rev unicode_space) (rev s @ [c]) = ys @ [c]"
    by (rule strip_left_keeps_last) (use assms in auto)
  then show ?thesis
    using assms by (auto simp: trimmed_def strip_right_def strip_left_other)
qed

lemma unicode_space_not_Nil: "w \<in> set unicode_space \<Longrightarrow> w \<noteq> []"
  by (auto simp: unicode_space_def ascii_space_def)

lemma trimmed_id:
  assumes "s \<noteq> []" "hd s \<notin> space_bytes" "last s \<notin> space_bytes"
  shows "trimmed s = s"
proof -
  have "strip_left unicode_space s = s"
    using assms strip_left_other by (cases s) auto
  moreover obtain xs c where s: "s = xs @ [c]" and c: "c \<notin> space_bytes"
    using assms by (cases s rule: rev_cases) auto
  moreover have "strip_left (map rev unicode_space) (c # rev xs) = c # rev xs"
  proof (intro strip_left_id lead_space_other ballI)
    fix w assume "w \<in> set (map rev unicode_space)"
    then obtain v where v: "w = rev v" "v \<in> set unicode_space" by auto
    then have "v \<noteq> []" by (simp add: unicode_space_not_Nil)
    with v c show "w \<noteq> [] \<and> c \<noteq> hd w"
      by (auto simp: hd_rev dest: last_in_set)
  qed
  ultimately show ?thesis
    by (simp add: trimmed_def strip_right_def)
qed

lemma is_alpha_not_space: "is_alpha c \<Longrightarrow> c \<notin> space_bytes"
  by (auto simp: unicode_space_def ascii_space_def char_class_defs)

lemma is_digit_not_space: "is_digit c \<Longrightarrow> c \<notin> space_bytes"
  by (auto simp: unicode_space_def ascii_space_def char_class_defs)

section \<open>Generated lines\<close>

text \<open>A line that cannot end the line before it, start a section or carry a newline.\<close>

definition good_line :: "qstring \<Rightarrow> bool" where
  "good_line l \<longleftrightarrow> CHR 0x0A \<notin> set l \<and> \<not> suffix [CHR 0x5C] l"

lemma good_line_append:
  "CHR 0x0A \<notin> set a \<Longrightarrow> good_line b \<Longrightarrow> b \<noteq> [] \<Longrightarrow> good_line (a @ b)"
  by (auto simp: good_line_def suffix_singleton)

lemma last_to_html_escaped:
  "s \<noteq> [] \<Longrightarrow> last (to_html_escaped s) = last (html_escape_char (last s))"
  by (cases s rule: rev_cases) (auto simp: to_html_escaped_def html_escape_char_def)

lemma to_html_escaped_Nil [simp]: "to_html_escaped s = [] \<longleftrightarrow> s = []"
  by (cases s) (auto simp: to_html_escaped_def html_escape_char_def)

lemma good_line_html: "good_line s \<Longrightarrow> s \<noteq> [] \<Longrightarrow> good_line (to_html_escaped s)"
  by (auto simp: good_line_def suffix_singleton last_to_html_escaped html_escape_char_def)

lemma good_line_double:
  "good_line s \<Longrightarrow> s \<noteq> [] \<Longrightarrow> good_line (replace_char CHR ''%'' ''%%'' s)"
  using set_replace_char [of "CHR ''%''" "''%%''" s]
  by (auto simp: good_line_def suffix_singleton last_replace_char)

lemma encodeUnitValue_good:
  assumes "encodeUnitValue v = Inr e"
  shows "good_line v" "v \<noteq> []" "good_line e" "e \<noteq> []" "undoublePercent e = v"
proof -
  from assms show v: "good_line v" "v \<noteq> []"
    by (simp_all add: encodeUnitValue_Inr_iff good_line_def hasControlChars_newline)
  from assms show "undoublePercent e = v"
    by (simp add: encodeUnitValue_Inr_iff undouble_double)
  from assms v show "good_line e" "e \<noteq> []"
    by (simp_all add: encodeUnitValue_Inr_iff good_line_double)
qed

lemma isValidShareId_set: "isValidShareId i \<Longrightarrow> c \<in> set i \<Longrightarrow> is_lower_hex c"
  by (simp add: isValidShareId_def list_all_iff)

lemma good_line_class:
  "s \<noteq> [] \<Longrightarrow> CHR 0x0A \<notin> set s \<Longrightarrow> CHR 0x5C \<notin> set s \<Longrightarrow> good_line s"
  unfolding good_line_def suffix_singleton by (metis last_in_set)

lemma isValidShareId_avoids: "isValidShareId i \<Longrightarrow> \<not> is_lower_hex c \<Longrightarrow> c \<notin> set i"
  using isValidShareId_set by blast

lemma isValidShareId_good: "isValidShareId i \<Longrightarrow> good_line i"
  by (rule good_line_class) (simp_all add: isValidShareId_avoids, auto simp: isValidShareId_def)

lemma isValidShareId_not_Nil: "isValidShareId i \<Longrightarrow> i \<noteq> []"
  by (auto simp: isValidShareId_def)

lemma decimal_good [simp]: "good_line (decimal n)"
  by (rule good_line_class) simp_all

lemma good_marker_line:
  "good_line v \<Longrightarrow> v \<noteq> [] \<Longrightarrow> CHR 0x0A \<notin> set k \<Longrightarrow> good_line (marker_line k v)"
  by (simp add: marker_line_def MarkerPrefix_def good_line_def suffix_singleton)

lemma good_marker_lines:
  assumes "isValidShareId (marker_id m)"
  shows "\<forall>l \<in> set (marker_lines m). good_line l"
proof -
  have "good_line ''1''" "good_line ''system''" "good_line ''readonly''"
    "good_line ''readwrite-executable''" "good_line ''guest''" "good_line ''credentials''"
    by (simp_all add: good_line_def suffix_singleton)
  with isValidShareId_good [OF assms] isValidShareId_not_Nil [OF assms] show ?thesis
    by (cases "authentication m"; cases "access m")
      (simp_all add: marker_lines_def good_marker_line)
qed

section \<open>Reading one section\<close>

definition key_ok :: "qstring \<Rightarrow> bool" where
  "key_ok k \<longleftrightarrow> k \<noteq> [] \<and> is_alpha (hd k) \<and> list_all (\<lambda>c. is_alpha c \<or> is_digit c) k"

lemma key_ok_used [simp]:
  "key_ok ''What''" "key_ok ''Where''" "key_ok ''Type''" "key_ok ''Options''" "key_ok ''TimeoutSec''"
  "key_ok ''TimeoutIdleSec''" "key_ok ''DirectoryMode''" "key_ok ''Description''"
  "key_ok ''ConditionPathIsDirectory''"
  by (simp_all add: key_ok_def char_class_defs)

lemma takeWhile_key:
  "key_ok k \<Longrightarrow> takeWhile (\<lambda>c. is_alpha c \<or> is_digit c) (k @ CHR ''='' # v) = k"
  "key_ok k \<Longrightarrow> dropWhile (\<lambda>c. is_alpha c \<or> is_digit c) (k @ CHR ''='' # v) = CHR ''='' # v"
  by (simp_all add: key_ok_def list_all_iff takeWhile_append dropWhile_append char_class_defs)

lemma assignment_match_key:
  assumes "key_ok k"
  shows "assignment_match (k @ CHR ''='' # v) = Some (k, v)"
proof -
  obtain c cs where "k = c # cs" "is_alpha c"
    using assms by (cases k) (auto simp: key_ok_def)
  then show ?thesis
    unfolding assignment_match_def Let_def takeWhile_key [OF assms] by simp
qed

lemma section_header_not_bracket: "l = [] \<or> hd l \<noteq> CHR ''['' \<Longrightarrow> section_header l = None"
  by (cases l) (simp_all add: section_header_def Let_def)

lemma section_header_key: "key_ok k \<Longrightarrow> section_header (k @ v) = None"
  by (rule section_header_not_bracket) (auto simp: key_ok_def char_class_defs)

lemma extract_skip:
  "\<forall>l \<in> set ls. section_header l = None \<Longrightarrow>
   extract_lines sec al (ls @ rest) False sn vs = extract_lines sec al rest False sn vs"
  by (induction ls) auto

lemma extract_assignment:
  assumes "key_ok k" "k \<in> set al" "vs k = None"
  shows "extract_lines sec al ((k @ CHR ''='' # v) # ls) True sn vs =
           extract_lines sec al ls True sn (vs(k \<mapsto> v))"
proof -
  obtain c cs where k: "k = c # cs" "is_alpha c"
    using assms(1) by (cases k) (auto simp: key_ok_def)
  then have "trimmed (k @ CHR ''='' # v) \<noteq> []"
    using trimmed_not_Nil is_alpha_not_space by simp
  then show ?thesis
    using assms by (simp add: section_header_key assignment_match_key)
qed

lemma extract_blank [simp]:
  "extract_lines sec al ([] # ls) ins sn vs = extract_lines sec al ls ins sn vs"
  by (simp add: section_header_def trimmed_def strip_right_def)

section \<open>Generated units are accepted\<close>

definition plain_char :: "char \<Rightarrow> bool" where
  "plain_char c \<longleftrightarrow> CHR 0x20 \<le> c \<and> c \<noteq> CHR 0x7F \<and> c \<noteq> CHR ''%''"

lemma plain_no_control: "list_all plain_char s \<Longrightarrow> \<not> hasControlChars s"
  unfolding hasControlChars_def plain_char_def list_all_iff by (meson linorder_not_less)

lemma plain_no_percent: "list_all plain_char s \<Longrightarrow> CHR ''%'' \<notin> set s"
  by (auto simp: plain_char_def list_all_iff)

lemma plain_lower_hex:
  assumes "is_lower_hex c"
  shows "plain_char c"
proof -
  have "CHR 0x20 \<le> CHR ''0''" "CHR 0x20 \<le> CHR ''a''" by (simp_all add: less_eq_char_def)
  moreover have "\<not> is_lower_hex CHR 0x7F" "\<not> is_lower_hex CHR ''%''"
    by (simp_all add: char_class_defs)
  ultimately show ?thesis
    using assms order_trans unfolding plain_char_def is_lower_hex_def is_digit_def by blast
qed

lemma plain_decimal [simp]: "list_all plain_char (decimal n)"
  using set_decimal_digits [of _ n] plain_lower_hex
  by (auto simp: list_all_iff is_lower_hex_def)

lemma plain_share_id: "isValidShareId i \<Longrightarrow> list_all plain_char i"
  by (simp add: list_all_iff isValidShareId_set plain_lower_hex)

lemma list_all_join:
  "list_all P sep \<Longrightarrow> \<forall>x \<in> set xs. list_all P x \<Longrightarrow> list_all P (join_with sep xs)"
  by (induction sep xs rule: join_with.induct) auto

lemma plain_credential_path:
  "isValidShareId i \<Longrightarrow> list_all plain_char (''credentials='' @ credentialPathFor i)"
  using plain_share_id [of i]
  by (simp add: credentialPathFor_def credentialDirectory_def plain_char_def less_eq_char_def)

lemma plain_fixed_options:
  "\<forall>x \<in> set [''guest'', ''nosuid'', ''nodev'', ''forceuid'', ''forcegid'', ''nounix'',
     ''iocharset=utf8'', ''file_mode=0600'', ''dir_mode=0700'', ''ro'', ''file_mode=0400'',
     ''dir_mode=0500'', ''file_mode=0700''] . list_all plain_char x"
  by (simp add: plain_char_def less_eq_char_def)

lemma plain_id_options:
  "list_all plain_char (''uid='' @ decimal n)" "list_all plain_char (''gid='' @ decimal n)"
  by (simp_all add: plain_char_def less_eq_char_def)

lemma plain_options:
  assumes "isValidShareId (marker_id m)"
  shows "list_all plain_char (mountOptionsFor m)"
  unfolding mountOptionsFor_def mountOptions_def
proof (rule list_all_join)
  show "list_all plain_char '',''" by (simp add: plain_char_def less_eq_char_def)
next
  show "\<forall>x \<in> set ([if (if authentication m = Guest then [] else credentialPathFor (marker_id m)) = []
         then ''guest''
         else ''credentials='' @
           (if authentication m = Guest then [] else credentialPathFor (marker_id m)),
         ''nosuid'', ''nodev'', ''forceuid'', ''forcegid'', ''uid='' @ decimal (unat (ownerUid m)),
         ''gid='' @ decimal (unat (ownerGid m)), ''nounix'', ''iocharset=utf8''] @
        (case access m of
           ReadWrite \<Rightarrow> [''file_mode=0600'', ''dir_mode=0700'']
         | ReadOnly \<Rightarrow> [''ro'', ''file_mode=0400'', ''dir_mode=0500'']
         | ReadWriteExecutable \<Rightarrow> [''file_mode=0700'', ''dir_mode=0700''])).
       list_all plain_char x"
    using plain_fixed_options plain_id_options plain_credential_path [OF assms]
    by (simp del: list.pred_inject list_all_append split: AccessMode.split)
qed

lemma mountOptionsFor_ends:
  "mountOptionsFor m \<noteq> []" "hd (mountOptionsFor m) \<in> {CHR ''g'', CHR ''c''}"
  "last (mountOptionsFor m) = CHR ''0''"
  by (cases "authentication m"; cases "access m";
      simp add: mountOptionsFor_def mountOptions_def credentialPathFor_def
        credentialDirectory_def)+

lemma encoded_options:
  assumes "isValidShareId (marker_id m)"
  shows "encodeUnitValue (mountOptionsFor m) = Inr (mountOptionsFor m)"
proof -
  have "hd (mountOptionsFor m) \<notin> space_bytes" "last (mountOptionsFor m) \<notin> space_bytes"
    using mountOptionsFor_ends [of m] is_alpha_not_space [of "CHR ''g''"]
      is_alpha_not_space [of "CHR ''c''"] is_digit_not_space [of "CHR ''0''"]
    by (auto simp: char_class_defs simp del: UN_iff)
  then have "trimmed (mountOptionsFor m) = mountOptionsFor m"
    by (intro trimmed_id mountOptionsFor_ends)
  then show ?thesis
    using plain_options [OF assms] mountOptionsFor_ends [of m]
    by (auto simp: encodeUnitValue_Inr_iff plain_no_control plain_no_percent suffix_singleton
        prefix_singleton)
qed

text \<open>The lines of the two generated files.\<close>

definition mount_body :: "qstring \<Rightarrow> qstring \<Rightarrow> qstring \<Rightarrow> qstring \<Rightarrow> qstring list" where
  "mount_body description what wher options =
     [''[Unit]'', ''Description=nasmount: '' @ description, [], ''[Mount]'', ''What='' @ what,
      ''Where='' @ wher, ''Type=cifs'', ''Options='' @ options, ''TimeoutSec=30'']"

definition automount_body :: "qstring \<Rightarrow> qstring \<Rightarrow> qstring list" where
  "automount_body description wher =
     [''[Unit]'', ''Description=nasmount automount: '' @ description,
      ''ConditionPathIsDirectory='' @ wher, [], ''[Automount]'', ''Where='' @ wher,
      ''TimeoutIdleSec=60'', ''DirectoryMode=0700'']"

lemma unit_lines:
  assumes "isValidShareId (marker_id m)" "\<forall>l \<in> set body. good_line l"
  shows "lines_of (unlines ([managed_header] @ marker_lines m @ body)) =
      managed_header # marker_lines m @ body @ [[]]" (is ?lines)
    and "\<not> hasLineContinuation (unlines ([managed_header] @ marker_lines m @ body))"
proof -
  have "good_line managed_header"
    by (simp add: managed_header_def good_line_def suffix_singleton)
  with assms good_marker_lines [OF assms(1)]
  have good: "\<forall>l \<in> set ([managed_header] @ marker_lines m @ body). good_line l"
    by auto
  have "lines_of (unlines ([managed_header] @ marker_lines m @ body) @ []) =
      ([managed_header] @ marker_lines m @ body) @ lines_of []"
    by (rule split_unlines) (use good in \<open>auto simp: good_line_def\<close>)
  then show ?lines by simp
  with good show "\<not> hasLineContinuation (unlines ([managed_header] @ marker_lines m @ body))"
    by (auto simp: hasLineContinuation_def good_line_def)
qed

lemma unit_marker:
  assumes "isValidShareId (marker_id m)" "\<forall>l \<in> set body. good_line l"
    and "\<forall>l \<in> set body. \<not> is_marker_line l"
  shows "parseMarker (unlines ([managed_header] @ marker_lines m @ body)) = Inr m"
proof (rule parse_marker_lines [OF assms(1)])
  have "\<forall>l \<in> set (marker_lines m). is_marker_line l"
    by (cases "access m") (auto simp: marker_lines_def)
  then have "filter is_marker_line (marker_lines m) = marker_lines m"
    by (simp add: filter_id_conv)
  moreover have "filter is_marker_line body = []"
    using assms(3) by (simp add: filter_empty_conv)
  moreover have "\<not> is_marker_line managed_header" "\<not> is_marker_line []"
    by (simp_all add: managed_header_def MarkerPrefix_def)
  ultimately show "filter is_marker_line
      (lines_of (unlines ([managed_header] @ marker_lines m @ body))) = marker_lines m"
    by (simp only: unit_lines [OF assms(1,2)] filter.simps filter_append if_False append_Nil2)
qed

lemma no_header_before_body:
  "\<forall>l \<in> set (managed_header # marker_lines m). section_header l = None"
  by (cases "access m")
    (auto simp: marker_lines_def marker_line_def MarkerPrefix_def managed_header_def
      intro!: section_header_not_bracket)

lemma mount_body_lines:
  assumes "good_line d" "d \<noteq> []" "good_line w" "w \<noteq> []" "good_line h" "h \<noteq> []"
    "good_line o'" "o' \<noteq> []"
  shows "\<forall>l \<in> set (mount_body d w h o'). good_line l"
    and "\<forall>l \<in> set (mount_body d w h o'). \<not> is_marker_line l"
  using assms by (simp_all add: mount_body_def MarkerPrefix_def good_line_def suffix_singleton)

lemma automount_body_lines:
  assumes "good_line d" "d \<noteq> []" "good_line h" "h \<noteq> []"
  shows "\<forall>l \<in> set (automount_body d h). good_line l"
    and "\<forall>l \<in> set (automount_body d h). \<not> is_marker_line l"
  using assms by (simp_all add: automount_body_def MarkerPrefix_def good_line_def suffix_singleton)

text \<open>What the extractor returns for the two sections.\<close>

lemma section_header_lits [simp]:
  "section_header ''[Unit]'' = Some ''Unit''" "section_header ''[Mount]'' = Some ''Mount''"
  "section_header ''[Automount]'' = Some ''Automount''"
  by (simp_all add: section_header_def char_class_defs)

lemma extract_key:
  "key_ok k \<Longrightarrow> l = k @ CHR ''='' # v \<Longrightarrow> k \<in> set al \<Longrightarrow> vs k = None \<Longrightarrow>
   extract_lines sec al (l # ls) True sn vs = extract_lines sec al ls True sn (vs(k \<mapsto> v))"
  by (simp only: extract_assignment)

lemma extract_outside:
  "section_header l = None \<Longrightarrow>
   extract_lines sec al (l # ls) False sn vs = extract_lines sec al ls False sn vs"
  by simp

lemma extract_header:
  "section_header l = Some name \<Longrightarrow>
   extract_lines sec al (l # ls) ins sn vs = extract_lines sec al ls (name = sec) (sn \<or> name = sec) vs"
  by simp

lemma extract_mount:
  "extract_lines ''Mount'' mount_allowed (mount_body d w h o' @ [[]]) False False Map.empty =
     Inr [''What'' \<mapsto> w, ''Where'' \<mapsto> h, ''Type'' \<mapsto> ''cifs'', ''Options'' \<mapsto> o', ''TimeoutSec'' \<mapsto> ''30'']"
  by (simp del: extract_lines.simps(2) add: mount_body_def mount_allowed_def extract_header extract_outside
      section_header_not_bracket extract_key [of "''What''" _ w] extract_key [of "''Where''" _ h]
      extract_key [of "''Type''" _ "''cifs''"] extract_key [of "''Options''" _ o']
      extract_key [of "''TimeoutSec''" _ "''30''"])

lemma extract_automount:
  "extract_lines ''Automount'' automount_allowed (automount_body d h @ [[]]) False False Map.empty =
     Inr [''Where'' \<mapsto> h, ''TimeoutIdleSec'' \<mapsto> ''60'', ''DirectoryMode'' \<mapsto> ''0700'']"
  by (simp del: extract_lines.simps(2) add: automount_body_def automount_allowed_def extract_header
      extract_outside section_header_not_bracket extract_key [of "''Where''" _ h]
      extract_key [of "''TimeoutIdleSec''" _ "''60''"] extract_key [of "''DirectoryMode''" _ "''0700''"])

lemma extract_automount_unit:
  "extract_lines ''Unit'' unit_allowed (automount_body d h @ [[]]) False False Map.empty =
     Inr [''Description'' \<mapsto> ''nasmount automount: '' @ d, ''ConditionPathIsDirectory'' \<mapsto> h]"
  by (simp del: extract_lines.simps(2) add: automount_body_def unit_allowed_def extract_header
      extract_outside section_header_not_bracket
      extract_key [of "''Description''" _ "''nasmount automount: '' @ d"]
      extract_key [of "''ConditionPathIsDirectory''" _ h])

lemma extract_content:
  assumes "isValidShareId (marker_id m)" "\<forall>l \<in> set body. good_line l"
  shows "extractSectionAssignments (unlines ([managed_header] @ marker_lines m @ body)) sec al =
           extract_lines sec al (body @ [[]]) False False Map.empty"
  using extract_skip [OF no_header_before_body, of sec al m "body @ [[]]"]
  unfolding extractSectionAssignments_def unit_lines [OF assms] by simp

lemma buildMountUnitContent_Inr:
  assumes "isValidShareId (marker_id m)" "buildMountUnitContent m unc mp = Inr content"
  obtains w h where "encodeUnitValue unc = Inr w" "encodeUnitValue mp = Inr h"
    "content = unlines ([managed_header] @ marker_lines m @
       mount_body (to_html_escaped unc) w h (mountOptionsFor m))"
    "\<forall>l \<in> set (mount_body (to_html_escaped unc) w h (mountOptionsFor m)). good_line l"
    "\<forall>l \<in> set (mount_body (to_html_escaped unc) w h (mountOptionsFor m)). \<not> is_marker_line l"
proof -
  obtain w h where wh: "encodeUnitValue unc = Inr w" "encodeUnitValue mp = Inr h"
    and content: "content = mount_unit_text m unc w h (mountOptionsFor m)"
    using assms by (auto simp: buildMountUnitContent_def encoded_options split: sum.splits)
  note good = encodeUnitValue_good [OF wh(1)] encodeUnitValue_good [OF wh(2)]
    encodeUnitValue_good [OF encoded_options [OF assms(1)]]
  have "\<forall>l \<in> set (mount_body (to_html_escaped unc) w h (mountOptionsFor m)). good_line l"
    "\<forall>l \<in> set (mount_body (to_html_escaped unc) w h (mountOptionsFor m)). \<not> is_marker_line l"
    by (rule mount_body_lines; use good in \<open>simp add: good_line_html\<close>)+
  with that [OF wh] content show ?thesis
    by (simp add: mount_unit_text_def mount_body_def)
qed

lemma buildAutomountUnitContent_Inr:
  assumes "isValidShareId (marker_id m)" "buildAutomountUnitContent m mp = Inr content"
  obtains h where "encodeUnitValue mp = Inr h"
    "content = unlines ([managed_header] @ marker_lines m @ automount_body (to_html_escaped mp) h)"
    "\<forall>l \<in> set (automount_body (to_html_escaped mp) h). good_line l"
    "\<forall>l \<in> set (automount_body (to_html_escaped mp) h). \<not> is_marker_line l"
proof -
  obtain h where h: "encodeUnitValue mp = Inr h" and content: "content = automount_unit_text m mp h"
    using assms by (auto simp: buildAutomountUnitContent_def split: sum.splits)
  note good = encodeUnitValue_good [OF h]
  have "\<forall>l \<in> set (automount_body (to_html_escaped mp) h). good_line l"
    "\<forall>l \<in> set (automount_body (to_html_escaped mp) h). \<not> is_marker_line l"
    by (rule automount_body_lines; use good in \<open>simp add: good_line_html\<close>)+
  with that [OF h] content show ?thesis
    by (simp add: automount_unit_text_def automount_body_def)
qed

lemma mount_unit_valid:
  assumes "isValidShareId (marker_id m)" and "validateUnc unc = Inr unc"
    and "buildMountUnitContent m unc mountPoint = Inr content"
  shows "parseMarker content = Inr m \<and> validateMountUnitBody content m mountPoint = Inr unc"
proof -
  from buildMountUnitContent_Inr [OF assms(1,3)] obtain w h where
    enc: "encodeUnitValue unc = Inr w" "encodeUnitValue mountPoint = Inr h"
    and content: "content = unlines ([managed_header] @ marker_lines m @
      mount_body (to_html_escaped unc) w h (mountOptionsFor m))"
    and good: "\<forall>l \<in> set (mount_body (to_html_escaped unc) w h (mountOptionsFor m)). good_line l"
      "\<forall>l \<in> set (mount_body (to_html_escaped unc) w h (mountOptionsFor m)). \<not> is_marker_line l" .
  have mount_vals: "extractSectionAssignments content ''Mount'' mount_allowed =
      Inr [''What'' \<mapsto> w, ''Where'' \<mapsto> h, ''Type'' \<mapsto> ''cifs'', ''Options'' \<mapsto> mountOptionsFor m,
           ''TimeoutSec'' \<mapsto> ''30'']"
    unfolding content extract_content [OF assms(1) good(1)] extract_mount ..
  have "parseMarker content = Inr m" "\<not> hasLineContinuation content"
    unfolding content by (rule unit_marker [OF assms(1) good] unit_lines(2) [OF assms(1) good(1)])+
  moreover have "missing_key mount_allowed [''What'' \<mapsto> w, ''Where'' \<mapsto> h, ''Type'' \<mapsto> ''cifs'',
      ''Options'' \<mapsto> mountOptionsFor m, ''TimeoutSec'' \<mapsto> ''30''] = None"
    by (simp add: mount_allowed_def)
  ultimately show ?thesis
    using encodeUnitValue_good(5) [OF enc(1)] encodeUnitValue_good(5) [OF enc(2)] assms(2)
    by (simp add: validateMountUnitBody_def mount_vals value_of_def encoded_options [OF assms(1)])
qed

text \<open>
  C1.  Generation and validation of the \<open>.mount\<close> unit agree: whatever \<open>buildMountUnitContent\<close>
  emits for a marker with a valid id and a valid UNC path, the marker parser reads back exactly
  that marker and the body validator accepts the file and recovers the UNC path.
\<close>

theorem mount_unit_roundtrip:
  assumes "isValidShareId (marker_id m)" and "validateUnc unc = Inr unc"
    and "buildMountUnitContent m unc mountPoint = Inr content"
  shows "parseMarker content = Inr m \<and> validateMountUnitBody content m mountPoint = Inr unc"
  using mount_unit_valid [OF assms] .

lemma automount_unit_valid:
  assumes "isValidShareId (marker_id m)"
    and "buildAutomountUnitContent m mountPoint = Inr content"
  shows "parseMarker content = Inr m \<and> validateAutomountUnitBody content m mountPoint = Inr ()"
proof -
  from buildAutomountUnitContent_Inr [OF assms] obtain h where
    enc: "encodeUnitValue mountPoint = Inr h"
    and content: "content = unlines ([managed_header] @ marker_lines m @
      automount_body (to_html_escaped mountPoint) h)"
    and good: "\<forall>l \<in> set (automount_body (to_html_escaped mountPoint) h). good_line l"
      "\<forall>l \<in> set (automount_body (to_html_escaped mountPoint) h). \<not> is_marker_line l" .
  have mount_vals: "extractSectionAssignments content ''Automount'' automount_allowed =
      Inr [''Where'' \<mapsto> h, ''TimeoutIdleSec'' \<mapsto> ''60'', ''DirectoryMode'' \<mapsto> ''0700'']"
    unfolding content extract_content [OF assms(1) good(1)] extract_automount ..
  have unit_vals: "extractSectionAssignments content ''Unit'' unit_allowed =
      Inr [''Description'' \<mapsto> ''nasmount automount: '' @ to_html_escaped mountPoint,
           ''ConditionPathIsDirectory'' \<mapsto> h]"
    unfolding content extract_content [OF assms(1) good(1)] extract_automount_unit ..
  have "parseMarker content = Inr m" "\<not> hasLineContinuation content"
    unfolding content by (rule unit_marker [OF assms(1) good] unit_lines(2) [OF assms(1) good(1)])+
  moreover have "missing_key automount_allowed
      [''Where'' \<mapsto> h, ''TimeoutIdleSec'' \<mapsto> ''60'', ''DirectoryMode'' \<mapsto> ''0700''] = None"
    by (simp add: automount_allowed_def)
  ultimately show ?thesis
    using enc by (simp add: validateAutomountUnitBody_def mount_vals unit_vals value_of_def)
qed

text \<open>
  The same for the \<open>.automount\<close> unit: every file \<open>buildAutomountUnitContent\<close> emits carries
  the marker and passes the automount validator.
\<close>

theorem automount_unit_roundtrip:
  assumes "isValidShareId (marker_id m)"
    and "buildAutomountUnitContent m mountPoint = Inr content"
  shows "parseMarker content = Inr m \<and> validateAutomountUnitBody content m mountPoint = Inr ()"
  using automount_unit_valid [OF assms] .

end
