(* ===== verification/Posix.thy ===== *)
theory Posix
  imports UnitSpec
begin

unbundle bit_operations_syntax

text \<open>
  The operating system the privileged code runs on: directories and files as numbered inodes, the
  POSIX calls the source makes as state transitions, and the external programs and kernel
  interfaces as parameters.

  Failures.  The world carries a schedule: every call takes its next outcome, which is either that
  it does its work or fails with no effect, with an errno that stands for a failure of the machine
  (\<open>OtherErrno\<close>: ENOENT, EEXIST and the like come from the state of the directories only); a read or a
  write may also be told to be short.
  When the schedule is exhausted every call works.  A theorem that holds for every world therefore
  holds for every sequence of failures, including an interrupted write or a failing fsync.

  Descriptors.  An open descriptor is the number of the inode it refers to, so a directory entry
  that is replaced after the open does not affect it, as on the real system; \<open>open_fds\<close> counts the
  descriptors that are open.

  Services.  The state of systemd and of the mount table is the type parameter \<open>'s\<close>; what the source
  reads of it and the programs it runs are the fields of \<open>platform\<close>, which the definitions take as
  an argument.  A command changes only that state: it does not write the files modelled here.
\<close>

section \<open>State\<close>

datatype errno = ENOENT | EEXIST | ENOTDIR | ELOOP | EISDIR | ENOTEMPTY | EBADF | OtherErrno nat

datatype outcome = Works | Fails nat | Short nat

datatype file_kind = RegularFile | DirectoryFile | SymbolicLink "nat option" | SpecialFile

record inode =
  ikind :: file_kind
  iuid :: uid
  igid :: gid
  imode :: nat
  idata :: qstring
  ients :: "(qstring \<times> nat) list"
  imount :: nat
  idevice :: nat
  itrigger :: bool

datatype event =
  Ev_Mkdir nat qstring
| Ev_Create nat qstring
| Ev_Write nat
| Ev_Chown nat uid gid
| Ev_Chmod nat nat
| Ev_Install nat qstring
| Ev_Unlink nat qstring
| Ev_Rmdir nat qstring
| Ev_Command "qstring list"

record 's world =
  inodes :: "nat \<Rightarrow> inode option"
  absolute :: "qstring \<Rightarrow> nat option"
  next_ino :: nat
  umask :: nat
  sched :: "outcome list"
  rng :: "nat \<Rightarrow> 64 word"
  rng_pos :: nat
  open_fds :: int
  events :: "event list"
  services :: 's

text \<open>
  The programs and kernel interfaces: \<open>systemctl\<close> with its arguments (exit code and combined
  output), \<open>systemctl show\<close> of one property (None when it fails), the text of
  \<open>/proc/self/mountinfo\<close>, the unique mount id of a path (0 when unknown), \<open>systemd-escape\<close> and the
  password database (uid, gid and home directory).
\<close>

record 's platform =
  run_command :: "qstring list \<Rightarrow> 's \<Rightarrow> (int \<times> qstring) \<times> 's"
  ctl_show :: "'s \<Rightarrow> qstring \<Rightarrow> qstring \<Rightarrow> qstring option"
  mountinfo :: "'s \<Rightarrow> qstring option"
  unique_mount_id :: "'s \<Rightarrow> qstring \<Rightarrow> 64 word"
  systemd_escape :: escape_program
  passwd :: "uid \<Rightarrow> (uid \<times> gid \<times> qstring) option"

section \<open>Outcomes, inodes and entries\<close>

definition next_outcome :: "'s world \<Rightarrow> outcome \<times> 's world" where
  "next_outcome w = (case sched w of [] \<Rightarrow> (Works, w) | x # xs \<Rightarrow> (x, w\<lparr>sched := xs\<rparr>))"

text \<open>A call that can only work or fail.\<close>

definition attempt :: "'s world \<Rightarrow> ('s world \<Rightarrow> (errno + 'a) \<times> 's world) \<Rightarrow> (errno + 'a) \<times> 's world" where
  "attempt w k = (case next_outcome w of (Fails e, w') \<Rightarrow> (Inl (OtherErrno e), w') | (_, w') \<Rightarrow> k w')"

definition log_event :: "event \<Rightarrow> 's world \<Rightarrow> 's world" where
  "log_event e w = w\<lparr>events := events w @ [e]\<rparr>"

definition set_inode :: "nat \<Rightarrow> inode \<Rightarrow> 's world \<Rightarrow> 's world" where
  "set_inode i n w = w\<lparr>inodes := (inodes w)(i \<mapsto> n)\<rparr>"

definition entry :: "'s world \<Rightarrow> nat \<Rightarrow> qstring \<Rightarrow> nat option" where
  "entry w d name = (case inodes w d of None \<Rightarrow> None | Some n \<Rightarrow> map_of (ients n) name)"

definition remove_entry :: "qstring \<Rightarrow> inode \<Rightarrow> inode" where
  "remove_entry name n = n\<lparr>ients := filter (\<lambda>p. fst p \<noteq> name) (ients n)\<rparr>"

definition add_entry :: "qstring \<Rightarrow> nat \<Rightarrow> inode \<Rightarrow> inode" where
  "add_entry name i n = (remove_entry name n)\<lparr>ients := (name, i) # ients (remove_entry name n)\<rparr>"

definition opened :: "nat \<Rightarrow> 's world \<Rightarrow> (errno + nat) \<times> 's world" where
  "opened i w = (Inr i, w\<lparr>open_fds := open_fds w + 1\<rparr>)"

definition close_fd :: "'s world \<Rightarrow> 's world" where
  "close_fd w = w\<lparr>open_fds := open_fds w - 1\<rparr>"

section \<open>System calls\<close>

text \<open>\<open>openat(fd, name, O_DIRECTORY | O_NOFOLLOW)\<close>.\<close>

definition open_as_dir :: "nat \<Rightarrow> 's world \<Rightarrow> (errno + nat) \<times> 's world" where
  "open_as_dir i w =
     (case inodes w i of
        None \<Rightarrow> (Inl ENOENT, w)
      | Some n \<Rightarrow> if ikind n = DirectoryFile then opened i w else (Inl ENOTDIR, w))"

definition openat_dir :: "nat \<Rightarrow> qstring \<Rightarrow> 's world \<Rightarrow> (errno + nat) \<times> 's world" where
  "openat_dir d name w =
     attempt w (\<lambda>w. case entry w d name of None \<Rightarrow> (Inl ENOENT, w) | Some i \<Rightarrow> open_as_dir i w)"

text \<open>\<open>openat(fd, name, O_RDONLY | O_NOFOLLOW)\<close>.\<close>

definition openat_file :: "nat \<Rightarrow> qstring \<Rightarrow> 's world \<Rightarrow> (errno + nat) \<times> 's world" where
  "openat_file d name w =
     attempt w (\<lambda>w. case entry w d name of
        None \<Rightarrow> (Inl ENOENT, w)
      | Some i \<Rightarrow>
          (case inodes w i of
             None \<Rightarrow> (Inl ENOENT, w)
           | Some n \<Rightarrow> (case ikind n of SymbolicLink _ \<Rightarrow> (Inl ELOOP, w) | _ \<Rightarrow> opened i w)))"

text \<open>An absolute directory, the last component followed or not.\<close>

definition open_abs_dir :: "bool \<Rightarrow> qstring \<Rightarrow> 's world \<Rightarrow> (errno + nat) \<times> 's world" where
  "open_abs_dir follow path w =
     attempt w (\<lambda>w. case absolute w path of
        None \<Rightarrow> (Inl ENOENT, w)
      | Some i \<Rightarrow>
          (case inodes w i of
             Some n \<Rightarrow>
               (case ikind n of
                  SymbolicLink t \<Rightarrow>
                    if follow then (case t of None \<Rightarrow> (Inl ENOENT, w) | Some j \<Rightarrow> open_as_dir j w)
                    else (Inl ENOTDIR, w)
                | _ \<Rightarrow> open_as_dir i w)
           | None \<Rightarrow> (Inl ENOENT, w)))"

definition masked :: "nat \<Rightarrow> 's world \<Rightarrow> nat" where
  "masked mode w = mode - (mode AND umask w)"

definition new_inode :: "file_kind \<Rightarrow> nat \<Rightarrow> inode \<Rightarrow> inode" where
  "new_inode k mode parent =
     \<lparr>ikind = k, iuid = 0, igid = 0, imode = mode, idata = [], ients = [],
      imount = imount parent, idevice = idevice parent, itrigger = False\<rparr>"

text \<open>A new inode under a name that is not taken, owned by root.\<close>

definition create_in :: "nat \<Rightarrow> qstring \<Rightarrow> file_kind \<Rightarrow> nat \<Rightarrow> event \<Rightarrow> 's world \<Rightarrow> (errno + nat) \<times> 's world" where
  "create_in d name k mode e w =
     (case inodes w d of
        None \<Rightarrow> (Inl EBADF, w)
      | Some n \<Rightarrow>
          if map_of (ients n) name \<noteq> None then (Inl EEXIST, w)
          else (Inr (next_ino w),
                log_event e (set_inode (next_ino w) (new_inode k (masked mode w) n)
                  (set_inode d (add_entry name (next_ino w) n) (w\<lparr>next_ino := next_ino w + 1\<rparr>)))))"

definition mkdirat :: "nat \<Rightarrow> qstring \<Rightarrow> nat \<Rightarrow> 's world \<Rightarrow> (errno + unit) \<times> 's world" where
  "mkdirat d name mode w =
     attempt w (\<lambda>w. case create_in d name DirectoryFile mode (Ev_Mkdir d name) w of
        (Inl e, w') \<Rightarrow> (Inl e, w') | (Inr _, w') \<Rightarrow> (Inr (), w'))"

text \<open>\<open>openat(fd, name, O_WRONLY | O_CREAT | O_EXCL | O_NOFOLLOW, mode)\<close>.\<close>

definition openat_excl :: "nat \<Rightarrow> qstring \<Rightarrow> nat \<Rightarrow> 's world \<Rightarrow> (errno + nat) \<times> 's world" where
  "openat_excl d name mode w =
     attempt w (\<lambda>w. case create_in d name RegularFile mode (Ev_Create d name) w of
        (Inl e, w') \<Rightarrow> (Inl e, w') | (Inr i, w') \<Rightarrow> opened i w')"

text \<open>\<open>openat(fd, name, O_CREAT | O_RDWR | O_NOFOLLOW, mode)\<close>.\<close>

definition openat_create :: "nat \<Rightarrow> qstring \<Rightarrow> nat \<Rightarrow> 's world \<Rightarrow> (errno + nat) \<times> 's world" where
  "openat_create d name mode w =
     attempt w (\<lambda>w. case entry w d name of
        None \<Rightarrow> (case create_in d name RegularFile mode (Ev_Create d name) w of
                   (Inl e, w') \<Rightarrow> (Inl e, w') | (Inr i, w') \<Rightarrow> opened i w')
      | Some i \<Rightarrow>
          (case inodes w i of
             None \<Rightarrow> (Inl ENOENT, w)
           | Some n \<Rightarrow> (case ikind n of
                 SymbolicLink _ \<Rightarrow> (Inl ELOOP, w) | DirectoryFile \<Rightarrow> (Inl EISDIR, w) | _ \<Rightarrow> opened i w)))"

definition fstat :: "nat \<Rightarrow> 's world \<Rightarrow> (errno + inode) \<times> 's world" where
  "fstat fd w = attempt w (\<lambda>w. case inodes w fd of None \<Rightarrow> (Inl EBADF, w) | Some n \<Rightarrow> (Inr n, w))"

text \<open>\<open>fstatat(fd, name, AT_SYMLINK_NOFOLLOW)\<close>.\<close>

definition fstatat :: "nat \<Rightarrow> qstring \<Rightarrow> 's world \<Rightarrow> (errno + inode) \<times> 's world" where
  "fstatat d name w =
     attempt w (\<lambda>w. case entry w d name of
        None \<Rightarrow> (Inl ENOENT, w)
      | Some i \<Rightarrow> (case inodes w i of None \<Rightarrow> (Inl ENOENT, w) | Some n \<Rightarrow> (Inr n, w)))"

definition update_inode :: "nat \<Rightarrow> (inode \<Rightarrow> inode) \<Rightarrow> event \<Rightarrow> 's world \<Rightarrow> (errno + unit) \<times> 's world" where
  "update_inode fd f e w =
     (case inodes w fd of
        None \<Rightarrow> (Inl EBADF, w)
      | Some n \<Rightarrow> (Inr (), log_event e (set_inode fd (f n) w)))"

definition fchown :: "nat \<Rightarrow> uid \<Rightarrow> gid \<Rightarrow> 's world \<Rightarrow> (errno + unit) \<times> 's world" where
  "fchown fd u g w =
     attempt w (update_inode fd (\<lambda>n. n\<lparr>iuid := u, igid := g\<rparr>) (Ev_Chown fd u g))"

definition fchmod :: "nat \<Rightarrow> nat \<Rightarrow> 's world \<Rightarrow> (errno + unit) \<times> 's world" where
  "fchmod fd mode w = attempt w (update_inode fd (\<lambda>n. n\<lparr>imode := mode\<rparr>) (Ev_Chmod fd mode))"

definition fsync :: "nat \<Rightarrow> 's world \<Rightarrow> (errno + unit) \<times> 's world" where
  "fsync fd w = attempt w (\<lambda>w. (Inr (), w))"

text \<open>
  One \<open>write\<close> call appending at the end of a file that was created empty: how many bytes it took.
  A short outcome takes that many; \<open>Short 0\<close> is a call that returns 0.
\<close>

definition write_chunk :: "nat \<Rightarrow> qstring \<Rightarrow> 's world \<Rightarrow> (errno + nat) \<times> 's world" where
  "write_chunk fd bytes w =
     (case next_outcome w of
        (Fails e, w') \<Rightarrow> (Inl (OtherErrno e), w')
      | (out, w') \<Rightarrow>
          (let n = (case out of Short k \<Rightarrow> min k (length bytes) | _ \<Rightarrow> length bytes) in
           case update_inode fd (\<lambda>i. i\<lparr>idata := idata i @ take n bytes\<rparr>) (Ev_Write fd) w' of
             (Inl e, w'') \<Rightarrow> (Inl e, w'') | (Inr _, w'') \<Rightarrow> (Inr n, w'')))"

text \<open>One \<open>read\<close> call at an offset, for at most the given number of bytes; [] is end of file.\<close>

definition read_chunk :: "nat \<Rightarrow> nat \<Rightarrow> nat \<Rightarrow> 's world \<Rightarrow> (errno + qstring) \<times> 's world" where
  "read_chunk fd offset limit w =
     (case next_outcome w of
        (Fails e, w') \<Rightarrow> (Inl (OtherErrno e), w')
      | (out, w') \<Rightarrow>
          (case inodes w' fd of
             None \<Rightarrow> (Inl EBADF, w')
           | Some i \<Rightarrow>
               (Inr (take (case out of Short k \<Rightarrow> min k limit | _ \<Rightarrow> limit) (drop offset (idata i))), w')))"

definition renameat :: "nat \<Rightarrow> qstring \<Rightarrow> qstring \<Rightarrow> 's world \<Rightarrow> (errno + unit) \<times> 's world" where
  "renameat d old new w =
     attempt w (\<lambda>w. case inodes w d of
        None \<Rightarrow> (Inl EBADF, w)
      | Some n \<Rightarrow>
          (case map_of (ients n) old of
             None \<Rightarrow> (Inl ENOENT, w)
           | Some i \<Rightarrow>
               (Inr (), log_event (Ev_Install d new)
                  (set_inode d (add_entry new i (remove_entry old n)) w))))"

definition unlinkat :: "nat \<Rightarrow> qstring \<Rightarrow> 's world \<Rightarrow> (errno + unit) \<times> 's world" where
  "unlinkat d name w =
     attempt w (\<lambda>w. case inodes w d of
        None \<Rightarrow> (Inl EBADF, w)
      | Some n \<Rightarrow>
          (case map_of (ients n) name of
             None \<Rightarrow> (Inl ENOENT, w)
           | Some i \<Rightarrow>
               if map_option ikind (inodes w i) = Some DirectoryFile then (Inl EISDIR, w)
               else (Inr (), log_event (Ev_Unlink d name) (set_inode d (remove_entry name n) w))))"

text \<open>\<open>unlinkat(fd, name, AT_REMOVEDIR)\<close>.\<close>

definition rmdirat :: "nat \<Rightarrow> qstring \<Rightarrow> 's world \<Rightarrow> (errno + unit) \<times> 's world" where
  "rmdirat d name w =
     attempt w (\<lambda>w. case inodes w d of
        None \<Rightarrow> (Inl EBADF, w)
      | Some n \<Rightarrow>
          (case map_of (ients n) name of
             None \<Rightarrow> (Inl ENOENT, w)
           | Some i \<Rightarrow>
               (case inodes w i of
                  None \<Rightarrow> (Inl ENOENT, w)
                | Some c \<Rightarrow>
                    if ikind c \<noteq> DirectoryFile then (Inl ENOTDIR, w)
                    else if ients c \<noteq> [] then (Inl ENOTEMPTY, w)
                    else (Inr (), log_event (Ev_Rmdir d name) (set_inode d (remove_entry name n) w)))))"

text \<open>\<open>dup\<close> followed by \<open>fdopendir\<close>: the names the directory stream will return.\<close>

definition dup_fd :: "nat \<Rightarrow> 's world \<Rightarrow> (errno + nat) \<times> 's world" where
  "dup_fd fd w = attempt w (opened fd)"

definition fdopendir :: "nat \<Rightarrow> 's world \<Rightarrow> (errno + qstring list) \<times> 's world" where
  "fdopendir fd w =
     attempt w (\<lambda>w. case inodes w fd of
        None \<Rightarrow> (Inl EBADF, w)
      | Some n \<Rightarrow> (Inr (''.'' # ''..'' # map fst (ients n)), w))"

text \<open>\<open>QRandomGenerator64::global()->generate64()\<close>.\<close>

definition generate64 :: "'s world \<Rightarrow> 64 word \<times> 's world" where
  "generate64 w = (rng w (rng_pos w), w\<lparr>rng_pos := rng_pos w + 1\<rparr>)"

text \<open>Running a command: it is logged, and changes the services only.\<close>

definition run :: "'s platform \<Rightarrow> qstring list \<Rightarrow> 's world \<Rightarrow> (int \<times> qstring) \<times> 's world" where
  "run P args w =
     (case run_command P args (services w) of
        (r, s) \<Rightarrow> (r, log_event (Ev_Command args) (w\<lparr>services := s\<rparr>)))"

section \<open>Calls that change no file\<close>

text \<open>
  The two worlds differ only in the rest of the failure schedule and in the number of open
  descriptors, which grows by the first argument.
\<close>

definition reads :: "int \<Rightarrow> 's world \<Rightarrow> 's world \<Rightarrow> bool" where
  "reads k w w' \<longleftrightarrow> w' = w\<lparr>sched := sched w', open_fds := open_fds w + k\<rparr>"

lemma reads_refl [simp, intro]: "reads 0 w w"
  by (simp add: reads_def)

lemma reads_trans [trans]:
  assumes "reads k w w'" "reads l w' w''"
  shows "reads (k + l) w w''"
proof -
  from assms have "w'' = (w\<lparr>sched := sched w', open_fds := open_fds w + k\<rparr>)
      \<lparr>sched := sched w'', open_fds := open_fds (w\<lparr>sched := sched w', open_fds := open_fds w + k\<rparr>) + l\<rparr>"
    unfolding reads_def by metis
  then show ?thesis by (simp add: reads_def add.assoc)
qed

lemma reads_fields:
  assumes "reads k w w'"
  shows "inodes w' = inodes w" "absolute w' = absolute w" "next_ino w' = next_ino w"
    "umask w' = umask w" "rng w' = rng w" "rng_pos w' = rng_pos w" "events w' = events w"
    "services w' = services w" "open_fds w' = open_fds w + k"
  using assms [unfolded reads_def] by (metis world.select_convs world.update_convs world.surjective)+

lemma reads_entry: "reads k w w' \<Longrightarrow> entry w' = entry w"
  by (intro ext) (simp add: entry_def reads_fields)

lemma reads_close [simp]: "reads (-1) w (close_fd w)"
  by (simp add: reads_def close_fd_def)

lemma next_outcome_reads: "next_outcome w = (r, w') \<Longrightarrow> reads 0 w w'"
  by (auto simp: next_outcome_def reads_def split: list.splits)

lemma attempt_cases:
  assumes "attempt w k = (r, w')"
  obtains (fails) e where "r = Inl (OtherErrno e)" "reads 0 w w'"
  | (works) w1 where "reads 0 w w1" "k w1 = (r, w')"
  using assms by (auto simp: attempt_def split: prod.splits outcome.splits
      dest!: next_outcome_reads)

lemma opened_reads: "opened i w = (r, w') \<longleftrightarrow> r = Inr i \<and> w' = w\<lparr>open_fds := open_fds w + 1\<rparr>"
  by (auto simp: opened_def)

lemma reads_opened [simp]: "reads 1 w (w\<lparr>open_fds := open_fds w + 1\<rparr>)"
  by (simp add: reads_def)

lemma reads_0_trans: "reads 0 w w1 \<Longrightarrow> reads k w1 w' \<Longrightarrow> reads k w w'"
  using reads_trans [of 0 w w1 k w'] by simp

lemma reads_0_opened [intro]: "reads 0 w w1 \<Longrightarrow> reads 1 w (w1\<lparr>open_fds := open_fds w + 1\<rparr>)"
  by (cases w, cases w1) (simp add: reads_def)

text \<open>The opening calls: what an error leaves, and what a descriptor is.\<close>

lemma open_as_dir_result:
  "open_as_dir i w = (r, w') \<Longrightarrow>
   (case r of Inl e \<Rightarrow> w' = w
    | Inr fd \<Rightarrow> fd = i \<and> reads 1 w w' \<and> (\<exists>n. inodes w fd = Some n \<and> ikind n = DirectoryFile))"
  by (auto simp: open_as_dir_def opened_reads split: option.splits if_splits)

lemma openat_dir_result:
  assumes "openat_dir d name w = (r, w')"
  shows "case r of Inl e \<Rightarrow> reads 0 w w'
    | Inr fd \<Rightarrow> reads 1 w w' \<and> entry w d name = Some fd \<and>
        (\<exists>n. inodes w fd = Some n \<and> ikind n = DirectoryFile)"
  using assms unfolding openat_dir_def
proof (cases rule: attempt_cases)
  case (works w1)
  then show ?thesis
    by (cases r)
      (auto split: option.splits dest!: open_as_dir_result
        simp: reads_entry [OF works(1)] reads_fields [OF works(1)]
        intro: reads_0_trans [OF works(1)])
qed auto

lemma openat_file_result:
  assumes "openat_file d name w = (r, w')"
  shows "case r of Inl e \<Rightarrow> reads 0 w w'
    | Inr fd \<Rightarrow> reads 1 w w' \<and> entry w d name = Some fd \<and> inodes w fd \<noteq> None"
  using assms unfolding openat_file_def
proof (cases rule: attempt_cases)
  case (works w1)
  then show ?thesis
    by (cases r)
      (auto split: option.splits file_kind.splits
        simp: opened_reads reads_entry [OF works(1)] reads_fields [OF works(1)]
        intro: reads_0_trans [OF works(1)])
qed auto

text \<open>Where an absolute path leads when its last component is followed.\<close>

definition follow_path :: "'s world \<Rightarrow> qstring \<Rightarrow> nat option" where
  "follow_path w path =
     (case absolute w path of
        None \<Rightarrow> None
      | Some i \<Rightarrow>
          (case inodes w i of
             None \<Rightarrow> None
           | Some n \<Rightarrow> (case ikind n of SymbolicLink t \<Rightarrow> t | _ \<Rightarrow> Some i)))"

lemma reads_follow: "reads k w w' \<Longrightarrow> follow_path w' = follow_path w"
  by (intro ext) (simp add: follow_path_def reads_fields cong: option.case_cong)

lemma open_abs_dir_result:
  assumes "open_abs_dir follow path w = (r, w')"
  shows "case r of Inl e \<Rightarrow> reads 0 w w'
    | Inr fd \<Rightarrow> reads 1 w w' \<and> (\<exists>n. inodes w fd = Some n \<and> ikind n = DirectoryFile) \<and>
        (if follow then follow_path w path = Some fd else absolute w path = Some fd)"
  using assms unfolding open_abs_dir_def
proof (cases rule: attempt_cases)
  case (works w1)
  then show ?thesis
    by (cases r)
      (auto split: option.splits file_kind.splits if_splits dest!: open_as_dir_result
        simp: follow_path_def reads_entry [OF works(1)] reads_fields [OF works(1)]
        intro: reads_0_trans [OF works(1)])
qed auto

lemma fstat_result:
  assumes "fstat fd w = (r, w')"
  shows "reads 0 w w' \<and> (case r of Inl e \<Rightarrow> True | Inr n \<Rightarrow> inodes w fd = Some n)"
  using assms unfolding fstat_def
proof (cases rule: attempt_cases)
  case (works w1)
  then show ?thesis by (auto simp: reads_fields [OF works(1)] split: option.splits)
qed auto

lemma fstatat_result:
  assumes "fstatat d name w = (r, w')"
  shows "reads 0 w w' \<and> (case r of Inl e \<Rightarrow> True
    | Inr n \<Rightarrow> \<exists>i. entry w d name = Some i \<and> inodes w i = Some n)"
  using assms unfolding fstatat_def
proof (cases rule: attempt_cases)
  case (works w1)
  then show ?thesis
    by (auto simp: reads_fields [OF works(1)] reads_entry [OF works(1)] split: option.splits)
qed auto

lemma fsync_reads: "fsync fd w = (r, w') \<Longrightarrow> reads 0 w w'"
  by (auto simp: fsync_def elim!: attempt_cases)

lemma dup_fd_result:
  assumes "dup_fd fd w = (r, w')"
  shows "case r of Inl e \<Rightarrow> reads 0 w w' | Inr d \<Rightarrow> d = fd \<and> reads 1 w w'"
  using assms unfolding dup_fd_def
proof (cases rule: attempt_cases)
  case (works w1)
  then show ?thesis by (auto simp: opened_reads intro: reads_0_trans [OF works(1)])
qed auto

lemma fdopendir_result:
  assumes "fdopendir fd w = (r, w')"
  shows "reads 0 w w' \<and> (case r of Inl e \<Rightarrow> True
    | Inr names \<Rightarrow> \<exists>n. inodes w fd = Some n \<and> names = ''.'' # ''..'' # map fst (ients n))"
  using assms unfolding fdopendir_def
proof (cases rule: attempt_cases)
  case (works w1)
  then show ?thesis by (auto simp: reads_fields [OF works(1)] split: option.splits)
qed auto

section \<open>Calls that change files\<close>

text \<open>A world whose inode numbers from \<open>next_ino\<close> on are free.\<close>

definition fresh_inodes :: "'s world \<Rightarrow> bool" where
  "fresh_inodes w \<longleftrightarrow> (\<forall>i \<ge> next_ino w. inodes w i = None)"

lemma reads_fresh: "reads k w w' \<Longrightarrow> fresh_inodes w' = fresh_inodes w"
  by (simp add: fresh_inodes_def reads_fields)

lemma map_of_filter_key:
  "map_of (filter (\<lambda>p. fst p \<noteq> k) xs) x = (if x = k then None else map_of xs x)"
  by (induction xs) auto

lemma entries_add_remove [simp]:
  "map_of (ients (remove_entry k n)) x = (if x = k then None else map_of (ients n) x)"
  "map_of (ients (add_entry k i n)) x = (if x = k then Some i else map_of (ients n) x)"
  by (simp_all add: remove_entry_def add_entry_def map_of_filter_key)

lemma entry_fields [simp]:
  "ikind (remove_entry k n) = ikind n" "iuid (remove_entry k n) = iuid n"
  "igid (remove_entry k n) = igid n" "imode (remove_entry k n) = imode n"
  "idata (remove_entry k n) = idata n" "imount (remove_entry k n) = imount n"
  "idevice (remove_entry k n) = idevice n" "itrigger (remove_entry k n) = itrigger n"
  "ikind (add_entry k i n) = ikind n" "iuid (add_entry k i n) = iuid n"
  "igid (add_entry k i n) = igid n" "imode (add_entry k i n) = imode n"
  "idata (add_entry k i n) = idata n" "imount (add_entry k i n) = imount n"
  "idevice (add_entry k i n) = idevice n" "itrigger (add_entry k i n) = itrigger n"
  by (simp_all add: remove_entry_def add_entry_def)

lemma set_inode_fields [simp]:
  "inodes (set_inode i n w) = (inodes w)(i \<mapsto> n)" "absolute (set_inode i n w) = absolute w"
  "next_ino (set_inode i n w) = next_ino w" "open_fds (set_inode i n w) = open_fds w"
  "services (set_inode i n w) = services w" "umask (set_inode i n w) = umask w"
  "sched (set_inode i n w) = sched w" "events (set_inode i n w) = events w"
  "rng (set_inode i n w) = rng w" "rng_pos (set_inode i n w) = rng_pos w"
  by (simp_all add: set_inode_def)

lemma log_event_fields [simp]:
  "inodes (log_event e w) = inodes w" "absolute (log_event e w) = absolute w"
  "next_ino (log_event e w) = next_ino w" "open_fds (log_event e w) = open_fds w"
  "services (log_event e w) = services w" "umask (log_event e w) = umask w"
  "sched (log_event e w) = sched w" "events (log_event e w) = events w @ [e]"
  "rng (log_event e w) = rng w" "rng_pos (log_event e w) = rng_pos w"
  by (simp_all add: log_event_def)

lemma close_fd_fields [simp]:
  "inodes (close_fd w) = inodes w" "absolute (close_fd w) = absolute w"
  "next_ino (close_fd w) = next_ino w" "open_fds (close_fd w) = open_fds w - 1"
  "services (close_fd w) = services w" "umask (close_fd w) = umask w"
  "sched (close_fd w) = sched w" "events (close_fd w) = events w"
  "rng (close_fd w) = rng w" "rng_pos (close_fd w) = rng_pos w"
  by (simp_all add: close_fd_def)

lemma entry_close [simp]: "entry (close_fd w) = entry w"
  by (intro ext) (simp add: entry_def)

lemma fresh_close [simp]: "fresh_inodes (close_fd w) = fresh_inodes w"
  by (simp add: fresh_inodes_def)

text \<open>The changes, each as what holds when it worked; an error leaves the files alone.\<close>

lemma create_in_result:
  assumes "create_in d name k mode e w = (r, w')"
  shows "case r of Inl _ \<Rightarrow> w' = w
    | Inr i \<Rightarrow> \<exists>n. inodes w d = Some n \<and> map_of (ients n) name = None \<and> i = next_ino w \<and>
        inodes w' = (inodes w)(d \<mapsto> add_entry name i n, i \<mapsto> new_inode k (masked mode w) n) \<and>
        absolute w' = absolute w \<and> next_ino w' = next_ino w + 1 \<and> open_fds w' = open_fds w \<and>
        services w' = services w \<and> umask w' = umask w"
  using assms by (auto simp: create_in_def masked_def split: option.splits if_splits)

lemma mkdirat_result:
  assumes "mkdirat d name mode w = (r, w')"
  shows "case r of Inl _ \<Rightarrow> reads 0 w w'
    | Inr _ \<Rightarrow> \<exists>n. inodes w d = Some n \<and> map_of (ients n) name = None \<and>
        inodes w' = (inodes w)(d \<mapsto> add_entry name (next_ino w) n,
          next_ino w \<mapsto> new_inode DirectoryFile (masked mode w) n) \<and>
        absolute w' = absolute w \<and> next_ino w' = next_ino w + 1 \<and> open_fds w' = open_fds w \<and>
        services w' = services w \<and> umask w' = umask w"
  using assms unfolding mkdirat_def
proof (cases rule: attempt_cases)
  case (works w1)
  then show ?thesis
    by (cases r; auto split: prod.splits sum.splits dest!: create_in_result
        simp: reads_fields [OF works(1)] masked_def)
qed auto

lemma update_inode_result:
  assumes "update_inode fd f e w = (r, w')"
  shows "case r of Inl _ \<Rightarrow> w' = w
    | Inr _ \<Rightarrow> \<exists>n. inodes w fd = Some n \<and> inodes w' = (inodes w)(fd \<mapsto> f n) \<and>
        absolute w' = absolute w \<and> next_ino w' = next_ino w \<and> open_fds w' = open_fds w \<and>
        services w' = services w \<and> umask w' = umask w"
  using assms by (auto simp: update_inode_def split: option.splits)

lemma fchown_result:
  assumes "fchown fd u g w = (r, w')"
  shows "case r of Inl _ \<Rightarrow> reads 0 w w'
    | Inr _ \<Rightarrow> \<exists>n. inodes w fd = Some n \<and> inodes w' = (inodes w)(fd \<mapsto> n\<lparr>iuid := u, igid := g\<rparr>) \<and>
        absolute w' = absolute w \<and> next_ino w' = next_ino w \<and> open_fds w' = open_fds w \<and>
        services w' = services w \<and> umask w' = umask w"
  using assms unfolding fchown_def
proof (cases rule: attempt_cases)
  case (works w1)
  then show ?thesis
    by (cases r; auto dest!: update_inode_result simp: reads_fields [OF works(1)])
qed auto

lemma fchmod_result:
  assumes "fchmod fd mode w = (r, w')"
  shows "case r of Inl _ \<Rightarrow> reads 0 w w'
    | Inr _ \<Rightarrow> \<exists>n. inodes w fd = Some n \<and> inodes w' = (inodes w)(fd \<mapsto> n\<lparr>imode := mode\<rparr>) \<and>
        absolute w' = absolute w \<and> next_ino w' = next_ino w \<and> open_fds w' = open_fds w \<and>
        services w' = services w \<and> umask w' = umask w"
  using assms unfolding fchmod_def
proof (cases rule: attempt_cases)
  case (works w1)
  then show ?thesis
    by (cases r; auto dest!: update_inode_result simp: reads_fields [OF works(1)])
qed auto

section \<open>Without failures\<close>

lemma next_outcome_works [simp]: "sched w = [] \<Longrightarrow> next_outcome w = (Works, w)"
  by (simp add: next_outcome_def)

lemma attempt_works [simp]: "sched w = [] \<Longrightarrow> attempt w k = k w"
  by (simp add: attempt_def)

lemma sched_opened [simp]: "sched (w\<lparr>open_fds := n\<rparr>) = sched w"
  by simp

lemma close_opened [simp]: "close_fd (w\<lparr>open_fds := open_fds w + 1\<rparr>) = w"
  by (simp add: close_fd_def)

section \<open>Writes, renames and removals\<close>

lemma next_outcome_fields:
  assumes "next_outcome w = (x, w')"
  shows "inodes w' = inodes w" "absolute w' = absolute w" "next_ino w' = next_ino w"
    "open_fds w' = open_fds w" "services w' = services w"
  using next_outcome_reads [OF assms] by (simp_all add: reads_fields)

lemma openat_excl_result:
  assumes "openat_excl d name mode w = (r, w')"
  shows "case r of Inl _ \<Rightarrow> reads 0 w w'
    | Inr i \<Rightarrow> \<exists>n. inodes w d = Some n \<and> map_of (ients n) name = None \<and> i = next_ino w \<and>
        inodes w' = (inodes w)(d \<mapsto> add_entry name i n, i \<mapsto> new_inode RegularFile (masked mode w) n) \<and>
        absolute w' = absolute w \<and> next_ino w' = next_ino w + 1 \<and> open_fds w' = open_fds w + 1 \<and>
        services w' = services w"
  using assms unfolding openat_excl_def
proof (cases rule: attempt_cases)
  case (works w1)
  then show ?thesis
    by (cases r; auto split: prod.splits sum.splits dest!: create_in_result
        simp: reads_fields [OF works(1)] masked_def opened_def)
qed auto

lemma write_chunk_result:
  assumes "write_chunk fd bytes w = (r, w')"
  shows "next_ino w' = next_ino w \<and> absolute w' = absolute w \<and> services w' = services w \<and>
    open_fds w' = open_fds w \<and>
    (case r of Inl _ \<Rightarrow> inodes w' = inodes w
     | Inr k \<Rightarrow> k \<le> length bytes \<and> (\<exists>n. inodes w fd = Some n \<and>
         inodes w' = (inodes w)(fd \<mapsto> n\<lparr>idata := idata n @ take k bytes\<rparr>)))"
proof -
  obtain x w1 where 1: "next_outcome w = (x, w1)" by fastforce
  define k where "k = (case x of Short k \<Rightarrow> min k (length bytes) | _ \<Rightarrow> length bytes)"
  have k: "k \<le> length bytes" by (simp add: k_def split: outcome.splits)
  obtain r2 w2 where 2: "update_inode fd (\<lambda>i. i\<lparr>idata := idata i @ take k bytes\<rparr>) (Ev_Write fd) w1 = (r2, w2)"
    by fastforce
  note u = update_inode_result [OF 2]
  show ?thesis
  proof (cases "\<exists>e. x = Fails e")
    case True
    then show ?thesis using assms next_outcome_fields [OF 1] by (auto simp: write_chunk_def 1)
  next
    case False
    then have "(r, w') = (case r2 of Inl e \<Rightarrow> (Inl e, w2) | Inr _ \<Rightarrow> (Inr k, w2))"
      using assms 2 by (auto simp: write_chunk_def 1 k_def Let_def split: outcome.splits prod.splits sum.splits)
    then show ?thesis using u k
      by (cases r2) (auto simp: next_outcome_fields [OF 1])
  qed
qed

lemma renameat_result:
  assumes "renameat d old new w = (r, w')"
  shows "case r of Inl _ \<Rightarrow> reads 0 w w'
    | Inr _ \<Rightarrow> \<exists>n i. inodes w d = Some n \<and> map_of (ients n) old = Some i \<and>
        inodes w' = (inodes w)(d \<mapsto> add_entry new i (remove_entry old n)) \<and>
        absolute w' = absolute w \<and> next_ino w' = next_ino w \<and> open_fds w' = open_fds w \<and>
        services w' = services w"
  using assms unfolding renameat_def
proof (cases rule: attempt_cases)
  case (works w1)
  then show ?thesis by (cases r; auto split: option.splits simp: reads_fields [OF works(1)])
qed auto

lemma unlinkat_result:
  assumes "unlinkat d name w = (r, w')"
  shows "case r of Inl e \<Rightarrow> reads 0 w w' \<and> (e = ENOENT \<longrightarrow> entry w d name = None)
    | Inr _ \<Rightarrow> \<exists>n. inodes w d = Some n \<and> map_of (ients n) name \<noteq> None \<and>
        inodes w' = (inodes w)(d \<mapsto> remove_entry name n) \<and>
        absolute w' = absolute w \<and> next_ino w' = next_ino w \<and> open_fds w' = open_fds w \<and>
        services w' = services w"
  using assms unfolding unlinkat_def
proof (cases rule: attempt_cases)
  case (works w1)
  then show ?thesis
    by (cases r; auto split: option.splits if_splits
        simp: reads_fields [OF works(1)] entry_def)
qed auto

lemma rmdirat_result:
  assumes "rmdirat d name w = (r, w')"
  shows "case r of Inl e \<Rightarrow> reads 0 w w'
    | Inr _ \<Rightarrow> \<exists>n i c. inodes w d = Some n \<and> map_of (ients n) name = Some i \<and> inodes w i = Some c \<and>
        ikind c = DirectoryFile \<and> ients c = [] \<and>
        inodes w' = (inodes w)(d \<mapsto> remove_entry name n) \<and>
        absolute w' = absolute w \<and> next_ino w' = next_ino w \<and> open_fds w' = open_fds w \<and>
        services w' = services w"
  using assms unfolding rmdirat_def
proof (cases rule: attempt_cases)
  case (works w1)
  then show ?thesis by (cases r; auto split: option.splits if_splits simp: reads_fields [OF works(1)])
qed auto

lemma read_chunk_result:
  assumes "read_chunk fd offset limit w = (r, w')"
  shows "reads 0 w w' \<and> (case r of Inl _ \<Rightarrow> True
    | Inr bytes \<Rightarrow> \<exists>n k. inodes w fd = Some n \<and> k \<le> limit \<and> bytes = take k (drop offset (idata n)))"
proof -
  obtain x w1 where 1: "next_outcome w = (x, w1)" by fastforce
  define k where "k = (case x of Short k \<Rightarrow> min k limit | _ \<Rightarrow> limit)"
  have k: "k \<le> limit" by (simp add: k_def split: outcome.splits)
  have "reads 0 w w1" using next_outcome_reads [OF 1] .
  moreover have "(\<exists>e. r = Inl e) \<and> w' = w1 \<or> (\<exists>n. inodes w1 fd = Some n \<and> r = Inr (take k (drop offset (idata n))) \<and> w' = w1)"
    using assms by (cases x) (auto simp: read_chunk_def 1 k_def split: option.splits)
  ultimately show ?thesis using k by (auto simp: reads_fields)
qed

end
