(* ===== verification/MountWalk.thy ===== *)
theory MountWalk
  imports Posix
begin

text \<open>
  Model of the descriptor walks of \<open>src/core/unitspec.cpp\<close>: \<open>openMountpointNoFollow\<close>, which may
  create the mount point for its owner, \<open>openMountpointNoCreate\<close>, which only verifies it at boot, and
  \<open>previewMountpointProblem\<close>, the side-effect free preview the Add form shows.  Each loop over the
  components of the plan is a recursive function with the open parent descriptor as an argument;
  the lambda \<open>bail\<close> of the source, which closes both descriptors, is \<open>bail\<close> here.
\<close>

section \<open>Helpers of the walks\<close>

definition mountIdOf :: "nat \<Rightarrow> 's world \<Rightarrow> nat \<times> 's world" where
  "mountIdOf fd w =
     (case next_outcome w of
        (Fails e, w') \<Rightarrow> (0, w')
      | (_, w') \<Rightarrow> (case inodes w' fd of None \<Rightarrow> (0, w') | Some n \<Rightarrow> (imount n, w')))"

datatype dir_error = DirCannotDuplicate errno | DirCannotRead errno | DirCannotEnumerate errno

text \<open>The \<open>readdir\<close> loop: it stops at the first entry other than \<open>.\<close> and \<open>..\<close>.\<close>

fun readdir_empty :: "qstring list \<Rightarrow> 's world \<Rightarrow> (errno + bool) \<times> 's world" where
  "readdir_empty [] w = (case next_outcome w of (Fails e, w') \<Rightarrow> (Inl (OtherErrno e), w') | (_, w') \<Rightarrow> (Inr True, w'))"
| "readdir_empty (n # ns) w =
     (case next_outcome w of
        (Fails e, w') \<Rightarrow> (Inl (OtherErrno e), w')
      | (_, w') \<Rightarrow> if n \<noteq> ''.'' \<and> n \<noteq> ''..'' then (Inr False, w') else readdir_empty ns w')"

definition directoryIsEmpty :: "nat \<Rightarrow> 's world \<Rightarrow> (dir_error + bool) \<times> 's world" where
  "directoryIsEmpty fd w =
     (case dup_fd fd w of
        (Inl e, w1) \<Rightarrow> (Inl (DirCannotDuplicate e), w1)
      | (Inr dup, w1) \<Rightarrow>
     (case fdopendir dup w1 of
        (Inl e, w2) \<Rightarrow> (Inl (DirCannotRead e), close_fd w2)
      | (Inr names, w2) \<Rightarrow>
     (case readdir_empty names w2 of
        (Inl e, w3) \<Rightarrow> (Inl (DirCannotEnumerate e), close_fd w3)
      | (Inr b, w3) \<Rightarrow> (Inr b, close_fd w3))))"

text \<open>Mount ids when the kernel reports both, device numbers otherwise.\<close>

definition crosses_mount :: "nat \<Rightarrow> nat \<Rightarrow> inode \<Rightarrow> inode \<Rightarrow> bool" where
  "crosses_mount childMnt parentMnt childStat parentStat =
     (if childMnt \<noteq> 0 \<and> parentMnt \<noteq> 0 then childMnt \<noteq> parentMnt
      else idevice childStat \<noteq> idevice parentStat)"

datatype walk_error =
  WalkNoComponents qstring
| WalkCannotOpen qstring errno
| WalkCannotCreate qstring qstring errno
| WalkRefusing qstring qstring errno
| WalkCannotSetOwner qstring errno
| WalkCannotStat qstring errno
| WalkWrongOwner qstring uid uid
| WalkWrongRecordedOwner qstring uid gid uid gid
| WalkAlreadyMountPoint qstring
| WalkDirectory qstring dir_error
| WalkNotEmpty qstring
| WalkCannotSetMode qstring errno
| WalkCrossesMount qstring qstring
| WalkMissing qstring
| WalkInternal

abbreviation bail :: "walk_error \<Rightarrow> 's world \<Rightarrow> (walk_error + 'a) \<times> 's world" where
  "bail e w \<equiv> (Inl e, close_fd (close_fd w))"

section \<open>Creating walk\<close>

text \<open>
  What happens between opening a component and the split into last and intermediate: the owner of
  a directory this call created, the two \<open>fstat\<close> calls, the mount ids, and the owner check of a
  directory it did not create.  The result says whether the component crosses a mount.
\<close>

definition stat_pair :: "qstring \<Rightarrow> nat \<Rightarrow> nat \<Rightarrow> 's world \<Rightarrow> (walk_error + inode \<times> inode) \<times> 's world" where
  "stat_pair path child parent w =
     (case fstat child w of
        (Inl e, w1) \<Rightarrow> (Inl (WalkCannotStat path e), w1)
      | (Inr cs, w1) \<Rightarrow>
     (case fstat parent w1 of
        (Inl e, w2) \<Rightarrow> (Inl (WalkCannotStat path e), w2)
      | (Inr ps, w2) \<Rightarrow> (Inr (cs, ps), w2)))"

definition mount_check :: "nat \<Rightarrow> nat \<Rightarrow> inode \<times> inode \<Rightarrow> 's world \<Rightarrow> bool \<times> 's world" where
  "mount_check child parent st w =
     (case mountIdOf child w of
        (cm, w1) \<Rightarrow>
     (case mountIdOf parent w1 of
        (pm, w2) \<Rightarrow> (crosses_mount cm pm (fst st) (snd st), w2)))"

definition enter_component ::
    "mountpoint_plan \<Rightarrow> uid \<Rightarrow> gid \<Rightarrow> qstring \<Rightarrow> bool \<Rightarrow> nat \<Rightarrow> nat \<Rightarrow> 's world \<Rightarrow>
     (walk_error + bool) \<times> 's world" where
  "enter_component plan u g name created child parent w =
     (case (if created then fchown child u g w else (Inr (), w)) of
        (Inl e, w1) \<Rightarrow> (Inl (WalkCannotSetOwner name e), w1)
      | (Inr _, w1) \<Rightarrow>
     (case stat_pair (plan_path plan) child parent w1 of
        (Inl err, w2) \<Rightarrow> (Inl err, w2)
      | (Inr st, w2) \<Rightarrow>
     (case mount_check child parent st w2 of
        (crosses, w3) \<Rightarrow>
          if \<not> created \<and> iuid (fst st) \<noteq> u
          then (Inl (WalkWrongOwner (plan_path plan) (iuid (fst st)) u), w3)
          else (Inr crosses, w3))))"

text \<open>The last component: not a mount point, empty, then owner and mode (octal 0700) are set.\<close>

definition claim_last ::
    "mountpoint_plan \<Rightarrow> uid \<Rightarrow> gid \<Rightarrow> bool \<Rightarrow> nat \<Rightarrow> 's world \<Rightarrow> (walk_error + unit) \<times> 's world" where
  "claim_last plan u g crosses child w =
     (if crosses then (Inl (WalkAlreadyMountPoint (plan_path plan)), w)
      else (case directoryIsEmpty child w of
        (Inl e, w1) \<Rightarrow> (Inl (WalkDirectory (plan_path plan) e), w1)
      | (Inr isEmpty, w1) \<Rightarrow>
          if \<not> isEmpty then (Inl (WalkNotEmpty (plan_path plan)), w1)
          else (case fchown child u g w1 of
            (Inl e, w2) \<Rightarrow> (Inl (WalkCannotSetOwner (plan_path plan) e), w2)
          | (Inr _, w2) \<Rightarrow>
          (case fchmod child 448 w2 of
            (Inl e, w3) \<Rightarrow> (Inl (WalkCannotSetMode (plan_path plan) e), w3)
          | (Inr _, w3) \<Rightarrow> (Inr (), w3)))))"

definition made_failed :: "errno + unit \<Rightarrow> bool" where
  "made_failed m = (case m of Inl e \<Rightarrow> e \<noteq> EEXIST | Inr _ \<Rightarrow> False)"

lemma made_failed_iff [simp]: "made_failed m \<longleftrightarrow> (\<exists>e. m = Inl e \<and> e \<noteq> EEXIST)"
  by (simp add: made_failed_def split: sum.splits)

fun walk_create ::
    "mountpoint_plan \<Rightarrow> uid \<Rightarrow> gid \<Rightarrow> qstring list \<Rightarrow> nat \<Rightarrow> 's world \<Rightarrow>
     (walk_error + nat) \<times> 's world" where
  "walk_create plan u g [] parent w = (Inl WalkInternal, close_fd w)"
| "walk_create plan u g (name # rest) parent w =
     (case mkdirat parent name 448 w of
        (made, w1) \<Rightarrow>
      if made_failed made
      then (Inl (WalkCannotCreate name (plan_path plan) (projl made)), close_fd w1)
      else
     (case openat_dir parent name w1 of
        (Inl e, w2) \<Rightarrow> (Inl (WalkRefusing name (plan_path plan) e), close_fd w2)
      | (Inr child, w2) \<Rightarrow>
     (case enter_component plan u g name (made = Inr ()) child parent w2 of
        (Inl err, w3) \<Rightarrow> bail err w3
      | (Inr crosses, w3) \<Rightarrow>
          if rest = [] then
            (case claim_last plan u g crosses child w3 of
               (Inl err, w4) \<Rightarrow> bail err w4
             | (Inr _, w4) \<Rightarrow> (Inr child, close_fd w4))
          else if crosses then bail (WalkCrossesMount (plan_path plan) name) w3
          else walk_create plan u g rest child (close_fd w3))))"

definition openMountpointNoFollow ::
    "mountpoint_plan \<Rightarrow> uid \<Rightarrow> gid \<Rightarrow> 's world \<Rightarrow> (walk_error + nat) \<times> 's world" where
  "openMountpointNoFollow plan u g w =
     (if plan_suffix plan = [] then (Inl (WalkNoComponents (plan_root plan)), w)
      else (case open_abs_dir True (plan_root plan) w of
              (Inl e, w1) \<Rightarrow> (Inl (WalkCannotOpen (plan_root plan) e), w1)
            | (Inr parent, w1) \<Rightarrow> walk_create plan u g (plan_suffix plan) parent w1))"

section \<open>Verifying walk\<close>

definition verify_component ::
    "mountpoint_plan \<Rightarrow> uid \<Rightarrow> gid \<Rightarrow> nat \<Rightarrow> nat \<Rightarrow> 's world \<Rightarrow> (walk_error + bool) \<times> 's world" where
  "verify_component plan u g child parent w =
     (case stat_pair (plan_path plan) child parent w of
        (Inl err, w1) \<Rightarrow> (Inl err, w1)
      | (Inr st, w1) \<Rightarrow>
          if iuid (fst st) \<noteq> u \<or> igid (fst st) \<noteq> g
          then (Inl (WalkWrongRecordedOwner (plan_path plan) (iuid (fst st)) (igid (fst st)) u g), w1)
          else (case mount_check child parent st w1 of (crosses, w2) \<Rightarrow> (Inr crosses, w2)))"

definition check_last ::
    "mountpoint_plan \<Rightarrow> bool \<Rightarrow> nat \<Rightarrow> 's world \<Rightarrow> (walk_error + unit) \<times> 's world" where
  "check_last plan crosses child w =
     (if crosses then (Inl (WalkAlreadyMountPoint (plan_path plan)), w)
      else (case directoryIsEmpty child w of
        (Inl e, w1) \<Rightarrow> (Inl (WalkDirectory (plan_path plan) e), w1)
      | (Inr isEmpty, w1) \<Rightarrow>
          if \<not> isEmpty then (Inl (WalkNotEmpty (plan_path plan)), w1) else (Inr (), w1)))"

fun walk_verify ::
    "mountpoint_plan \<Rightarrow> uid \<Rightarrow> gid \<Rightarrow> qstring list \<Rightarrow> nat \<Rightarrow> 's world \<Rightarrow>
     (walk_error + nat) \<times> 's world" where
  "walk_verify plan u g [] parent w = (Inl WalkInternal, close_fd w)"
| "walk_verify plan u g (name # rest) parent w =
     (case openat_dir parent name w of
        (Inl e, w1) \<Rightarrow>
          (Inl (if e = ENOENT then WalkMissing (plan_path plan)
                else WalkRefusing name (plan_path plan) e), close_fd w1)
      | (Inr child, w1) \<Rightarrow>
     (case verify_component plan u g child parent w1 of
        (Inl err, w2) \<Rightarrow> bail err w2
      | (Inr crosses, w2) \<Rightarrow>
          if rest = [] then
            (case check_last plan crosses child w2 of
               (Inl err, w3) \<Rightarrow> bail err w3
             | (Inr _, w3) \<Rightarrow> (Inr child, close_fd w3))
          else if crosses then bail (WalkCrossesMount (plan_path plan) name) w2
          else walk_verify plan u g rest child (close_fd w2)))"

definition openMountpointNoCreate ::
    "mountpoint_plan \<Rightarrow> uid \<Rightarrow> gid \<Rightarrow> 's world \<Rightarrow> (walk_error + nat) \<times> 's world" where
  "openMountpointNoCreate plan u g w =
     (if plan_suffix plan = [] then (Inl (WalkNoComponents (plan_root plan)), w)
      else (case open_abs_dir True (plan_root plan) w of
              (Inl e, w1) \<Rightarrow> (Inl (WalkCannotOpen (plan_root plan) e), w1)
            | (Inr parent, w1) \<Rightarrow> walk_verify plan u g (plan_suffix plan) parent w1))"

section \<open>Preview\<close>

text \<open>
  \<open>examine\<close> is a \<open>statx\<close> with \<open>AT_NO_AUTOMOUNT\<close>.  A descriptor opened with \<open>O_PATH\<close> opens the component
  whatever it is.
\<close>

definition examine_abs :: "qstring \<Rightarrow> 's world \<Rightarrow> (errno + nat \<times> inode) \<times> 's world" where
  "examine_abs path w =
     attempt w (\<lambda>w. case absolute w path of
        None \<Rightarrow> (Inl ENOENT, w)
      | Some i \<Rightarrow>
          (case inodes w i of
             None \<Rightarrow> (Inl ENOENT, w)
           | Some n \<Rightarrow>
               (case ikind n of
                  SymbolicLink None \<Rightarrow> (Inl ENOENT, w)
                | SymbolicLink (Some j) \<Rightarrow>
                    (case inodes w j of None \<Rightarrow> (Inl ENOENT, w) | Some m \<Rightarrow> (Inr (j, m), w))
                | _ \<Rightarrow> (Inr (i, n), w))))"

definition openat_path :: "nat \<Rightarrow> qstring \<Rightarrow> 's world \<Rightarrow> (errno + nat) \<times> 's world" where
  "openat_path d name w =
     attempt w (\<lambda>w. case entry w d name of None \<Rightarrow> (Inl ENOENT, w) | Some i \<Rightarrow> opened i w)"

text \<open>The message the preview shows; the empty string of the source is \<open>NoProblem\<close>.\<close>

datatype preview =
  NoProblem
| PreviewSymlink qstring | PreviewFile qstring | PreviewMounted qstring | PreviewOtherMount qstring
| PreviewOtherUser qstring | PreviewNotEmpty qstring

definition preview_crosses :: "inode \<Rightarrow> inode \<Rightarrow> bool" where
  "preview_crosses info root \<longleftrightarrow>
     itrigger info \<or>
     (if imount info \<noteq> 0 \<and> imount root \<noteq> 0 then imount info \<noteq> imount root
      else idevice info \<noteq> idevice root)"

definition is_symlink :: "inode \<Rightarrow> bool" where
  "is_symlink n \<longleftrightarrow> (case ikind n of SymbolicLink _ \<Rightarrow> True | _ \<Rightarrow> False)"

text \<open>
  The loop.  \<open>walked\<close> is the path so far, for the messages; \<open>dir\<close> is the descriptor \<open>FdGuard\<close>
  owns, closed on every way out.
\<close>

fun preview_walk ::
    "inode \<Rightarrow> uid \<Rightarrow> qstring list \<Rightarrow> qstring \<Rightarrow> nat \<Rightarrow> 's world \<Rightarrow> preview \<times> 's world" where
  "preview_walk root u [] walked dir w = (NoProblem, close_fd w)"
| "preview_walk root u (name # rest) walked0 dir w =
     (let walked = cleanPath (walked0 @ ''/'' @ name) in
      case fstatat dir name w of
        (Inl e, w1) \<Rightarrow> (NoProblem, close_fd w1)
      | (Inr info, w1) \<Rightarrow>
          if is_symlink info then (PreviewSymlink walked, close_fd w1)
          else if ikind info \<noteq> DirectoryFile then (PreviewFile walked, close_fd w1)
          else if preview_crosses info root then
            (if rest = [] then PreviewMounted walked else PreviewOtherMount walked, close_fd w1)
          else if iuid info \<noteq> u then (PreviewOtherUser walked, close_fd w1)
          else if rest = [] then
            (case openat_dir dir name w1 of
               (Inl e, w2) \<Rightarrow> (NoProblem, close_fd w2)
             | (Inr final, w2) \<Rightarrow>
                 (case directoryIsEmpty final w2 of
                    (r, w3) \<Rightarrow> (if r = Inr False then PreviewNotEmpty walked else NoProblem,
                                 close_fd (close_fd w3))))
          else
            (case openat_path dir name w1 of
               (Inl e, w2) \<Rightarrow> (NoProblem, close_fd w2)
             | (Inr below, w2) \<Rightarrow> preview_walk root u rest walked below (close_fd w2)))"

definition previewMountpointProblem :: "mountpoint_plan \<Rightarrow> uid \<Rightarrow> 's world \<Rightarrow> preview \<times> 's world" where
  "previewMountpointProblem plan u w =
     (if plan_suffix plan = [] then (NoProblem, w)
      else (case examine_abs (plan_root plan) w of
        (Inl e, w1) \<Rightarrow> (NoProblem, w1)
      | (Inr (i, root), w1) \<Rightarrow>
          if ikind root \<noteq> DirectoryFile \<or> itrigger root then (NoProblem, w1)
          else (case attempt w1 (opened i) of
            (Inl e, w2) \<Rightarrow> (NoProblem, w2)
          | (Inr dir, w2) \<Rightarrow> preview_walk root u (plan_suffix plan) (plan_root plan) dir w2)))"

section \<open>What a walk may change\<close>

text \<open>
  \<open>walked b root u w w'\<close>: from \<open>w\<close> to \<open>w'\<close> every file is still there with its kind, contents and
  mount.  Below inode number \<open>b\<close> (the files that were there before the walk) no owner changed, and a
  file of another owner than \<open>u\<close> is the same, except that directory \<open>root\<close> may have new entries; an
  entry that was there still leads to the same file.  From \<open>b\<close> on an owner changed to \<open>u\<close> at most.
\<close>

definition ents_grow :: "inode \<Rightarrow> inode \<Rightarrow> bool" where
  "ents_grow n n' \<longleftrightarrow> (\<forall>x j. map_of (ients n) x = Some j \<longrightarrow> map_of (ients n') x = Some j)"

definition kept_inode :: "nat \<Rightarrow> nat \<Rightarrow> uid \<Rightarrow> nat \<Rightarrow> inode \<Rightarrow> inode \<Rightarrow> bool" where
  "kept_inode b root u i n n' \<longleftrightarrow>
     ikind n' = ikind n \<and> idata n' = idata n \<and> imount n' = imount n \<and> idevice n' = idevice n \<and>
     itrigger n' = itrigger n \<and> ents_grow n n' \<and>
     (iuid n' = iuid n \<or> b \<le> i \<and> iuid n' = u) \<and>
     (i < b \<and> iuid n \<noteq> u \<longrightarrow>
        igid n' = igid n \<and> imode n' = imode n \<and> (i \<noteq> root \<longrightarrow> ients n' = ients n))"

definition walked :: "nat \<Rightarrow> nat \<Rightarrow> uid \<Rightarrow> 's world \<Rightarrow> 's world \<Rightarrow> bool" where
  "walked b root u w w' \<longleftrightarrow>
     absolute w' = absolute w \<and> services w' = services w \<and> next_ino w \<le> next_ino w' \<and>
     (\<forall>i. inodes w i = None \<longrightarrow> i < next_ino w \<longrightarrow> inodes w' i = None) \<and>
     (\<forall>i n. inodes w i = Some n \<longrightarrow> (\<exists>n'. inodes w' i = Some n' \<and> kept_inode b root u i n n'))"

lemma ents_grow_refl [simp]: "ents_grow n n"
  by (simp add: ents_grow_def)

lemma kept_inode_refl [simp]: "kept_inode b root u i n n"
  by (simp add: kept_inode_def)

lemma kept_inode_trans:
  "kept_inode b root u i n n' \<Longrightarrow> kept_inode b root u i n' n'' \<Longrightarrow> kept_inode b root u i n n''"
  unfolding kept_inode_def ents_grow_def by (elim conjE) (intro conjI; auto)

lemma walked_refl [simp]: "walked b root u w w"
  by (simp add: walked_def)

lemma walked_trans [trans]:
  assumes "walked b root u w w'" "walked b root u w' w''"
  shows "walked b root u w w''"
  unfolding walked_def
proof (intro conjI allI impI)
  fix i n assume "inodes w i = Some n"
  then show "\<exists>n'. inodes w'' i = Some n' \<and> kept_inode b root u i n n'"
    using assms unfolding walked_def by (meson kept_inode_trans)
next
  fix i assume "inodes w i = None" "i < next_ino w"
  then show "inodes w'' i = None" using assms unfolding walked_def by (meson less_le_trans)
qed (use assms in \<open>auto simp: walked_def\<close>)

lemma walked_step:
  "walked b root u w w1 \<Longrightarrow> walked b root u w1 w' \<Longrightarrow> walked b root u w w'"
  by (rule walked_trans)

lemma walked_inode:
  "walked b root u w w' \<Longrightarrow> inodes w i = Some n \<Longrightarrow> inodes w' i = Some n' \<Longrightarrow>
   kept_inode b root u i n n'"
  unfolding walked_def by fastforce

lemma reads_walked: "reads k w w' \<Longrightarrow> walked b root u w w'"
  by (simp add: walked_def reads_fields)

lemma walked_close [simp]: "walked b root u w (close_fd w') = walked b root u w w'"
  by (simp add: walked_def)

text \<open>Where the walk may write: the root, what it made itself, and what the user owns.\<close>

definition writable :: "nat \<Rightarrow> nat \<Rightarrow> uid \<Rightarrow> 's world \<Rightarrow> nat \<Rightarrow> bool" where
  "writable b root u w i \<longleftrightarrow>
     i = root \<or> b \<le> i \<or> (\<exists>n. inodes w i = Some n \<and> iuid n = u)"

lemma reads_writable: "reads k w w' \<Longrightarrow> writable b root u w' i = writable b root u w i"
  by (simp add: writable_def reads_fields)

lemma mkdirat_walked:
  assumes "mkdirat d name mode w = (r, w')" "fresh_inodes w" "writable b root u w d"
  shows "walked b root u w w' \<and> fresh_inodes w' \<and> open_fds w' = open_fds w"
proof (cases r)
  case (Inl e)
  then show ?thesis using mkdirat_result [OF assms(1)] assms(2)
    by (simp add: reads_walked reads_fresh reads_fields)
next
  case (Inr x)
  then obtain n where n: "inodes w d = Some n" "map_of (ients n) name = None"
      "inodes w' = (inodes w)(d \<mapsto> add_entry name (next_ino w) n,
          next_ino w \<mapsto> new_inode DirectoryFile (masked mode w) n)"
      "absolute w' = absolute w" "next_ino w' = next_ino w + 1" "open_fds w' = open_fds w"
      "services w' = services w"
    using mkdirat_result [OF assms(1)] by auto
  have free: "inodes w i = Some m \<Longrightarrow> i < next_ino w" for i m
    using assms(2) by (metis fresh_inodes_def linorder_not_le option.distinct(1))
  have "kept_inode b root u d n (add_entry name (next_ino w) n)"
    using n(1,2) assms(3) by (auto simp: kept_inode_def ents_grow_def writable_def)
  then have "walked b root u w w'"
    using n free by (auto simp: walked_def)
  moreover have "fresh_inodes w'"
    using n free assms(2) by (auto simp: fresh_inodes_def)
  ultimately show ?thesis using n(6) by simp
qed

lemma fchown_walked:
  assumes "fchown fd u g w = (r, w')" "fresh_inodes w"
    "b \<le> fd \<or> (\<exists>n. inodes w fd = Some n \<and> iuid n = u)"
  shows "walked b root u w w' \<and> fresh_inodes w' \<and> open_fds w' = open_fds w \<and>
    (r = Inr () \<longrightarrow> (\<exists>n. inodes w fd = Some n \<and> inodes w' fd = Some (n\<lparr>iuid := u, igid := g\<rparr>)))"
proof (cases r)
  case (Inl e)
  then show ?thesis using fchown_result [OF assms(1)] assms(2)
    by (simp add: reads_walked reads_fresh reads_fields)
next
  case (Inr x)
  then obtain n where n: "inodes w fd = Some n"
      "inodes w' = (inodes w)(fd \<mapsto> n\<lparr>iuid := u, igid := g\<rparr>)"
      "absolute w' = absolute w" "next_ino w' = next_ino w" "open_fds w' = open_fds w"
      "services w' = services w"
    using fchown_result [OF assms(1)] by auto
  have "kept_inode b root u fd n (n\<lparr>iuid := u, igid := g\<rparr>)"
    using n(1) assms(3) by (auto simp: kept_inode_def ents_grow_def)
  then have "walked b root u w w'"
    using n by (auto simp: walked_def)
  moreover have "fresh_inodes w'"
    using n assms(2) by (auto simp: fresh_inodes_def)
  ultimately show ?thesis using n by auto
qed

lemma fchmod_walked:
  assumes "fchmod fd mode w = (r, w')" "fresh_inodes w"
    "b \<le> fd \<or> (\<exists>n. inodes w fd = Some n \<and> iuid n = u)"
  shows "walked b root u w w' \<and> fresh_inodes w' \<and> open_fds w' = open_fds w \<and>
    (r = Inr () \<longrightarrow> (\<exists>n. inodes w fd = Some n \<and> inodes w' fd = Some (n\<lparr>imode := mode\<rparr>)))"
proof (cases r)
  case (Inl e)
  then show ?thesis using fchmod_result [OF assms(1)] assms(2)
    by (simp add: reads_walked reads_fresh reads_fields)
next
  case (Inr x)
  then obtain n where n: "inodes w fd = Some n"
      "inodes w' = (inodes w)(fd \<mapsto> n\<lparr>imode := mode\<rparr>)"
      "absolute w' = absolute w" "next_ino w' = next_ino w" "open_fds w' = open_fds w"
      "services w' = services w"
    using fchmod_result [OF assms(1)] by auto
  have "kept_inode b root u fd n (n\<lparr>imode := mode\<rparr>)"
    using n(1) assms(3) by (auto simp: kept_inode_def ents_grow_def)
  then have "walked b root u w w'"
    using n by (auto simp: walked_def)
  moreover have "fresh_inodes w'"
    using n assms(2) by (auto simp: fresh_inodes_def)
  ultimately show ?thesis using n by auto
qed

section \<open>The steps of the walks\<close>

text \<open>\<open>stays_on s p\<close>: a directory counts as being on its parent's mount.\<close>

definition stays_on :: "inode \<Rightarrow> inode \<Rightarrow> bool" where
  "stays_on s p \<longleftrightarrow> imount s = imount p \<or> idevice s = idevice p"

definition no_entries :: "inode \<Rightarrow> bool" where
  "no_entries n \<longleftrightarrow> set (map fst (ients n)) \<subseteq> {''.'', ''..''}"

lemma no_entries_update [simp]:
  "no_entries (n\<lparr>iuid := u, igid := g\<rparr>) = no_entries n" "no_entries (n\<lparr>imode := m\<rparr>) = no_entries n"
  "no_entries (n\<lparr>iuid := u, igid := g, imode := m\<rparr>) = no_entries n"
  by (simp_all add: no_entries_def)

lemma mountIdOf_result:
  "mountIdOf fd w = (m, w') \<Longrightarrow>
   reads 0 w w' \<and> (m \<noteq> 0 \<longrightarrow> (\<exists>n. inodes w fd = Some n \<and> m = imount n))"
  by (auto simp: mountIdOf_def split: prod.splits outcome.splits option.splits
      dest!: next_outcome_reads simp: reads_fields)

lemma mount_check_result:
  assumes "mount_check child parent st w = (b, w')"
    "inodes w child = Some (fst st)" "inodes w parent = Some (snd st)"
  shows "reads 0 w w' \<and> (\<not> b \<longrightarrow> stays_on (fst st) (snd st))"
proof -
  obtain cm w1 where 1: "mountIdOf child w = (cm, w1)" by fastforce
  obtain pm w2 where 2: "mountIdOf parent w1 = (pm, w2)" by fastforce
  have r1: "reads 0 w w1" using mountIdOf_result [OF 1] by simp
  have r2: "reads 0 w1 w2" using mountIdOf_result [OF 2] by simp
  show ?thesis
    using assms mountIdOf_result [OF 1] mountIdOf_result [OF 2] reads_0_trans [OF r1 r2]
    by (auto simp: mount_check_def 1 2 crosses_mount_def stays_on_def reads_fields [OF r1] split: if_splits)
qed

lemma readdir_empty_result:
  "readdir_empty names w = (r, w') \<Longrightarrow>
   reads 0 w w' \<and> (r = Inr True \<longrightarrow> set names \<subseteq> {''.'', ''..''})"
proof (induction names arbitrary: w)
  case Nil
  then show ?case by (auto split: prod.splits outcome.splits dest!: next_outcome_reads)
next
  case (Cons n ns)
  obtain x w1 where 1: "next_outcome w = (x, w1)" by fastforce
  have r1: "reads 0 w w1" using next_outcome_reads [OF 1] .
  consider "\<exists>e. x = Fails e" | "\<forall>e. x \<noteq> Fails e" "n \<noteq> ''.'' \<and> n \<noteq> ''..''"
    | "\<forall>e. x \<noteq> Fails e" "n = ''.'' \<or> n = ''..''" by blast
  then show ?case
  proof cases
    case 3
    then have "readdir_empty ns w1 = (r, w')"
      using Cons.prems 1 by (cases x) auto
    then show ?thesis using Cons.IH 3(2) reads_0_trans [OF r1] by auto
  qed (use Cons.prems 1 r1 in \<open>auto split: outcome.splits\<close>)
qed

lemma directoryIsEmpty_result:
  assumes "directoryIsEmpty fd w = (r, w')"
  shows "reads 0 w w' \<and> (r = Inr True \<longrightarrow> (\<exists>n. inodes w fd = Some n \<and> no_entries n))"
proof -
  obtain r1 w1 where 1: "dup_fd fd w = (r1, w1)" by fastforce
  show ?thesis
  proof (cases r1)
    case (Inl e)
    then show ?thesis using assms dup_fd_result [OF 1] by (auto simp: directoryIsEmpty_def 1)
  next
    case (Inr d)
    then have d: "d = fd" "reads 1 w w1" using dup_fd_result [OF 1] by auto
    obtain r2 w2 where 2: "fdopendir fd w1 = (r2, w2)" by fastforce
    have rd: "reads 0 w1 w2" using fdopendir_result [OF 2] by simp
    have closing: "reads 0 w (close_fd w'')" if "reads 0 w2 w''" for w''
    proof -
      have "reads 1 w w''" using reads_trans [OF d(2) reads_0_trans [OF rd that]] by simp
      then show ?thesis using reads_trans [OF _ reads_close] by fastforce
    qed
    show ?thesis
    proof (cases r2)
      case Inl
      then show ?thesis using assms closing [OF reads_refl] Inr d by (auto simp: directoryIsEmpty_def 1 2)
    next
      case (Inr names)
      obtain r3 w3 where 3: "readdir_empty names w2 = (r3, w3)" by fastforce
      have "r = Inr True \<longrightarrow> r3 = Inr True" "reads 0 w w'"
        using assms \<open>r1 = Inr d\<close> Inr d closing [of w3] readdir_empty_result [OF 3]
        by (auto simp: directoryIsEmpty_def 1 2 3 split: sum.splits)
      then show ?thesis
        using fdopendir_result [OF 2] readdir_empty_result [OF 3] Inr
        by (auto simp: no_entries_def reads_fields [OF d(2)])
    qed
  qed
qed

lemma stat_pair_result:
  assumes "stat_pair path child parent w = (r, w')"
  shows "reads 0 w w' \<and> (\<forall>st. r = Inr st \<longrightarrow>
    inodes w child = Some (fst st) \<and> inodes w parent = Some (snd st))"
proof -
  obtain r1 w1 where 1: "fstat child w = (r1, w1)" by fastforce
  obtain r2 w2 where 2: "fstat parent w1 = (r2, w2)" by fastforce
  have r1: "reads 0 w w1" using fstat_result [OF 1] by simp
  show ?thesis
    using assms fstat_result [OF 1] fstat_result [OF 2] reads_0_trans [OF r1]
    by (auto simp: stat_pair_def 1 2 reads_fields [OF r1] split: sum.splits)
qed

text \<open>The directories of the walk in order, the last one first named.\<close>

fun owned_path :: "'s world \<Rightarrow> uid \<Rightarrow> nat \<Rightarrow> qstring list \<Rightarrow> nat \<Rightarrow> bool" where
  "owned_path w u d [] i = (i = d)"
| "owned_path w u d (n # ns) i =
     (case entry w d n of
        None \<Rightarrow> False
      | Some c \<Rightarrow>
          (case (inodes w d, inodes w c) of
             (Some p, Some s) \<Rightarrow>
               ikind s = DirectoryFile \<and> iuid s = u \<and> stays_on s p \<and> owned_path w u c ns i
           | _ \<Rightarrow> False))"

lemma owned_path_walked:
  "walked b root u w w' \<Longrightarrow> owned_path w u d names i \<Longrightarrow> owned_path w' u d names i"
proof (induction names arbitrary: d)
  case (Cons n ns)
  then obtain p s c where 1: "inodes w d = Some p" "map_of (ients p) n = Some c" "inodes w c = Some s"
      "ikind s = DirectoryFile" "iuid s = u" "stays_on s p" "owned_path w u c ns i"
    by (auto simp: entry_def split: option.splits)
  obtain p' s' where 2: "inodes w' d = Some p'" "inodes w' c = Some s'"
      "kept_inode b root u d p p'" "kept_inode b root u c s s'"
    using Cons.prems(1) 1(1,3) unfolding walked_def by metis
  have "map_of (ients p') n = Some c" using 2(3) 1(2) by (auto simp: kept_inode_def ents_grow_def)
  moreover have "ikind s' = DirectoryFile" "iuid s' = u" "stays_on s' p'"
    using 2(3,4) 1 by (auto simp: kept_inode_def stays_on_def)
  ultimately show ?case using Cons.IH [OF Cons.prems(1) 1(7)] 2 by (simp add: entry_def)
qed simp

lemma owned_path_same:
  "inodes w' = inodes w \<Longrightarrow> owned_path w' u d names i = owned_path w u d names i"
  by (induction names arbitrary: d) (simp_all add: entry_def cong: option.case_cong)

lemma owned_path_close [simp]: "owned_path (close_fd w) u d names i = owned_path w u d names i"
  by (rule owned_path_same) simp

lemma owned_path_append:
  "owned_path w u d ns c \<Longrightarrow> owned_path w u c ms i \<Longrightarrow> owned_path w u d (ns @ ms) i"
  by (induction ns arbitrary: d) (auto split: option.splits)

lemma enter_component_result:
  assumes e: "enter_component plan u g name created child parent w = (r, w')"
    and fr: "fresh_inodes w" and own: "created \<longrightarrow> b \<le> child"
  shows "walked b root u w w' \<and> fresh_inodes w' \<and> open_fds w' = open_fds w \<and>
    (\<forall>crosses. r = Inr crosses \<longrightarrow>
       (\<exists>s p. inodes w' child = Some s \<and> inodes w' parent = Some p \<and> iuid s = u \<and>
          (\<not> crosses \<longrightarrow> stays_on s p)))"
proof -
  obtain r1 w1 where 1: "(if created then fchown child u g w else (Inr (), w)) = (r1, w1)" by fastforce
  have s1: "walked b root u w w1 \<and> fresh_inodes w1 \<and> open_fds w1 = open_fds w \<and>
      (r1 = Inr () \<and> created \<longrightarrow> (\<exists>n. inodes w1 child = Some n \<and> iuid n = u))"
  proof (cases created)
    case True
    then show ?thesis using fchown_walked [of child u g w r1 w1 b root] 1 fr own by auto
  qed (use 1 fr in auto)
  show ?thesis
  proof (cases r1)
    case Inl
    then show ?thesis using e s1 by (auto simp: enter_component_def 1)
  next
    case (Inr x)
    obtain r2 w2 where 2: "stat_pair (plan_path plan) child parent w1 = (r2, w2)" by fastforce
    note s2 = stat_pair_result [OF 2]
    show ?thesis
    proof (cases r2)
      case Inl
      then show ?thesis using e s1 s2 Inr \<open>r1 = Inr x\<close>
        by (auto simp: enter_component_def 1 2 reads_fields(9) reads_fresh
            intro: walked_step [OF _ reads_walked])
    next
      case (Inr st)
      obtain crosses w3 where 3: "mount_check child parent st w2 = (crosses, w3)" by fastforce
      have "reads 0 w2 w3 \<and> (\<not> crosses \<longrightarrow> stays_on (fst st) (snd st))"
        using mount_check_result [OF 3] s2 Inr by (auto simp: reads_fields)
      then have "reads 0 w1 w3 \<and> (\<not> crosses \<longrightarrow> stays_on (fst st) (snd st))"
        using s2 reads_0_trans by blast
      then show ?thesis
        using e s1 s2 Inr \<open>r1 = Inr x\<close>
        by (auto simp: enter_component_def 1 2 3 reads_fields reads_fresh split: if_splits
            intro: walked_step [OF _ reads_walked])
    qed
  qed
qed

text \<open>What a claimed mount point is: an empty directory of the owner with mode 0700.\<close>

definition claimed :: "'s world \<Rightarrow> uid \<Rightarrow> gid \<Rightarrow> nat \<Rightarrow> bool" where
  "claimed w u g fd \<longleftrightarrow>
     (\<exists>n. inodes w fd = Some n \<and> iuid n = u \<and> igid n = g \<and> imode n = 448 \<and> no_entries n)"

lemma claimed_close [simp]: "claimed (close_fd w) u g fd = claimed w u g fd"
  by (simp add: claimed_def)

lemma claim_last_result:
  assumes e: "claim_last plan u g crosses child w = (r, w')"
    and fr: "fresh_inodes w" and own: "\<exists>n. inodes w child = Some n \<and> iuid n = u"
  shows "walked b root u w w' \<and> fresh_inodes w' \<and> open_fds w' = open_fds w \<and>
    (r = Inr () \<longrightarrow> claimed w' u g child \<and> \<not> crosses)"
proof (cases crosses)
  case True
  then show ?thesis using e fr by (auto simp: claim_last_def)
next
  case False
  obtain r1 w1 where 1: "directoryIsEmpty child w = (r1, w1)" by fastforce
  note d = directoryIsEmpty_result [OF 1]
  have f1: "fresh_inodes w1" using d fr by (auto simp: reads_fresh)
  show ?thesis
  proof (cases "r1 = Inr True")
    case False
    then show ?thesis using e \<open>\<not> crosses\<close> d f1
      by (cases r1) (auto simp: claim_last_def 1 reads_walked reads_fields(9) split: if_splits)
  next
    case True
    obtain r2 w2 where 2: "fchown child u g w1 = (r2, w2)" by fastforce
    obtain r3 w3 where 3: "fchmod child 448 w2 = (r3, w3)" by fastforce
    have o1: "b \<le> child \<or> (\<exists>n. inodes w1 child = Some n \<and> iuid n = u)"
      using own d by (auto simp: reads_fields)
    note s2 = fchown_walked [OF 2 f1 o1, of root]
    have w2: "walked b root u w w2" using s2 d reads_walked walked_step by blast
    show ?thesis
    proof (cases r2)
      case Inl
      then show ?thesis using e \<open>\<not> crosses\<close> True d s2 w2
        by (auto simp: claim_last_def 1 2 reads_fields(9))
    next
      case (Inr x)
      then have o2: "b \<le> child \<or> (\<exists>n. inodes w2 child = Some n \<and> iuid n = u)" using s2 by auto
      have f2: "fresh_inodes w2" using s2 by simp
      note s3 = fchmod_walked [OF 3 f2 o2, of root]
      have "claimed w3 u g child" if "r3 = Inr ()"
        using that s3 s2 d True Inr
        by (auto simp: claimed_def reads_fields)
      then show ?thesis
        using e \<open>\<not> crosses\<close> True d s2 s3 w2 Inr walked_step [OF w2]
        by (auto simp: claim_last_def 1 2 3 reads_fields(9) split: sum.splits)
    qed
  qed
qed

lemma walk_create_result:
  assumes "walk_create plan u g names parent w = (r, w')" "fresh_inodes w" "b \<le> next_ino w"
    "writable b root u w parent"
  shows "walked b root u w w' \<and> fresh_inodes w' \<and>
    open_fds w' = open_fds w + (case r of Inl _ \<Rightarrow> - 1 | Inr _ \<Rightarrow> 0) \<and>
    (\<forall>fd. r = Inr fd \<longrightarrow> owned_path w' u parent names fd \<and> claimed w' u g fd)"
  using assms
proof (induction names arbitrary: parent w)
  case (Cons name rest)
  obtain made w1 where 1: "mkdirat parent name 448 w = (made, w1)" by fastforce
  note s1 = mkdirat_walked [OF 1 Cons.prems(2,4)]
  show ?case
  proof (cases "\<exists>e. made = Inl e \<and> e \<noteq> EEXIST")
    case True
    then show ?thesis using Cons.prems(1) s1 by (auto simp: 1 fresh_inodes_def)
  next
    case go: False
    obtain r2 w2 where 2: "openat_dir parent name w1 = (r2, w2)" by fastforce
    show ?thesis
    proof (cases r2)
      case (Inl e)
      then have "reads 0 w1 w2" using openat_dir_result [OF 2] by simp
      then show ?thesis using Cons.prems(1) s1 go Inl
        by (auto simp: 1 2 reads_fields(9) reads_fresh fresh_inodes_def reads_fields(1,3)
            intro: walked_step [OF _ reads_walked])
    next
      case (Inr child)
      then have o: "reads 1 w1 w2" "entry w1 parent name = Some child"
          "\<exists>n. inodes w1 child = Some n \<and> ikind n = DirectoryFile"
        using openat_dir_result [OF 2] by auto
      have w2: "walked b root u w w2" by (rule walked_step [OF conjunct1 [OF s1] reads_walked [OF o(1)]])
      have f2: "fresh_inodes w2" using s1 o(1) by (simp add: reads_fresh)
      have new: "made = Inr () \<longrightarrow> b \<le> child"
        using mkdirat_result [OF 1] o(2) Cons.prems(3)
        by (auto simp: entry_def new_inode_def split: if_splits)
      obtain r3 w3 where 3: "enter_component plan u g name (made = Inr ()) child parent w2 = (r3, w3)"
        by fastforce
      note s3 = enter_component_result [OF 3 f2 new, of root]
      have w3: "walked b root u w w3" by (rule walked_step [OF w2 conjunct1 [OF s3]])
      have fds: "open_fds w3 = open_fds w + 1" using s1 s3 o(1) by (simp add: reads_fields(9))
      show ?thesis
      proof (cases r3)
        case (Inl err)
        then show ?thesis using Cons.prems(1) go \<open>r2 = Inr child\<close> w3 s3 fds
          by (auto simp: 1 2 3 fresh_inodes_def)
      next
        case (Inr crosses)
        then obtain s p where sp: "inodes w3 child = Some s" "inodes w3 parent = Some p" "iuid s = u"
            "\<not> crosses \<longrightarrow> stays_on s p" using s3 by auto
        obtain n1 where n1: "inodes w2 parent = Some n1" "map_of (ients n1) name = Some child"
          using o(1,2) by (auto simp: entry_def reads_fields split: option.splits)
        obtain n2 where n2: "inodes w2 child = Some n2" "ikind n2 = DirectoryFile"
          using o(1,3) by (auto simp: reads_fields)
        have "walked b root u w2 w3" using s3 by simp
        then have "map_of (ients p) name = Some child" "ikind s = DirectoryFile"
          using walked_inode [of b root u w2 w3 parent n1 p] walked_inode [of b root u w2 w3 child n2 s]
            n1 n2 sp(1,2) by (auto simp: kept_inode_def ents_grow_def)
        then have hop: "\<not> crosses \<Longrightarrow> owned_path w3 u parent [name] child"
          using sp by (simp add: entry_def)
        show ?thesis
        proof (cases "rest = []")
          case True
          obtain r4 w4 where 4: "claim_last plan u g crosses child w3 = (r4, w4)" by fastforce
          have f3: "fresh_inodes w3" and c3: "\<exists>n. inodes w3 child = Some n \<and> iuid n = u"
            using s3 sp by auto
          note s4 = claim_last_result [OF 4 f3 c3, of b root]
          have "walked b root u w w4" using w3 s4 walked_step by blast
          moreover have "r4 = Inr () \<Longrightarrow> owned_path w4 u parent [name] child"
            using s4 hop owned_path_walked by blast
          ultimately show ?thesis
            using Cons.prems(1) go \<open>r2 = Inr child\<close> Inr True s4 fds
            by (auto simp: 1 2 3 4 split: sum.splits simp del: owned_path.simps(2))
        next
          case False
          show ?thesis
          proof (cases crosses)
            case True
            then show ?thesis using Cons.prems(1) go \<open>r2 = Inr child\<close> Inr False w3 s3 fds
              by (auto simp: 1 2 3 fresh_inodes_def)
          next
            case nocross: False
            let ?w = "close_fd w3"
            have rec: "walk_create plan u g rest child ?w = (r, w')"
              using Cons.prems(1) go \<open>r2 = Inr child\<close> Inr False nocross by (auto simp: 1 2 3)
            have "b \<le> next_ino ?w" using w3 Cons.prems(3) by (simp add: walked_def)
            moreover have "fresh_inodes ?w" using s3 by (simp add: fresh_inodes_def)
            moreover have "writable b root u ?w child" using sp by (simp add: writable_def)
            ultimately have ih: "walked b root u ?w w' \<and> fresh_inodes w' \<and>
                open_fds w' = open_fds ?w + (case r of Inl _ \<Rightarrow> - 1 | Inr _ \<Rightarrow> 0) \<and>
                (\<forall>fd. r = Inr fd \<longrightarrow> owned_path w' u child rest fd \<and> claimed w' u g fd)"
              using Cons.IH [OF rec] by blast
            have "walked b root u w3 w'" using ih by (simp add: walked_def)
            moreover from this have "owned_path w' u parent [name] child"
              using hop [OF nocross] owned_path_walked by blast
            ultimately show ?thesis
              using ih w3 fds walked_step owned_path_append [of w' u parent "[name]" child rest]
              by auto
          qed
        qed
      qed
    qed
  qed
qed (auto simp: fresh_inodes_def)

lemma verify_component_result:
  assumes "verify_component plan u g child parent w = (r, w')"
  shows "reads 0 w w' \<and> (\<forall>crosses. r = Inr crosses \<longrightarrow>
    (\<exists>s p. inodes w child = Some s \<and> inodes w parent = Some p \<and> iuid s = u \<and> igid s = g \<and>
       (\<not> crosses \<longrightarrow> stays_on s p)))"
proof -
  obtain r1 w1 where 1: "stat_pair (plan_path plan) child parent w = (r1, w1)" by fastforce
  note s1 = stat_pair_result [OF 1]
  show ?thesis
  proof (cases r1)
    case (Inr st)
    obtain crosses w2 where 2: "mount_check child parent st w1 = (crosses, w2)" by fastforce
    have "reads 0 w1 w2 \<and> (\<not> crosses \<longrightarrow> stays_on (fst st) (snd st))"
      using mount_check_result [OF 2] s1 Inr by (auto simp: reads_fields)
    then show ?thesis using assms s1 Inr reads_0_trans
      by (auto simp: verify_component_def 1 2 split: if_splits)
  qed (use assms s1 in \<open>auto simp: verify_component_def 1\<close>)
qed

lemma walk_verify_result:
  assumes "walk_verify plan u g names parent w = (r, w')"
  shows "reads (case r of Inl _ \<Rightarrow> - 1 | Inr _ \<Rightarrow> 0) w w' \<and>
    (\<forall>fd. r = Inr fd \<longrightarrow> owned_path w u parent names fd \<and>
       (\<exists>n. inodes w fd = Some n \<and> igid n = g \<and> no_entries n))"
  using assms
proof (induction names arbitrary: parent w)
  case (Cons name rest)
  have close1: "reads (k - 1) v (close_fd v')" if "reads k v v'" for k and v v' :: "'a world"
    using reads_trans [OF that reads_close] by simp
  obtain r1 w1 where 1: "openat_dir parent name w = (r1, w1)" by fastforce
  show ?case
  proof (cases r1)
    case (Inl e)
    then show ?thesis using Cons.prems openat_dir_result [OF 1] close1 [of 0]
      by (auto simp: 1)
  next
    case (Inr child)
    then have o: "reads 1 w w1" "entry w parent name = Some child"
        "\<exists>n. inodes w child = Some n \<and> ikind n = DirectoryFile"
      using openat_dir_result [OF 1] by auto
    obtain r2 w2 where 2: "verify_component plan u g child parent w1 = (r2, w2)" by fastforce
    note s2 = verify_component_result [OF 2]
    have w2: "reads 1 w w2" using reads_trans [OF o(1), of 0 w2] s2 by simp
    have bail1: "reads (- 1) w (close_fd (close_fd w2))"
      using close1 [OF close1 [OF w2]] by simp
    show ?thesis
    proof (cases r2)
      case (Inl err)
      then show ?thesis using Cons.prems \<open>r1 = Inr child\<close> bail1 by (auto simp: 1 2)
    next
      case (Inr crosses)
      then obtain s p where sp: "inodes w child = Some s" "inodes w parent = Some p" "iuid s = u"
          "igid s = g" "\<not> crosses \<longrightarrow> stays_on s p"
        using s2 o(1) by (auto simp: reads_fields)
      then have hop: "\<not> crosses \<Longrightarrow> owned_path w u parent [name] child"
        using o by auto
      show ?thesis
      proof (cases "rest = []")
        case True
        obtain r3 w3 where 3: "check_last plan crosses child w2 = (r3, w3)" by fastforce
        have s3: "reads 0 w2 w3 \<and> (r3 = Inr () \<longrightarrow> \<not> crosses \<and> no_entries s)"
        proof (cases crosses)
          case False
          obtain r4 w4 where 4: "directoryIsEmpty child w2 = (r4, w4)" by fastforce
          have "r4 = Inr True \<longrightarrow> no_entries s"
            using directoryIsEmpty_result [OF 4] sp(1) w2 by (auto simp: reads_fields)
          then show ?thesis using 3 4 False directoryIsEmpty_result [OF 4]
            by (cases r4) (auto simp: check_last_def split: if_splits)
        qed (use 3 in \<open>auto simp: check_last_def\<close>)
        then have w3: "reads 1 w w3" using reads_trans [OF w2, of 0 w3] by simp
        have "reads (- 1) w (close_fd (close_fd w3))" "reads 0 w (close_fd w3)"
          using close1 [OF close1 [OF w3]] close1 [OF w3] by simp_all
        then show ?thesis
          using Cons.prems \<open>r1 = Inr child\<close> Inr True s3 hop sp(1,4)
          by (auto simp: 1 2 3 split: sum.splits simp del: owned_path.simps(2))
      next
        case False
        show ?thesis
        proof (cases crosses)
          case True
          then show ?thesis using Cons.prems \<open>r1 = Inr child\<close> Inr False bail1 by (auto simp: 1 2)
        next
          case nocross: False
          let ?w = "close_fd w2"
          have w0: "reads 0 w ?w" using close1 [OF w2] by simp
          have rec: "walk_verify plan u g rest child ?w = (r, w')"
            using Cons.prems \<open>r1 = Inr child\<close> Inr False nocross by (auto simp: 1 2)
          have same: "owned_path ?w u child rest fd = owned_path w u child rest fd" for fd
            by (rule owned_path_same) (rule reads_fields(1) [OF w0])
          show ?thesis
            using Cons.IH [OF rec] reads_0_trans [OF w0] hop [OF nocross] same
              owned_path_append [of w u parent "[name]" child rest]
            by (auto simp: reads_fields(1) [OF w0] simp del: close_fd_fields)
        qed
      qed
    qed
  qed
qed auto

section \<open>What the walks guarantee\<close>


text \<open>C8. Whatever \<open>openMountpointNoFollow\<close> returns and whatever failed on the way, it does not touch
  what is not the user's: no file that was there changes its owner or contents, an entry that was
  there still leads to the same file, and a file of another owner is exactly as it was, unless it is
  the allowed root itself, which may have gained an entry.  On an error no descriptor is left open.\<close>
theorem openMountpointNoFollow_confined:
  assumes "openMountpointNoFollow plan u g w = (r, w')" and "fresh_inodes w"
  shows "(\<forall>i n. inodes w i = Some n \<longrightarrow>
      (\<exists>n'. inodes w' i = Some n' \<and> ikind n' = ikind n \<and> iuid n' = iuid n \<and> idata n' = idata n \<and>
         ents_grow n n' \<and>
         (iuid n \<noteq> u \<and> Some i \<noteq> follow_path w (plan_root plan) \<longrightarrow> n' = n))) \<and>
    services w' = services w \<and>
    open_fds w' = open_fds w + (case r of Inl _ \<Rightarrow> 0 | Inr _ \<Rightarrow> 1)"
proof -
  obtain r1 w1 where 1: "open_abs_dir True (plan_root plan) w = (r1, w1)" by fastforce
  have free: "i < next_ino w" if "inodes w i = Some n" for i n
    using assms(2) that by (metis fresh_inodes_def linorder_not_le option.distinct(1))
  show ?thesis
  proof (cases "plan_suffix plan = [] \<or> (\<exists>e. r1 = Inl e)")
    case True
    then show ?thesis using assms(1) open_abs_dir_result [OF 1]
      by (auto simp: openMountpointNoFollow_def 1 reads_fields split: if_splits)
  next
    case False
    then obtain root where 2: "r1 = Inr root" "walk_create plan u g (plan_suffix plan) root w1 = (r, w')"
      using assms(1) 1 by (cases r1) (auto simp: openMountpointNoFollow_def)
    have o: "reads 1 w w1" "follow_path w (plan_root plan) = Some root"
      using open_abs_dir_result [OF 1] 2(1) by auto
    have "fresh_inodes w1" using o(1) assms(2) by (simp add: reads_fresh)
    then have m: "walked (next_ino w1) root u w1 w'" "open_fds w' = open_fds w1 + (case r of Inl _ \<Rightarrow> - 1 | Inr _ \<Rightarrow> 0)"
      using walk_create_result [OF 2(2), of "next_ino w1" root] by (auto simp: writable_def)
    have "\<exists>n'. inodes w' i = Some n' \<and> ikind n' = ikind n \<and> iuid n' = iuid n \<and> idata n' = idata n \<and>
         ents_grow n n' \<and>
         (iuid n \<noteq> u \<and> Some i \<noteq> follow_path w (plan_root plan) \<longrightarrow> n' = n)" if n: "inodes w i = Some n" for i n
    proof -
      obtain n' where n': "inodes w' i = Some n'" "kept_inode (next_ino w) root u i n n'"
        using m(1) n reads_fields(1,3) [OF o(1)] unfolding walked_def by metis
      then show ?thesis using free [OF n] o(2) by (auto simp: kept_inode_def)
    qed
    then show ?thesis using m o(1) by (auto simp: walked_def reads_fields split: sum.splits)
  qed
qed

lemma openMountpointNoCreate_result:
  assumes "openMountpointNoCreate plan u g w = (r, w')"
  shows "reads (case r of Inl _ \<Rightarrow> 0 | Inr _ \<Rightarrow> 1) w w' \<and>
    (\<forall>fd. r = Inr fd \<longrightarrow> (\<exists>root n. follow_path w (plan_root plan) = Some root \<and>
       owned_path w u root (plan_suffix plan) fd \<and>
       inodes w fd = Some n \<and> igid n = g \<and> no_entries n))"
proof -
  obtain r1 w1 where 1: "open_abs_dir True (plan_root plan) w = (r1, w1)" by fastforce
  show ?thesis
  proof (cases "plan_suffix plan = [] \<or> (\<exists>e. r1 = Inl e)")
    case True
    then show ?thesis using assms open_abs_dir_result [OF 1]
      by (auto simp: openMountpointNoCreate_def 1 split: if_splits)
  next
    case False
    then obtain root where 2: "r1 = Inr root" "walk_verify plan u g (plan_suffix plan) root w1 = (r, w')"
      using assms 1 by (cases r1) (auto simp: openMountpointNoCreate_def)
    have o: "reads 1 w w1" "follow_path w (plan_root plan) = Some root"
      using open_abs_dir_result [OF 1] 2(1) by auto
    have "reads (1 + (case r of Inl _ \<Rightarrow> - 1 | Inr _ \<Rightarrow> 0)) w w'"
      using walk_verify_result [OF 2(2)] o(1) reads_trans by blast
    then show ?thesis
      using walk_verify_result [OF 2(2)] o owned_path_same [OF reads_fields(1) [OF o(1)]]
      by (auto simp: reads_fields split: sum.splits)
  qed
qed

text \<open>The boot-time walk is read-only: \<open>openMountpointNoCreate\<close> changes no file and no service on
  any branch, leaves a descriptor open only when it succeeds, and when it does the directory is
  empty, has the recorded owner and group and is reached through directories of the recorded owner
  without leaving a mount.\<close>
theorem openMountpointNoCreate_verifies:
  assumes "openMountpointNoCreate plan u g w = (r, w')"
  shows "reads (case r of Inl _ \<Rightarrow> 0 | Inr _ \<Rightarrow> 1) w w' \<and>
    (\<forall>fd. r = Inr fd \<longrightarrow> (\<exists>root n. follow_path w (plan_root plan) = Some root \<and>
       owned_path w u root (plan_suffix plan) fd \<and>
       inodes w fd = Some n \<and> igid n = g \<and> no_entries n))"
  using openMountpointNoCreate_result [OF assms] .

section \<open>The preview predicts the walk\<close>

text \<open>A tree of which the kernel reports every mount id and in which every entry leads somewhere.\<close>

definition tree_ok :: "'s world \<Rightarrow> bool" where
  "tree_ok w \<longleftrightarrow>
     (\<forall>i n. inodes w i = Some n \<longrightarrow> imount n \<noteq> 0 \<and> \<not> itrigger n \<and>
        (\<forall>x j. map_of (ients n) x = Some j \<longrightarrow> inodes w j \<noteq> None))"

lemma readdir_empty_works:
  "sched w = [] \<Longrightarrow> readdir_empty names w = (Inr (set names \<subseteq> {''.'', ''..''}), w)"
  by (induction names) auto

lemma directoryIsEmpty_works:
  assumes "sched w = []" "inodes w fd = Some n"
  shows "directoryIsEmpty fd w = (Inr (no_entries n), w)"
  using assms
  by (simp add: directoryIsEmpty_def dup_fd_def fdopendir_def opened_def readdir_empty_works no_entries_def)

lemma mount_check_works:
  assumes "sched w = []" "inodes w c = Some s" "inodes w p = Some t" "imount s \<noteq> 0" "imount t \<noteq> 0"
  shows "mount_check c p (s, t) w = (imount s \<noteq> imount t, w)"
  using assms by (simp add: mount_check_def mountIdOf_def crosses_mount_def)

lemma stat_pair_works:
  "sched w = [] \<Longrightarrow> inodes w c = Some s \<Longrightarrow> inodes w p = Some t \<Longrightarrow> stat_pair path c p w = (Inr (s, t), w)"
  by (simp add: stat_pair_def fstat_def)

lemma fchown_works:
  "sched w = [] \<Longrightarrow> inodes w fd = Some n \<Longrightarrow>
   fchown fd u g w = (Inr (), log_event (Ev_Chown fd u g) (set_inode fd (n\<lparr>iuid := u, igid := g\<rparr>) w))"
  by (simp add: fchown_def update_inode_def)

lemma fchmod_works:
  "sched w = [] \<Longrightarrow> inodes w fd = Some n \<Longrightarrow>
   fchmod fd m w = (Inr (), log_event (Ev_Chmod fd m) (set_inode fd (n\<lparr>imode := m\<rparr>) w))"
  by (simp add: fchmod_def update_inode_def)

lemma claim_last_works:
  assumes "sched w = []" "inodes w c = Some n"
  shows "(\<exists>w'. claim_last plan u g crosses c w = (Inr (), w')) \<longleftrightarrow> \<not> crosses \<and> no_entries n"
  using assms by (simp add: claim_last_def directoryIsEmpty_works fchown_works fchmod_works)

lemma enter_existing_works:
  assumes "sched w = []" "inodes w c = Some s" "inodes w p = Some t" "imount s \<noteq> 0" "imount t \<noteq> 0"
  shows "enter_component plan u g name False c p w =
    (if iuid s \<noteq> u then (Inl (WalkWrongOwner (plan_path plan) (iuid s) u), w)
     else (Inr (imount s \<noteq> imount t), w))"
  using assms by (simp add: enter_component_def stat_pair_works mount_check_works)

lemma enter_created_works:
  assumes "sched w = []" "inodes w c = Some s" "inodes w p = Some t" "imount s = imount t"
    "imount t \<noteq> 0" "c \<noteq> p"
  shows "enter_component plan u g name True c p w =
    (Inr False, log_event (Ev_Chown c u g) (set_inode c (s\<lparr>iuid := u, igid := g\<rparr>) w))"
  using assms
  by (simp add: enter_component_def stat_pair_works mount_check_works fchown_works)

lemma mkdirat_works:
  "sched w = [] \<Longrightarrow> inodes w d = Some n \<Longrightarrow>
   mkdirat d name m w =
    (if map_of (ients n) name \<noteq> None then (Inl EEXIST, w)
     else (Inr (), log_event (Ev_Mkdir d name)
       (set_inode (next_ino w) (new_inode DirectoryFile (masked m w) n)
         (set_inode d (add_entry name (next_ino w) n) (w\<lparr>next_ino := next_ino w + 1\<rparr>)))))"
  by (simp add: mkdirat_def create_in_def masked_def)

lemma openat_dir_works:
  "sched w = [] \<Longrightarrow> entry w d name = Some c \<Longrightarrow> inodes w c = Some s \<Longrightarrow>
   openat_dir d name w =
     (if ikind s = DirectoryFile then (Inr c, w\<lparr>open_fds := open_fds w + 1\<rparr>) else (Inl ENOTDIR, w))"
  by (simp add: openat_dir_def open_as_dir_def opened_def)

text \<open>Below a directory without the entry everything is created, and the walk succeeds.\<close>

lemma walk_create_fresh:
  assumes "sched w = []" "fresh_inodes w" "inodes w parent = Some p" "imount p \<noteq> 0"
    "names \<noteq> []" "map_of (ients p) (hd names) = None"
  shows "\<exists>fd w'. walk_create plan u g names parent w = (Inr fd, w')"
  using assms
proof (induction names arbitrary: parent p w)
  case (Cons name rest)
  let ?c = "next_ino w"
  have ne: "?c \<noteq> parent" using Cons.prems(2,3) by (auto simp: fresh_inodes_def)
  let ?s = "new_inode DirectoryFile (masked 448 w) p"
  define w1 where "w1 = log_event (Ev_Mkdir parent name) (set_inode ?c ?s
         (set_inode parent (add_entry name ?c p) (w\<lparr>next_ino := next_ino w + 1\<rparr>)))"
  have 1: "mkdirat parent name 448 w = (Inr (), w1)"
    using Cons.prems by (simp add: mkdirat_works w1_def)
  define w2 where "w2 = w1\<lparr>open_fds := open_fds w1 + 1\<rparr>"
  have i2: "inodes w2 ?c = Some ?s" "inodes w2 parent = Some (add_entry name ?c p)" "sched w2 = []"
    using ne Cons.prems(1) by (auto simp: w2_def w1_def)
  have 2: "openat_dir parent name w1 = (Inr ?c, w2)"
    using ne Cons.prems(1) by (simp add: openat_dir_def open_as_dir_def opened_def w1_def w2_def entry_def new_inode_def)
  define w3 where "w3 = log_event (Ev_Chown ?c u g) (set_inode ?c (?s\<lparr>iuid := u, igid := g\<rparr>) w2)"
  have 3: "enter_component plan u g name True ?c parent w2 = (Inr False, w3)"
    using enter_created_works [OF i2(3,1,2)] Cons.prems(4) ne by (simp add: w3_def new_inode_def)
  have i3: "sched w3 = []" "inodes w3 ?c = Some (?s\<lparr>iuid := u, igid := g\<rparr>)" "fresh_inodes w3"
    using Cons.prems(1,2,3) i2(3) by (auto simp: w3_def w2_def w1_def fresh_inodes_def Suc_le_eq)
  show ?case
  proof (cases "rest = []")
    case True
    obtain w4 where "claim_last plan u g False ?c w3 = (Inr (), w4)"
      using claim_last_works [OF i3(1,2), of plan u g False] by (auto simp: no_entries_def new_inode_def)
    then show ?thesis using True by (simp add: 1 2 3)
  next
    case False
    have "\<exists>fd w'. walk_create plan u g rest ?c (close_fd w3) = (Inr fd, w')"
      by (rule Cons.IH [where p = "?s\<lparr>iuid := u, igid := g\<rparr>"])
        (use i3 False Cons.prems(4) in \<open>simp_all add: new_inode_def\<close>)
    then show ?thesis using False by (simp add: 1 2 3)
  qed
qed simp

lemma preview_walk_agrees:
  assumes "sched w = []" "fresh_inodes w" "tree_ok w" "inodes w dir = Some d"
    "imount d = imount root" "names \<noteq> []"
  shows "fst (preview_walk root u names sofar dir w) = NoProblem \<longleftrightarrow>
    (\<exists>fd w'. walk_create plan u g names dir w = (Inr fd, w'))"
  using assms
proof (induction names arbitrary: dir d sofar)
  case (Cons name rest)
  note w = Cons.prems(1-4)
  have m: "imount d \<noteq> 0" using w(3,4) by (auto simp: tree_ok_def)
  show ?case
  proof (cases "map_of (ients d) name")
    case None
    then have "\<exists>fd w'. walk_create plan u g (name # rest) dir w = (Inr fd, w')"
      by (intro walk_create_fresh [OF w(1,2,4) m]) simp_all
    then show ?thesis using None w by (simp add: fstatat_def entry_def Let_def)
  next
    case (Some c)
    then obtain s where s: "inodes w c = Some s" using w(3,4) unfolding tree_ok_def by fastforce
    have ms: "imount s \<noteq> 0" "\<not> itrigger s" using s w(3) by (auto simp: tree_ok_def)
    have st: "fstatat dir name w = (Inr s, w)" using Some s w by (simp add: fstatat_def entry_def)
    have mk: "mkdirat dir name 448 w = (Inl EEXIST, w)" using Some w by (simp add: mkdirat_works)
    let ?w = "w\<lparr>open_fds := open_fds w + 1\<rparr>"
    have op: "openat_dir dir name w = (if ikind s = DirectoryFile then (Inr c, ?w) else (Inl ENOTDIR, w))"
      using openat_dir_works [of w dir name c s] Some s w by (simp add: entry_def)
    have opp: "openat_path dir name w = (Inr c, ?w)"
      using Some w by (simp add: openat_path_def opened_def entry_def)
    have en: "enter_component plan u g name False c dir ?w =
        (if iuid s \<noteq> u then (Inl (WalkWrongOwner (plan_path plan) (iuid s) u), ?w)
         else (Inr (imount s \<noteq> imount d), ?w))"
      using enter_existing_works [of ?w c s dir d] w s ms m by simp
    have cr: "preview_crosses s root \<longleftrightarrow> imount s \<noteq> imount d"
      using ms m Cons.prems(5) by (auto simp: preview_crosses_def)
    have em: "directoryIsEmpty c ?w = (Inr (no_entries s), ?w)"
      using directoryIsEmpty_works [of ?w c s] w s by simp
    have cl: "(\<exists>w'. claim_last plan u g crosses c ?w = (Inr (), w')) \<longleftrightarrow> \<not> crosses \<and> no_entries s" for crosses
      using claim_last_works [of ?w c s] w s by simp
    show ?thesis
    proof (cases "ikind s = DirectoryFile \<and> imount s = imount d \<and> iuid s = u")
      case False
      have "fst (preview_walk root u (name # rest) sofar dir w) \<noteq> NoProblem"
        using False st cr by (auto simp: Let_def is_symlink_def split: file_kind.splits)
      moreover have "\<nexists>fd w'. walk_create plan u g (name # rest) dir w = (Inr fd, w')"
        using False mk op en by (auto simp: claim_last_def split: if_splits)
      ultimately show ?thesis by blast
    next
      case True
      then have sym: "\<not> is_symlink s" by (simp add: is_symlink_def)
      show ?thesis
      proof (cases "rest = []")
        case rest: True
        have "fst (preview_walk root u (name # rest) sofar dir w) = NoProblem \<longleftrightarrow> no_entries s"
          using True rest st cr op em sym by (simp add: Let_def)
        moreover have "(\<exists>fd w'. walk_create plan u g (name # rest) dir w = (Inr fd, w')) \<longleftrightarrow>
            (\<exists>w'. claim_last plan u g False c ?w = (Inr (), w'))"
          using True rest mk op en by (auto split: prod.splits sum.splits)
        ultimately show ?thesis using cl by simp
      next
        case False
        have "fst (preview_walk root u (name # rest) sofar dir w) =
            fst (preview_walk root u rest (cleanPath (sofar @ ''/'' @ name)) c w)"
          using True False st cr opp sym by (simp add: Let_def)
        moreover have "walk_create plan u g (name # rest) dir w = walk_create plan u g rest c w"
          using True False mk op en by simp
        moreover have "imount s = imount root" using True Cons.prems(5) by simp
        ultimately show ?thesis using Cons.IH [OF w(1-3) s _ False] by simp
      qed
    qed
  qed
qed simp

text \<open>C9. The preview of the Add form tells the truth: in a tree whose mount ids the kernel reports
  and when no call fails, \<open>previewMountpointProblem\<close> reports no problem exactly when
  \<open>openMountpointNoFollow\<close> would succeed for the same plan and user.\<close>
theorem preview_agrees_with_walk:
  assumes "sched w = []" "fresh_inodes w" "tree_ok w"
    and "follow_path w (plan_root plan) = Some r" "inodes w r = Some d" "ikind d = DirectoryFile"
    and "plan_suffix plan \<noteq> []"
  shows "fst (previewMountpointProblem plan u w) = NoProblem \<longleftrightarrow>
    (\<exists>fd w'. openMountpointNoFollow plan u g w = (Inr fd, w'))"
proof -
  let ?w = "w\<lparr>open_fds := open_fds w + 1\<rparr>"
  have t: "\<not> itrigger d" using assms(3,5) by (auto simp: tree_ok_def)
  have ex: "examine_abs (plan_root plan) w = (Inr (r, d), w)"
    using assms(1,4,5) by (auto simp: examine_abs_def follow_path_def split: option.splits file_kind.splits)
  have op: "open_abs_dir True (plan_root plan) w = (Inr r, ?w)"
    using assms(1,4,5,6)
    by (auto simp: open_abs_dir_def open_as_dir_def opened_def follow_path_def split: option.splits file_kind.splits)
  have "tree_ok ?w" using assms(3) by (simp add: tree_ok_def)
  moreover have "fresh_inodes ?w" using assms(2) by (simp add: fresh_inodes_def)
  ultimately have "fst (preview_walk d u (plan_suffix plan) (plan_root plan) r ?w) = NoProblem \<longleftrightarrow>
      (\<exists>fd w'. walk_create plan u g (plan_suffix plan) r ?w = (Inr fd, w'))"
    using preview_walk_agrees [of ?w r d d "plan_suffix plan"] assms(1,5,7) by simp
  then show ?thesis
    using assms(1,6,7) t ex op by (simp add: previewMountpointProblem_def openMountpointNoFollow_def opened_def)
qed

section \<open>A concrete tree\<close>

text \<open>
  \<open>/home\<close> holds the home directory of user 1000, in which there is an empty directory of a root user
  and an empty \<open>nas\<close> directory; \<open>nas/movies\<close> does not exist yet.
\<close>

definition dir_inode :: "uid \<Rightarrow> (qstring \<times> nat) list \<Rightarrow> inode" where
  "dir_inode u es = \<lparr>ikind = DirectoryFile, iuid = u, igid = u, imode = 493, idata = [], ients = es,
     imount = 7, idevice = 1, itrigger = False\<rparr>"

definition demo_world :: "unit world" where
  "demo_world = \<lparr>inodes = [1 \<mapsto> dir_inode 1000 [(''rooted'', 3), (''nas'', 2)],
       2 \<mapsto> dir_inode 1000 [], 3 \<mapsto> dir_inode 0 []],
     absolute = [''/home/u'' \<mapsto> 1], next_ino = 4, umask = 18, sched = [], rng = (\<lambda>_. 0), rng_pos = 0,
     open_fds = 0, events = [], services = ()\<rparr>"

definition demo_plan :: mountpoint_plan where
  "demo_plan = \<lparr>plan_path = ''/home/u/nas/movies'', plan_root = ''/home/u'',
     plan_suffix = [''nas'', ''movies'']\<rparr>"

lemma demo_fresh: "fresh_inodes demo_world"
  by (auto simp: fresh_inodes_def demo_world_def)

lemma demo_tree_ok: "tree_ok demo_world"
  by (auto simp: tree_ok_def demo_world_def dir_inode_def split: if_splits)

lemma demo_walk: "fst (openMountpointNoFollow demo_plan 1000 1000 demo_world) = Inr 4"
  by code_simp


text \<open>Applied to that walk: the directory of root keeps its owner and its contents.\<close>
theorem openMountpointNoFollow_confined_witness:
  "inodes (snd (openMountpointNoFollow demo_plan 1000 1000 demo_world)) 3 = Some (dir_inode 0 [])"
proof -
  have "inodes demo_world 3 = Some (dir_inode 0 [])" "iuid (dir_inode 0 []) \<noteq> 1000"
    "Some 3 \<noteq> follow_path demo_world (plan_root demo_plan)"
    by (simp_all add: demo_world_def dir_inode_def demo_plan_def follow_path_def)
  then show ?thesis
    using openMountpointNoFollow_confined [OF prod.collapse [symmetric] demo_fresh, of demo_plan 1000 1000]
    by auto
qed

text \<open>The boot-time walk of the existing directory succeeds.\<close>
theorem openMountpointNoCreate_verifies_witness:
  "\<exists>w' n. openMountpointNoCreate (demo_plan\<lparr>plan_suffix := [''nas'']\<rparr>) 1000 1000 demo_world = (Inr 2, w') \<and>
     reads 1 demo_world w' \<and> inodes demo_world 2 = Some n \<and> no_entries n"
proof -
  have "fst (openMountpointNoCreate (demo_plan\<lparr>plan_suffix := [''nas'']\<rparr>) 1000 1000 demo_world) = Inr 2"
    by code_simp
  then obtain w' where w': "openMountpointNoCreate (demo_plan\<lparr>plan_suffix := [''nas'']\<rparr>) 1000 1000 demo_world = (Inr 2, w')"
    by (cases "openMountpointNoCreate (demo_plan\<lparr>plan_suffix := [''nas'']\<rparr>) 1000 1000 demo_world") auto
  show ?thesis using openMountpointNoCreate_verifies [OF w'] w' by auto
qed

text \<open>The preview of the walk above reports no problem, and of \<open>rooted\<close> it does.\<close>
theorem preview_agrees_with_walk_witness:
  "fst (previewMountpointProblem demo_plan 1000 demo_world) = NoProblem \<and>
   fst (previewMountpointProblem (demo_plan\<lparr>plan_suffix := [''rooted'']\<rparr>) 1000 demo_world) \<noteq> NoProblem"
proof -
  have root: "follow_path demo_world (plan_root demo_plan) = Some 1"
    "inodes demo_world 1 = Some (dir_inode 1000 [(''rooted'', 3), (''nas'', 2)])"
    by (simp_all add: demo_world_def demo_plan_def follow_path_def dir_inode_def)
  have "\<exists>fd w'. openMountpointNoFollow demo_plan 1000 1000 demo_world = (Inr fd, w')"
    using demo_walk by (metis prod.collapse)
  moreover have "\<not> isl (fst (openMountpointNoFollow demo_plan 1000 1000 demo_world))"
    using demo_walk by simp
  moreover have "isl (fst (openMountpointNoFollow (demo_plan\<lparr>plan_suffix := [''rooted'']\<rparr>) 1000 1000 demo_world))"
    by code_simp
  ultimately show ?thesis
    using preview_agrees_with_walk [OF _ demo_fresh demo_tree_ok root, of 1000 1000]
      preview_agrees_with_walk [OF _ demo_fresh demo_tree_ok, of "demo_plan\<lparr>plan_suffix := [''rooted'']\<rparr>" 1 _ 1000 1000] root
    by (auto simp: demo_world_def demo_plan_def dir_inode_def)
qed

end
