(* ===== verification/DurableFs.thy ===== *)
theory DurableFs
  imports MountWalk
begin

text \<open>
  Model of \<open>src/root/durablefs.cpp\<close>: the descriptor-based, crash-durable primitives on root-owned
  directories.  A directory is the inode its descriptor refers to.  The error strings are the
  constructors of \<open>durable_error\<close>; the empty error string with which \<open>openVerifiedDir\<close> and
  \<open>readFileBounded\<close> report a missing name is \<open>DurAbsent\<close>.
\<close>

section \<open>Kinds, modes and names\<close>

datatype FileKind = Regular | Directory

datatype ArtifactKind = DirectoryKind | PublicDirectory | UnitFile | SensitiveFile | PublicRecord

text \<open>The octal modes 0700, 0755, 0644 and 0600.\<close>

fun modeFor :: "ArtifactKind \<Rightarrow> nat" where
  "modeFor DirectoryKind = 448"
| "modeFor PublicDirectory = 493"
| "modeFor UnitFile = 420"
| "modeFor SensitiveFile = 384"
| "modeFor PublicRecord = 420"

definition isSingleComponent :: "qstring \<Rightarrow> bool" where
  "isSingleComponent name \<longleftrightarrow> name \<noteq> [] \<and> name \<noteq> ''.'' \<and> name \<noteq> ''..'' \<and> CHR ''/'' \<notin> set name"

datatype verify_error =
  VerifyCannotStat errno | VerifyNotType FileKind | VerifyOwner uid uid | VerifyMode nat nat

datatype durable_error =
  DurAbsent
| DurInvalidName qstring
| DurCannotOpen qstring errno
| DurUnsafeRoot qstring
| DurUnverified qstring verify_error
| DurCannotCreate qstring errno
| DurCannotSyncParent qstring errno
| DurCannotOpenCreated qstring
| DurCannotStat qstring errno
| DurTooLarge qstring nat
| DurCannotRead qstring errno
| DurCannotCreateTemp qstring errno
| DurNoTempName qstring
| DurWriteFailed qstring "errno option"
| DurCannotSecure qstring errno
| DurCannotSyncTemp qstring errno
| DurCannotInstall qstring errno
| DurCannotSyncInstalled qstring errno
| DurCannotRemove qstring errno
| DurCannotSyncRemoved qstring errno
| DurCannotDuplicate qstring errno
| DurCannotList qstring errno
| DurCannotInspect qstring qstring errno
| DurSubdirectory qstring qstring
| DurUnsafeEntry qstring qstring
| DurCannotRemoveEntry qstring qstring errno
| DurCannotEnumerate qstring errno
| DurCannotSyncCleared qstring errno
| DurCannotRemoveDir qstring errno
| DurCannotSyncRemovedDir qstring errno

section \<open>Verified directories\<close>

definition verifyDescriptor ::
    "nat \<Rightarrow> FileKind \<Rightarrow> uid \<Rightarrow> nat \<Rightarrow> 's world \<Rightarrow> (verify_error + unit) \<times> 's world" where
  "verifyDescriptor fd expectedType expectedUid expectedMode w =
     (case fstat fd w of
        (Inl e, w1) \<Rightarrow> (Inl (VerifyCannotStat e), w1)
      | (Inr st, w1) \<Rightarrow>
          if ikind st \<noteq> (if expectedType = Directory then DirectoryFile else RegularFile)
          then (Inl (VerifyNotType expectedType), w1)
          else if iuid st \<noteq> expectedUid then (Inl (VerifyOwner (iuid st) expectedUid), w1)
          else if imode st \<noteq> expectedMode then (Inl (VerifyMode (imode st) expectedMode), w1)
          else (Inr (), w1))"

text \<open>Not writable by group or others: neither bit of octal 022.\<close>

definition openSystemRoot :: "qstring \<Rightarrow> 's world \<Rightarrow> (durable_error + nat) \<times> 's world" where
  "openSystemRoot absolutePath w =
     (case open_abs_dir False absolutePath w of
        (Inl e, w1) \<Rightarrow> (Inl (DurCannotOpen absolutePath e), w1)
      | (Inr fd, w1) \<Rightarrow>
     (case fstat fd w1 of
        (Inl e, w2) \<Rightarrow> (Inl (DurUnsafeRoot absolutePath), close_fd w2)
      | (Inr st, w2) \<Rightarrow>
          if ikind st \<noteq> DirectoryFile \<or> iuid st \<noteq> 0 \<or> imode st AND 18 \<noteq> 0
          then (Inl (DurUnsafeRoot absolutePath), close_fd w2)
          else (Inr fd, w2)))"

definition openVerifiedDir ::
    "nat \<Rightarrow> qstring \<Rightarrow> ArtifactKind \<Rightarrow> 's world \<Rightarrow> (durable_error + nat) \<times> 's world" where
  "openVerifiedDir parent name dirKind w =
     (if \<not> isSingleComponent name then (Inl (DurInvalidName name), w)
      else (case openat_dir parent name w of
        (Inl e, w1) \<Rightarrow> (Inl (if e = ENOENT then DurAbsent else DurCannotOpen name e), w1)
      | (Inr fd, w1) \<Rightarrow>
     (case verifyDescriptor fd Directory 0 (modeFor dirKind) w1 of
        (Inl v, w2) \<Rightarrow> (Inl (DurUnverified name v), close_fd w2)
      | (Inr _, w2) \<Rightarrow> (Inr fd, w2))))"

definition createAndVerifyDir ::
    "nat \<Rightarrow> qstring \<Rightarrow> ArtifactKind \<Rightarrow> 's world \<Rightarrow> (durable_error + nat) \<times> 's world" where
  "createAndVerifyDir parent name dirKind w =
     (if \<not> isSingleComponent name then (Inl (DurInvalidName name), w)
      else (case mkdirat parent name (modeFor dirKind) w of
        (made, w1) \<Rightarrow>
          if made_failed made then (Inl (DurCannotCreate name (projl made)), w1)
          else
     (case (if made = Inr () then fsync parent w1 else (Inr (), w1)) of
        (Inl e, w2) \<Rightarrow> (Inl (DurCannotSyncParent name e), w2)
      | (Inr _, w2) \<Rightarrow>
     (case openVerifiedDir parent name dirKind w2 of
        (Inl err, w3) \<Rightarrow> (Inl (if err = DurAbsent then DurCannotOpenCreated name else err), w3)
      | (Inr fd, w3) \<Rightarrow> (Inr fd, w3)))))"

section \<open>Bounded reads\<close>

function read_loop :: "nat \<Rightarrow> nat \<Rightarrow> qstring \<Rightarrow> 's world \<Rightarrow> (errno + qstring) \<times> 's world" where
  "read_loop fd len acc w =
     (if length acc < len then
        (case read_chunk fd (length acc) (len - length acc) w of
           (Inl e, w1) \<Rightarrow> (Inl e, w1)
         | (Inr bytes, w1) \<Rightarrow>
             if bytes = [] then (Inr acc, w1) else read_loop fd len (acc @ bytes) w1)
      else (Inr acc, w))"
  by pat_completeness auto
termination
  by (relation "measure (\<lambda>(fd, len, acc, w). len - length acc)")
    (auto intro!: diff_less_mono2)

declare read_loop.simps [simp del]

definition readFileBounded ::
    "nat \<Rightarrow> qstring \<Rightarrow> nat \<Rightarrow> ArtifactKind \<Rightarrow> 's world \<Rightarrow> (durable_error + qstring) \<times> 's world" where
  "readFileBounded dir name maxBytes kind w =
     (if \<not> isSingleComponent name then (Inl (DurInvalidName name), w)
      else (case openat_file dir name w of
        (Inl e, w1) \<Rightarrow> (Inl (if e = ENOENT then DurAbsent else DurCannotOpen name e), w1)
      | (Inr fd, w1) \<Rightarrow>
     (case verifyDescriptor fd Regular 0 (modeFor kind) w1 of
        (Inl v, w2) \<Rightarrow> (Inl (DurUnverified name v), close_fd w2)
      | (Inr _, w2) \<Rightarrow>
     (case fstat fd w2 of
        (Inl e, w3) \<Rightarrow> (Inl (DurCannotStat name e), close_fd w3)
      | (Inr st, w3) \<Rightarrow>
          if maxBytes < length (idata st) then (Inl (DurTooLarge name maxBytes), close_fd w3)
          else
     (case read_loop fd (length (idata st)) [] w3 of
        (Inl e, w4) \<Rightarrow> (Inl (DurCannotRead name e), close_fd w4)
      | (Inr content, w4) \<Rightarrow> (Inr content, close_fd w4))))))"

section \<open>Replacing and removing files\<close>

text \<open>16 lower-case hexadecimal digits.\<close>

definition hex_digit :: "nat \<Rightarrow> char" where
  "hex_digit n = ''0123456789abcdef'' ! n"

fun hex_digits :: "nat \<Rightarrow> nat \<Rightarrow> qstring" where
  "hex_digits 0 n = []"
| "hex_digits (Suc k) n = hex_digits k (n div 16) @ [hex_digit (n mod 16)]"

definition temp_prefix :: qstring where
  "temp_prefix = ''.nasmount-tmp-''"

definition temp_name :: "64 word \<Rightarrow> qstring" where
  "temp_name r = temp_prefix @ hex_digits 16 (unat r)"

text \<open>The guard keeps the evaluation of closed terms from unfolding the digits of an unknown number.\<close>

lemma temp_name_code [code]:
  "temp_name r = (if r \<le> 18446744073709551615 then temp_prefix @ hex_digits 16 (unat r) else [])"
proof -
  have "r \<le> 18446744073709551615" using unsigned_less [of r, where 'a = nat] by (simp add: word_le_nat_alt)
  then show ?thesis by (simp add: temp_name_def)
qed

fun create_temp ::
    "nat \<Rightarrow> nat \<Rightarrow> qstring \<Rightarrow> ArtifactKind \<Rightarrow> 's world \<Rightarrow> (durable_error + qstring \<times> nat) \<times> 's world" where
  "create_temp 0 dir name kind w = (Inl (DurNoTempName name), w)"
| "create_temp (Suc attempts) dir name kind w =
     (case generate64 w of
        (r, w1) \<Rightarrow>
     (case openat_excl dir (temp_name r) (modeFor kind) w1 of
        (Inr fd, w2) \<Rightarrow> (Inr (temp_name r, fd), w2)
      | (Inl e, w2) \<Rightarrow>
          if e \<noteq> EEXIST then (Inl (DurCannotCreateTemp name e), w2)
          else create_temp attempts dir name kind w2))"

function write_loop :: "nat \<Rightarrow> qstring \<Rightarrow> 's world \<Rightarrow> (errno option + unit) \<times> 's world" where
  "write_loop fd rest w =
     (if rest = [] then (Inr (), w)
      else (case write_chunk fd rest w of
        (Inl e, w1) \<Rightarrow> (Inl (Some e), w1)
      | (Inr n, w1) \<Rightarrow> if n = 0 then (Inl None, w1) else write_loop fd (drop n rest) w1))"
  by pat_completeness auto
termination
  by (relation "measure (\<lambda>(fd, rest, w). length rest)") auto

declare write_loop.simps [simp del]

text \<open>The temporary file: contents, owner, mode and \<open>fsync\<close>.\<close>

definition fill_temp ::
    "nat \<Rightarrow> qstring \<Rightarrow> qstring \<Rightarrow> ArtifactKind \<Rightarrow> 's world \<Rightarrow> (durable_error + unit) \<times> 's world" where
  "fill_temp fd name content kind w =
     (case write_loop fd content w of
        (Inl e, w1) \<Rightarrow> (Inl (DurWriteFailed name e), w1)
      | (Inr _, w1) \<Rightarrow>
     (case fchown fd 0 0 w1 of
        (Inl e, w2) \<Rightarrow> (Inl (DurCannotSecure name e), w2)
      | (Inr _, w2) \<Rightarrow>
     (case fchmod fd (modeFor kind) w2 of
        (Inl e, w3) \<Rightarrow> (Inl (DurCannotSecure name e), w3)
      | (Inr _, w3) \<Rightarrow>
     (case fsync fd w3 of
        (Inl e, w4) \<Rightarrow> (Inl (DurCannotSyncTemp name e), w4)
      | (Inr _, w4) \<Rightarrow> (Inr (), w4)))))"

definition durableReplace ::
    "nat \<Rightarrow> qstring \<Rightarrow> qstring \<Rightarrow> ArtifactKind \<Rightarrow> 's world \<Rightarrow> (durable_error + unit) \<times> 's world" where
  "durableReplace dir name content kind w =
     (if \<not> isSingleComponent name then (Inl (DurInvalidName name), w)
      else (case create_temp 8 dir name kind w of
        (Inl err, w1) \<Rightarrow> (Inl err, w1)
      | (Inr (tmp, fd), w1) \<Rightarrow>
     (case fill_temp fd name content kind w1 of
        (Inl err, w2) \<Rightarrow> (Inl err, snd (unlinkat dir tmp (close_fd w2)))
      | (Inr _, w2) \<Rightarrow>
     (case renameat dir tmp name (close_fd w2) of
        (Inl e, w3) \<Rightarrow> (Inl (DurCannotInstall name e), snd (unlinkat dir tmp w3))
      | (Inr _, w3) \<Rightarrow>
     (case fsync dir w3 of
        (Inl e, w4) \<Rightarrow> (Inl (DurCannotSyncInstalled name e), w4)
      | (Inr _, w4) \<Rightarrow> (Inr (), w4))))))"

definition durableUnlink :: "nat \<Rightarrow> qstring \<Rightarrow> bool \<Rightarrow> 's world \<Rightarrow> (durable_error + unit) \<times> 's world" where
  "durableUnlink dir name allowMissing w =
     (if \<not> isSingleComponent name then (Inl (DurInvalidName name), w)
      else (case unlinkat dir name w of
        (Inl e, w1) \<Rightarrow>
          if e = ENOENT \<and> allowMissing then (Inr (), w1) else (Inl (DurCannotRemove name e), w1)
      | (Inr _, w1) \<Rightarrow>
     (case fsync dir w1 of
        (Inl e, w2) \<Rightarrow> (Inl (DurCannotSyncRemoved name e), w2)
      | (Inr _, w2) \<Rightarrow> (Inr (), w2))))"

section \<open>Removing a tree\<close>

fun clear_entries ::
    "nat \<Rightarrow> qstring \<Rightarrow> ArtifactKind \<Rightarrow> qstring list \<Rightarrow> 's world \<Rightarrow> (durable_error + unit) \<times> 's world" where
  "clear_entries dir name entryKind [] w =
     (case next_outcome w of
        (Fails e, w1) \<Rightarrow> (Inl (DurCannotEnumerate name (OtherErrno e)), w1) | (_, w1) \<Rightarrow> (Inr (), w1))"
| "clear_entries dir name entryKind (x # xs) w =
     (case next_outcome w of
        (Fails e, w1) \<Rightarrow> (Inl (DurCannotEnumerate name (OtherErrno e)), w1)
      | (_, w1) \<Rightarrow>
          if x = ''.'' \<or> x = ''..'' then clear_entries dir name entryKind xs w1
          else
     (case fstatat dir x w1 of
        (Inl e, w2) \<Rightarrow> (Inl (DurCannotInspect name x e), w2)
      | (Inr st, w2) \<Rightarrow>
          if ikind st = DirectoryFile then (Inl (DurSubdirectory name x), w2)
          else if ikind st \<noteq> RegularFile \<or> iuid st \<noteq> 0 \<or> imode st \<noteq> modeFor entryKind
          then (Inl (DurUnsafeEntry name x), w2)
          else
     (case unlinkat dir x w2 of
        (Inl e, w3) \<Rightarrow> (Inl (DurCannotRemoveEntry name x e), w3)
      | (Inr _, w3) \<Rightarrow> clear_entries dir name entryKind xs w3)))"

definition clear_directory ::
    "nat \<Rightarrow> qstring \<Rightarrow> ArtifactKind \<Rightarrow> 's world \<Rightarrow> (durable_error + unit) \<times> 's world" where
  "clear_directory dir name entryKind w =
     (case dup_fd dir w of
        (Inl e, w1) \<Rightarrow> (Inl (DurCannotDuplicate name e), w1)
      | (Inr dup, w1) \<Rightarrow>
     (case fdopendir dup w1 of
        (Inl e, w2) \<Rightarrow> (Inl (DurCannotList name e), close_fd w2)
      | (Inr names, w2) \<Rightarrow>
     (case clear_entries dir name entryKind names w2 of
        (Inl err, w3) \<Rightarrow> (Inl err, close_fd w3)
      | (Inr _, w3) \<Rightarrow>
     (case fsync dir (close_fd w3) of
        (Inl e, w4) \<Rightarrow> (Inl (DurCannotSyncCleared name e), w4)
      | (Inr _, w4) \<Rightarrow> (Inr (), w4)))))"

definition durableRemoveTree ::
    "nat \<Rightarrow> qstring \<Rightarrow> ArtifactKind \<Rightarrow> ArtifactKind \<Rightarrow> 's world \<Rightarrow> (durable_error + unit) \<times> 's world" where
  "durableRemoveTree parent name dirKind entryKind w =
     (if \<not> isSingleComponent name then (Inl (DurInvalidName name), w)
      else (case openVerifiedDir parent name dirKind w of
        (Inl err, w1) \<Rightarrow> (if err = DurAbsent then Inr () else Inl err, w1)
      | (Inr dir, w1) \<Rightarrow>
     (case clear_directory dir name entryKind w1 of
        (Inl err, w2) \<Rightarrow> (Inl err, close_fd w2)
      | (Inr _, w2) \<Rightarrow>
     (case rmdirat parent name (close_fd w2) of
        (Inl e, w3) \<Rightarrow> (Inl (DurCannotRemoveDir name e), w3)
      | (Inr _, w3) \<Rightarrow>
     (case fsync parent w3 of
        (Inl e, w4) \<Rightarrow> (Inl (DurCannotSyncRemovedDir name e), w4)
      | (Inr _, w4) \<Rightarrow> (Inr (), w4))))))"

section \<open>What a replacement leaves\<close>

text \<open>Everything but the inodes, their numbering and the descriptors is as before.\<close>

definition same_env :: "'s world \<Rightarrow> 's world \<Rightarrow> bool" where
  "same_env w w' \<longleftrightarrow> absolute w' = absolute w \<and> services w' = services w"

lemma same_env_refl [simp]: "same_env w w"
  by (simp add: same_env_def)

lemma same_env_trans: "same_env w w' \<Longrightarrow> same_env w' w'' \<Longrightarrow> same_env w w''"
  by (simp add: same_env_def)

lemma reads_same_env: "reads k w w' \<Longrightarrow> same_env w w'"
  by (simp add: same_env_def reads_fields)

lemma same_env_close [simp]: "same_env w (close_fd w') = same_env w w'"
  by (simp add: same_env_def)

lemma create_temp_result:
  assumes "create_temp k d name kind w = (r, w')"
  shows "same_env w w' \<and>
    (case r of
       Inl _ \<Rightarrow> inodes w' = inodes w \<and> next_ino w' = next_ino w \<and> open_fds w' = open_fds w
     | Inr (tmp, fd) \<Rightarrow> fd = next_ino w \<and> (\<exists>x. tmp = temp_name x) \<and> next_ino w' = next_ino w + 1 \<and>
         open_fds w' = open_fds w + 1 \<and>
         (\<exists>n m. inodes w d = Some n \<and> map_of (ients n) tmp = None \<and> ikind m = RegularFile \<and> idata m = [] \<and>
            inodes w' = (inodes w)(d \<mapsto> add_entry tmp fd n, fd \<mapsto> m)))"
  using assms
proof (induction k arbitrary: w)
  case (Suc k)
  obtain x w1 where 1: "generate64 w = (x, w1)" by fastforce
  have w1: "inodes w1 = inodes w" "next_ino w1 = next_ino w" "open_fds w1 = open_fds w" "same_env w w1"
    using 1 by (auto simp: generate64_def same_env_def)
  obtain r2 w2 where 2: "openat_excl d (temp_name x) (modeFor kind) w1 = (r2, w2)" by fastforce
  show ?case
  proof (cases r2)
    case (Inr fd)
    then have r: "r = Inr (temp_name x, fd)" "w' = w2" using Suc.prems by (auto simp: 1 2)
    obtain n where n: "fd = next_ino w" "inodes w d = Some n" "map_of (ients n) (temp_name x) = None"
        "inodes w2 = (inodes w)(d \<mapsto> add_entry (temp_name x) fd n,
           fd \<mapsto> new_inode RegularFile (masked (modeFor kind) w1) n)"
        "same_env w w2" "next_ino w2 = next_ino w + 1" "open_fds w2 = open_fds w + 1"
      using openat_excl_result [OF 2] w1 Inr by (auto simp: same_env_def)
    have "ikind (new_inode RegularFile k n) = RegularFile" "idata (new_inode RegularFile k n) = []" for k n
      by (simp_all add: new_inode_def)
    then have "\<exists>n m. inodes w d = Some n \<and> map_of (ients n) (temp_name x) = None \<and>
        ikind m = RegularFile \<and> idata m = [] \<and>
        inodes w2 = (inodes w)(d \<mapsto> add_entry (temp_name x) fd n, fd \<mapsto> m)" using n by blast
    then show ?thesis using r n(1,5-7) by (simp, blast)
  next
    case (Inl e)
    have r2: "reads 0 w1 w2" using openat_excl_result [OF 2] Inl by simp
    have w2: "inodes w2 = inodes w" "next_ino w2 = next_ino w" "open_fds w2 = open_fds w" "same_env w w2"
      using w1 r2 same_env_trans [OF w1(4) reads_same_env [OF r2]] by (simp_all add: reads_fields)
    show ?thesis
    proof (cases "e = EEXIST")
      case True
      then have "create_temp k d name kind w2 = (r, w')" using Suc.prems Inl by (auto simp: 1 2)
      from Suc.IH [OF this, unfolded w2(1-3)] show ?thesis using same_env_trans [OF w2(4)] by blast
    next
      case False
      then show ?thesis using Suc.prems Inl w2 by (auto simp: 1 2)
    qed
  qed
qed auto

lemma write_loop_result:
  assumes "write_loop fd rest w = (r, w')" "inodes w fd = Some n"
  shows "same_env w w' \<and> next_ino w' = next_ino w \<and> open_fds w' = open_fds w \<and>
    (\<exists>m. inodes w' = (inodes w)(fd \<mapsto> m) \<and> ikind m = ikind n \<and>
       (r = Inr () \<longrightarrow> idata m = idata n @ rest))"
  using assms
proof (induction fd rest w arbitrary: n rule: write_loop.induct)
  case (1 fd rest w)
  show ?case
  proof (cases "rest = []")
    case True
    then show ?thesis using 1(2,3) by (auto simp: write_loop.simps intro!: exI [of _ n])
  next
    case False
    obtain r1 w1 where w1: "write_chunk fd rest w = (r1, w1)" by fastforce
    note c = write_chunk_result [OF w1]
    show ?thesis
    proof (cases r1)
      case (Inl e)
      then show ?thesis using 1(2,3) False c
        by (auto simp: write_loop.simps [of fd rest] w1 same_env_def intro!: exI [of _ n])
    next
      case (Inr k)
      let ?n = "n\<lparr>idata := idata n @ take k rest\<rparr>"
      have n1: "inodes w1 = (inodes w)(fd \<mapsto> ?n)" using c Inr 1(3) by auto
      show ?thesis
      proof (cases "k = 0")
        case True
        then show ?thesis using 1(2) False c Inr n1
          by (auto simp: write_loop.simps [of fd rest] w1 same_env_def)
      next
        case k: False
        have rec: "write_loop fd (drop k rest) w1 = (r, w')"
          using 1(2) False Inr k by (simp add: write_loop.simps [of fd rest] w1)
        have at: "inodes w1 fd = Some ?n" using n1 by simp
        have "idata ?n @ drop k rest = idata n @ rest" "ikind ?n = ikind n" by simp_all
        then obtain m where m: "same_env w1 w'" "next_ino w' = next_ino w1" "open_fds w' = open_fds w1"
          "inodes w' = (inodes w1)(fd \<mapsto> m)" "ikind m = ikind n"
          "r = Inr () \<longrightarrow> idata m = idata n @ rest"
          using 1(1) [OF False w1 [symmetric] Inr k rec at] by metis
        have "inodes w' = (inodes w)(fd \<mapsto> m)" using m(4) n1 by simp
        then show ?thesis using m c Inr by (auto simp: same_env_def)
      qed
    qed
  qed
qed

definition written :: "inode \<Rightarrow> qstring \<Rightarrow> ArtifactKind \<Rightarrow> bool" where
  "written m content kind \<longleftrightarrow>
     ikind m = RegularFile \<and> iuid m = 0 \<and> igid m = 0 \<and> imode m = modeFor kind \<and> idata m = content"

lemma fill_temp_result:
  assumes "fill_temp fd name content kind w = (r, w')" "inodes w fd = Some n"
    "ikind n = RegularFile" "idata n = []"
  shows "same_env w w' \<and> next_ino w' = next_ino w \<and> open_fds w' = open_fds w \<and>
    (\<exists>m. inodes w' = (inodes w)(fd \<mapsto> m) \<and> ikind m = RegularFile \<and> (r = Inr () \<longrightarrow> written m content kind))"
proof -
  obtain r1 w1 where 1: "write_loop fd content w = (r1, w1)" by fastforce
  obtain m1 where m1: "same_env w w1" "next_ino w1 = next_ino w" "open_fds w1 = open_fds w"
      "inodes w1 = (inodes w)(fd \<mapsto> m1)" "ikind m1 = RegularFile" "r1 = Inr () \<longrightarrow> idata m1 = content"
    using write_loop_result [OF 1 assms(2)] assms(3,4) by auto
  show ?thesis
  proof (cases r1)
    case (Inl e)
    then show ?thesis using assms(1) m1 by (auto simp: fill_temp_def 1)
  next
    case (Inr u)
    obtain r2 w2 where 2: "fchown fd 0 0 w1 = (r2, w2)" by fastforce
    show ?thesis
    proof (cases r2)
      case (Inl e)
      then show ?thesis using assms(1) m1 \<open>r1 = Inr u\<close> fchown_result [OF 2] same_env_trans [OF m1(1) reads_same_env]
        by (auto simp: fill_temp_def 1 2 reads_fields)
    next
      case (Inr v)
      let ?m2 = "m1\<lparr>iuid := 0, igid := 0\<rparr>"
      have m2: "same_env w w2" "next_ino w2 = next_ino w" "open_fds w2 = open_fds w"
          "inodes w2 = (inodes w)(fd \<mapsto> ?m2)"
        using fchown_result [OF 2] Inr m1 by (auto simp: same_env_def)
      obtain r3 w3 where 3: "fchmod fd (modeFor kind) w2 = (r3, w3)" by fastforce
      show ?thesis
      proof (cases r3)
        case (Inl e)
        then show ?thesis using assms(1) m1(5) m2 \<open>r1 = Inr u\<close> Inr fchmod_result [OF 3]
            same_env_trans [OF m2(1) reads_same_env]
          by (auto simp: fill_temp_def 1 2 3 reads_fields)
      next
        case (Inr x)
        let ?m3 = "?m2\<lparr>imode := modeFor kind\<rparr>"
        have m3: "same_env w w3" "next_ino w3 = next_ino w" "open_fds w3 = open_fds w"
            "inodes w3 = (inodes w)(fd \<mapsto> ?m3)"
          using fchmod_result [OF 3] Inr m2 by (auto simp: same_env_def)
        obtain r4 w4 where 4: "fsync fd w3 = (r4, w4)" by fastforce
        have m4: "same_env w w4" "next_ino w4 = next_ino w" "open_fds w4 = open_fds w"
            "inodes w4 = (inodes w)(fd \<mapsto> ?m3)"
          using fsync_reads [OF 4] m3 same_env_trans [OF m3(1) reads_same_env [OF fsync_reads [OF 4]]]
          by (simp_all add: reads_fields)
        have "w' = w4"
          using assms(1) \<open>r1 = Inr u\<close> \<open>r2 = Inr v\<close> Inr by (cases r4) (auto simp: fill_temp_def 1 2 3 4)
        then show ?thesis using m4 m1(5,6) \<open>r1 = Inr u\<close> by (auto simp: written_def)
      qed
    qed
  qed
qed

text \<open>
  The four ways a replacement can leave the directory: as it was; with the temporary file left
  behind; with the temporary file removed again; with the new file in place.
\<close>

definition tmp_left :: "'s world \<Rightarrow> nat \<Rightarrow> inode \<Rightarrow> inode \<Rightarrow> 64 word \<Rightarrow> nat \<Rightarrow> inode option" where
  "tmp_left w d n m x = (inodes w)(d \<mapsto> add_entry (temp_name x) (next_ino w) n, next_ino w \<mapsto> m)"

definition tmp_removed :: "'s world \<Rightarrow> nat \<Rightarrow> inode \<Rightarrow> inode \<Rightarrow> 64 word \<Rightarrow> nat \<Rightarrow> inode option" where
  "tmp_removed w d n m x =
     (inodes w)(d \<mapsto> remove_entry (temp_name x) (add_entry (temp_name x) (next_ino w) n), next_ino w \<mapsto> m)"

definition tmp_installed ::
    "qstring \<Rightarrow> 's world \<Rightarrow> nat \<Rightarrow> inode \<Rightarrow> inode \<Rightarrow> 64 word \<Rightarrow> nat \<Rightarrow> inode option" where
  "tmp_installed name w d n m x =
     (inodes w)(d \<mapsto> add_entry name (next_ino w)
         (remove_entry (temp_name x) (add_entry (temp_name x) (next_ino w) n)), next_ino w \<mapsto> m)"

lemma durableReplace_cases:
  assumes "durableReplace d name content kind w = (r, w')" "fresh_inodes w"
  shows "same_env w w' \<and> open_fds w' = open_fds w \<and>
    (inodes w' = inodes w \<and> next_ino w' = next_ino w \<and> (\<exists>e. r = Inl e) \<or>
     next_ino w' = next_ino w + 1 \<and>
     (\<exists>n m x. inodes w d = Some n \<and> map_of (ients n) (temp_name x) = None \<and> ikind m = RegularFile \<and>
        ((\<exists>e. r = Inl e) \<and> inodes w' = tmp_left w d n m x \<or>
         (\<exists>e. r = Inl e) \<and> inodes w' = tmp_removed w d n m x \<or>
         inodes w' = tmp_installed name w d n m x \<and> written m content kind)))"
proof (cases "isSingleComponent name")
  case True
  obtain r1 w1 where 1: "create_temp 8 d name kind w = (r1, w1)" by fastforce
  note c = create_temp_result [OF 1]
  show ?thesis
  proof (cases r1)
    case (Inl e)
    then show ?thesis using assms True c by (auto simp: durableReplace_def 1)
  next
    case (Inr p)
    obtain tmp fd where p: "p = (tmp, fd)" by (cases p)
    obtain x n m0 where m0: "fd = next_ino w" "tmp = temp_name x" "inodes w d = Some n"
        "map_of (ients n) tmp = None" "ikind m0 = RegularFile" "idata m0 = []"
        "inodes w1 = (inodes w)(d \<mapsto> add_entry tmp fd n, fd \<mapsto> m0)"
      using c Inr p by auto
    have w1: "next_ino w1 = next_ino w + 1" "open_fds w1 = open_fds w + 1" "same_env w w1"
      using c Inr p by auto
    obtain r2 w2 where 2: "fill_temp fd name content kind w1 = (r2, w2)" by fastforce
    obtain m where m: "same_env w1 w2" "next_ino w2 = next_ino w1" "open_fds w2 = open_fds w1"
        "inodes w2 = (inodes w1)(fd \<mapsto> m)" "ikind m = RegularFile" "r2 = Inr () \<longrightarrow> written m content kind"
      using fill_temp_result [OF 2, of m0] m0 by auto
    let ?w2 = "close_fd w2"
    have w2: "inodes ?w2 = (inodes w)(d \<mapsto> add_entry tmp fd n, fd \<mapsto> m)" "next_ino ?w2 = next_ino w + 1"
        "open_fds ?w2 = open_fds w" "same_env w ?w2"
      using m m0(7) w1 same_env_trans [OF w1(3) m(1)] by simp_all
    have gone: "same_env w v \<and> next_ino v = next_ino w + 1 \<and> open_fds v = open_fds w \<and>
        (inodes v = inodes ?w2 \<or> inodes v = (inodes w)(d \<mapsto> remove_entry tmp (add_entry tmp fd n), fd \<mapsto> m))"
      if "v = snd (unlinkat d tmp u)" "reads 0 ?w2 u" "d \<noteq> fd" for u v
    proof -
      obtain ru v' where "unlinkat d tmp u = (ru, v')" by fastforce
      then have ru: "unlinkat d tmp u = (ru, v)" using that(1) by simp
      have u: "inodes u = inodes ?w2" "next_ino u = next_ino w + 1" "open_fds u = open_fds w" "same_env w u"
        using that(2) w2 same_env_trans [OF w2(4) reads_same_env [OF that(2)]] by (auto simp: reads_fields)
      show ?thesis
      proof (cases ru)
        case (Inl e)
        then have "reads 0 u v" using unlinkat_result [OF ru] by simp
        then show ?thesis using u same_env_trans [OF u(4) reads_same_env] by (auto simp: reads_fields)
      next
        case (Inr z)
        then show ?thesis using unlinkat_result [OF ru] u that(3) w2(1)
          by (auto simp: same_env_def fun_upd_twist)
      qed
    qed
    have dfd: "d \<noteq> fd" using m0(1,3) assms(2) by (auto simp: fresh_inodes_def)
    note m0' = m0(3) m0(4) [unfolded m0(2)] m(5)
    show ?thesis
    proof (cases r2)
      case (Inl e)
      then have r: "r = Inl e" "w' = snd (unlinkat d tmp ?w2)"
        using assms True Inr p by (auto simp: durableReplace_def 1 2)
      have "inodes w' = tmp_left w d n m x \<or> inodes w' = tmp_removed w d n m x"
        using gone [OF r(2) reads_refl dfd] w2(1) m0(1,2) by (simp add: tmp_left_def tmp_removed_def)
      then show ?thesis using gone [OF r(2) reads_refl dfd] r(1) m0' by blast
    next
      case (Inr z)
      obtain r3 w3 where 3: "renameat d tmp name ?w2 = (r3, w3)" by fastforce
      show ?thesis
      proof (cases r3)
        case (Inl e)
        then have r: "r = Inl (DurCannotInstall name e)" "w' = snd (unlinkat d tmp w3)" "reads 0 ?w2 w3"
          using assms True \<open>r1 = Inr p\<close> p Inr renameat_result [OF 3] by (auto simp: durableReplace_def 1 2 3)
        have "inodes w' = tmp_left w d n m x \<or> inodes w' = tmp_removed w d n m x"
          using gone [OF r(2,3) dfd] w2(1) m0(1,2) by (simp add: tmp_left_def tmp_removed_def)
        then show ?thesis using gone [OF r(2,3) dfd] r(1) m0' by blast
      next
        case (Inr z')
        obtain r4 w4 where 4: "fsync d w3 = (r4, w4)" by fastforce
        have w4: "w' = w4" using assms True \<open>r1 = Inr p\<close> p \<open>r2 = Inr z\<close> Inr
          by (auto simp: durableReplace_def 1 2 3 4 split: sum.splits)
        have w3: "inodes w3 = tmp_installed name w d n m x" "same_env w w3"
            "next_ino w3 = next_ino w + 1" "open_fds w3 = open_fds w"
          using renameat_result [OF 3] Inr w2 dfd m0(1,2)
          by (simp_all add: tmp_installed_def same_env_def fun_upd_twist)
        have "written m content kind" using m(6) \<open>r2 = Inr z\<close> by simp
        then show ?thesis
          using w3 w4 m0' reads_fields [OF fsync_reads [OF 4]] same_env_trans [OF w3(2) reads_same_env [OF fsync_reads [OF 4]]]
          by (metis add.right_neutral)
      qed
    qed
  qed
qed (use assms in \<open>auto simp: durableReplace_def\<close>)

section \<open>The guarantees of the primitives\<close>

text \<open>What is found under a name, and what a reader accepts of it.\<close>

definition file_at :: "'s world \<Rightarrow> nat \<Rightarrow> qstring \<Rightarrow> inode option" where
  "file_at w d name = (case entry w d name of None \<Rightarrow> None | Some i \<Rightarrow> inodes w i)"

definition artifact :: "ArtifactKind \<Rightarrow> nat \<Rightarrow> 's world \<Rightarrow> qstring \<Rightarrow> qstring option" where
  "artifact kind d w name =
     (case file_at w d name of
        None \<Rightarrow> None
      | Some n \<Rightarrow>
          if ikind n = RegularFile \<and> iuid n = 0 \<and> imode n = modeFor kind then Some (idata n) else None)"

text \<open>A directory whose entries lead to existing files other than itself.\<close>

definition dir_ok :: "'s world \<Rightarrow> nat \<Rightarrow> bool" where
  "dir_ok w d \<longleftrightarrow>
     (\<exists>n. inodes w d = Some n \<and> (\<forall>x j. map_of (ients n) x = Some j \<longrightarrow> j \<noteq> d \<and> inodes w j \<noteq> None))"

definition is_temp_name :: "qstring \<Rightarrow> bool" where
  "is_temp_name x \<longleftrightarrow> take (length temp_prefix) x = temp_prefix"

lemma temp_name_is_temp [simp]: "is_temp_name (temp_name x)"
  by (simp add: is_temp_name_def temp_name_def)

lemma file_at_close [simp]: "file_at (close_fd w) d x = file_at w d x"
  by (simp add: file_at_def cong: option.case_cong)

lemma file_at_same: "inodes w' = inodes w \<Longrightarrow> file_at w' d x = file_at w d x"
  by (simp add: file_at_def entry_def cong: option.case_cong)

lemma written_artifact:
  "file_at w d name = Some m \<Longrightarrow> written m content kind \<Longrightarrow> artifact kind d w name = Some content"
  by (simp add: artifact_def written_def)

text \<open>The effect of a replacement on the inodes, one case at a time.\<close>

lemma tmp_inodes:
  assumes "fresh_inodes w" "inodes w d = Some n" "inodes w' \<in> {tmp_left w d n m x, tmp_removed w d n m x, tmp_installed name w d n m x}"
  shows "i \<noteq> d \<Longrightarrow> inodes w i = Some k \<Longrightarrow> inodes w' i = Some k"
  using assms by (auto simp: tmp_left_def tmp_removed_def tmp_installed_def fresh_inodes_def)

lemma tmp_file_at:
  assumes "fresh_inodes w" "dir_ok w d" "inodes w d = Some n" "\<not> is_temp_name y"
  shows "inodes w' = tmp_left w d n m x \<Longrightarrow> file_at w' d y = file_at w d y"
    "inodes w' = tmp_removed w d n m x \<Longrightarrow> file_at w' d y = file_at w d y"
    "inodes w' = tmp_installed name w d n m x \<Longrightarrow>
       file_at w' d y = (if y = name then Some m else file_at w d y)"
proof -
  have y: "y \<noteq> temp_name x" using assms(4) by auto
  have ne: "next_ino w \<noteq> d" using assms(1,3) by (auto simp: fresh_inodes_def)
  have j: "j \<noteq> d \<and> j \<noteq> next_ino w" if "map_of (ients n) y = Some j" for j
  proof -
    have "inodes w (next_ino w) = None" using assms(1) by (simp add: fresh_inodes_def)
    moreover have "j \<noteq> d \<and> inodes w j \<noteq> None" using assms(2,3) that by (auto simp: dir_ok_def)
    ultimately show ?thesis by metis
  qed
  show "inodes w' = tmp_left w d n m x \<Longrightarrow> file_at w' d y = file_at w d y"
    "inodes w' = tmp_removed w d n m x \<Longrightarrow> file_at w' d y = file_at w d y"
    "inodes w' = tmp_installed name w d n m x \<Longrightarrow>
       file_at w' d y = (if y = name then Some m else file_at w d y)"
    using assms(3) ne y j
    by (auto simp: file_at_def entry_def tmp_left_def tmp_removed_def tmp_installed_def split: option.splits)
qed

lemma tmp_ok:
  assumes "fresh_inodes w" "dir_ok w d" "inodes w d = Some n" "next_ino w' = next_ino w + 1"
    "inodes w' \<in> {tmp_left w d n m x, tmp_removed w d n m x, tmp_installed name w d n m x}"
  shows "fresh_inodes w' \<and> dir_ok w' d"
proof -
  have "d < next_ino w" using assms(1,3)
    by (metis fresh_inodes_def linorder_not_le option.distinct(1))
  then show ?thesis using assms
    by (auto simp: fresh_inodes_def dir_ok_def tmp_left_def tmp_removed_def tmp_installed_def)
qed

lemma durableReplace_effect:
  assumes "durableReplace d name content kind w = (r, w')"
    and "fresh_inodes w" "dir_ok w d" "\<not> is_temp_name name"
  shows "((\<exists>e. r = Inl e) \<and> file_at w' d name = file_at w d name \<or>
      (\<exists>m. file_at w' d name = Some m \<and> written m content kind)) \<and>
    (\<forall>y. y \<noteq> name \<longrightarrow> \<not> is_temp_name y \<longrightarrow> file_at w' d y = file_at w d y) \<and>
    (\<forall>i n. i \<noteq> d \<longrightarrow> inodes w i = Some n \<longrightarrow> inodes w' i = Some n) \<and>
    open_fds w' = open_fds w"
proof -
  from durableReplace_cases [OF assms(1,2)] have fds: "open_fds w' = open_fds w" by blast
  note y = assms(4)
  from durableReplace_cases [OF assms(1,2)] consider (same) "inodes w' = inodes w" "\<exists>e. r = Inl e"
    | (left) n m x where "inodes w d = Some n" "\<exists>e. r = Inl e" "inodes w' = tmp_left w d n m x"
    | (removed) n m x where "inodes w d = Some n" "\<exists>e. r = Inl e" "inodes w' = tmp_removed w d n m x"
    | (installed) n m x where "inodes w d = Some n" "inodes w' = tmp_installed name w d n m x" "written m content kind"
    by blast
  then show ?thesis
  proof cases
    case same
    then show ?thesis using fds file_at_same by metis
  next
    case left
    then show ?thesis
      using tmp_file_at(1) [OF assms(2,3) left(1) _ left(3)] tmp_inodes [OF assms(2) left(1), of w'] fds y by blast
  next
    case removed
    then show ?thesis
      using tmp_file_at(2) [OF assms(2,3) removed(1) _ removed(3)] tmp_inodes [OF assms(2) removed(1), of w'] fds y
      by blast
  next
    case (installed n m x)
    have at: "file_at w' d y = (if y = name then Some m else file_at w d y)" if "\<not> is_temp_name y" for y
      using tmp_file_at(3) [OF assms(2,3) installed(1) that installed(2)] .
    have "file_at w' d name = Some m" using at [OF y] by simp
    moreover have "\<forall>y. y \<noteq> name \<longrightarrow> \<not> is_temp_name y \<longrightarrow> file_at w' d y = file_at w d y" using at by simp
    ultimately show ?thesis using tmp_inodes [OF assms(2) installed(1), of w'] installed fds by blast
  qed
qed

text \<open>C10. \<open>durableReplace\<close> is atomic whatever fails on the way, short writes and a failing \<open>fsync\<close>
  included: afterwards the name leads either to what it led to before, and then an error was
  returned, or to a complete root-owned file with exactly the new contents and the mode of its
  kind.  No other file of the directory changes, apart from temporary ones, no file outside it is
  touched, and no descriptor stays open.\<close>
theorem durableReplace_atomic:
  assumes "durableReplace d name content kind w = (r, w')"
    and "fresh_inodes w" "dir_ok w d" "\<not> is_temp_name name"
  shows "((\<exists>e. r = Inl e) \<and> file_at w' d name = file_at w d name \<or>
      (\<exists>m. file_at w' d name = Some m \<and> written m content kind)) \<and>
    (\<forall>y. y \<noteq> name \<longrightarrow> \<not> is_temp_name y \<longrightarrow> file_at w' d y = file_at w d y) \<and>
    (\<forall>i n. i \<noteq> d \<longrightarrow> inodes w i = Some n \<longrightarrow> inodes w' i = Some n) \<and>
    open_fds w' = open_fds w"
  using durableReplace_effect [OF assms] .

lemma durableReplace_ok:
  assumes "durableReplace d name content kind w = (r, w')" "fresh_inodes w" "dir_ok w d"
  shows "fresh_inodes w' \<and> dir_ok w' d"
proof -
  from durableReplace_cases [OF assms(1,2)] consider "inodes w' = inodes w" "next_ino w' = next_ino w"
    | n m x where "inodes w d = Some n" "next_ino w' = next_ino w + 1"
      "inodes w' \<in> {tmp_left w d n m x, tmp_removed w d n m x, tmp_installed name w d n m x}" by blast
  then show ?thesis
  proof cases
    case 1
    then show ?thesis using assms(2,3) by (simp add: fresh_inodes_def dir_ok_def)
  next
    case 2
    then show ?thesis using tmp_ok [OF assms(2,3)] by blast
  qed
qed

lemma durableUnlink_cases:
  assumes "durableUnlink d name allow w = (r, w')"
  shows "same_env w w' \<and> next_ino w' = next_ino w \<and> open_fds w' = open_fds w \<and>
    (inodes w' = inodes w \<and> (r = Inr () \<longrightarrow> allow \<and> entry w d name = None) \<or>
     (\<exists>n. inodes w d = Some n \<and> inodes w' = (inodes w)(d \<mapsto> remove_entry name n)))"
proof (cases "isSingleComponent name")
  case True
  obtain r1 w1 where 1: "unlinkat d name w = (r1, w1)" by fastforce
  note u = unlinkat_result [OF 1]
  show ?thesis
  proof (cases r1)
    case (Inl e)
    then show ?thesis using assms True u reads_same_env [of 0 w w1]
      by (auto simp: durableUnlink_def 1 reads_fields split: if_splits)
  next
    case (Inr x)
    obtain r2 w2 where 2: "fsync d w1 = (r2, w2)" by fastforce
    have "w' = w2" using assms True Inr by (auto simp: durableUnlink_def 1 2 split: sum.splits)
    then show ?thesis using u Inr fsync_reads [OF 2]
      by (auto simp: reads_fields same_env_def)
  qed
qed (use assms in \<open>auto simp: durableUnlink_def\<close>)

lemma durableUnlink_ok:
  assumes "durableUnlink d name allow w = (r, w')" "fresh_inodes w" "dir_ok w d"
  shows "fresh_inodes w' \<and> dir_ok w' d"
  using durableUnlink_cases [OF assms(1)] assms(2,3)
  by (auto simp: fresh_inodes_def dir_ok_def)

lemma durableUnlink_effect:
  assumes "durableUnlink d name True w = (r, w')" and "fresh_inodes w" "dir_ok w d"
  shows "(if r = Inr () then file_at w' d name = None
      else file_at w' d name \<in> {None, file_at w d name}) \<and>
    (\<forall>y. y \<noteq> name \<longrightarrow> file_at w' d y = file_at w d y) \<and> open_fds w' = open_fds w"
proof -
  note c = durableUnlink_cases [OF assms(1)]
  from c consider "inodes w' = inodes w" "r = Inr () \<longrightarrow> entry w d name = None"
    | n where "inodes w d = Some n" "inodes w' = (inodes w)(d \<mapsto> remove_entry name n)" by blast
  then show ?thesis
  proof cases
    case 1
    then show ?thesis using c file_at_same [OF 1(1)] by (auto simp: file_at_def)
  next
    case 2
    have "file_at w' d name = None" using 2 by (simp add: file_at_def entry_def)
    moreover have "file_at w' d y = file_at w d y" if "y \<noteq> name" for y
      using 2 assms(3) that by (auto simp: file_at_def entry_def dir_ok_def split: option.splits)
    ultimately show ?thesis using c by simp
  qed
qed

text \<open>\<open>durableUnlink\<close> with \<open>allowMissing\<close>: when it reports success the name is gone; when it reports
  a failure the name is gone or leads to what it led to; every other name is left alone.\<close>
theorem durableUnlink_removes:
  assumes "durableUnlink d name True w = (r, w')" and "fresh_inodes w" "dir_ok w d"
  shows "(if r = Inr () then file_at w' d name = None
      else file_at w' d name \<in> {None, file_at w d name}) \<and>
    (\<forall>y. y \<noteq> name \<longrightarrow> file_at w' d y = file_at w d y) \<and> open_fds w' = open_fds w"
  using durableUnlink_effect [OF assms] .

section \<open>A durable store as an interface\<close>

text \<open>
  What the callers rely on, without the directory behind it: a replacement or a removal either has
  its full effect or none, says so when it is certain, and leaves the other names alone.
\<close>

datatype ('k, 'v) store_op = Put 'k 'v | Del 'k

fun op_key :: "('k, 'v) store_op \<Rightarrow> 'k" where
  "op_key (Put k v) = k"
| "op_key (Del k) = k"

fun op_value :: "('k, 'v) store_op \<Rightarrow> 'v option" where
  "op_value (Put k v) = Some v"
| "op_value (Del k) = None"

text \<open>Operations in order, up to the first that fails.\<close>

fun run_script ::
    "('k \<Rightarrow> 'v \<Rightarrow> 'w \<Rightarrow> bool \<times> 'w) \<Rightarrow> ('k \<Rightarrow> 'w \<Rightarrow> bool \<times> 'w) \<Rightarrow> ('k, 'v) store_op list \<Rightarrow>
     'w \<Rightarrow> bool \<times> 'w" where
  "run_script put del [] w = (True, w)"
| "run_script put del (x # xs) w =
     (case (case x of Put k v \<Rightarrow> put k v w | Del k \<Rightarrow> del k w) of
        (False, w') \<Rightarrow> (False, w') | (True, w') \<Rightarrow> run_script put del xs w')"

text \<open>The value a script leaves under a key when it succeeds.\<close>

definition script_value :: "('k, 'v) store_op list \<Rightarrow> 'k \<Rightarrow> 'v option \<Rightarrow> 'v option" where
  "script_value xs k v = foldl (\<lambda>u x. if op_key x = k then op_value x else u) v xs"

locale file_store =
  fixes lookup :: "'w \<Rightarrow> 'k \<Rightarrow> 'v option"
    and put :: "'k \<Rightarrow> 'v \<Rightarrow> 'w \<Rightarrow> bool \<times> 'w"
    and del :: "'k \<Rightarrow> 'w \<Rightarrow> bool \<times> 'w"
    and ok :: "'w \<Rightarrow> bool"
    and valid :: "'k \<Rightarrow> bool"
  assumes put_ok: "ok w \<Longrightarrow> valid k \<Longrightarrow> put k v w = (b, w') \<Longrightarrow> ok w'"
    and put_same: "ok w \<Longrightarrow> valid k \<Longrightarrow> put k v w = (b, w') \<Longrightarrow>
      lookup w' k = Some v \<or> \<not> b \<and> lookup w' k = lookup w k"
    and put_other: "ok w \<Longrightarrow> valid k \<Longrightarrow> put k v w = (b, w') \<Longrightarrow> valid j \<Longrightarrow> j \<noteq> k \<Longrightarrow>
      lookup w' j = lookup w j"
    and del_ok: "ok w \<Longrightarrow> valid k \<Longrightarrow> del k w = (b, w') \<Longrightarrow> ok w'"
    and del_same: "ok w \<Longrightarrow> valid k \<Longrightarrow> del k w = (b, w') \<Longrightarrow>
      lookup w' k = None \<or> \<not> b \<and> lookup w' k = lookup w k"
    and del_other: "ok w \<Longrightarrow> valid k \<Longrightarrow> del k w = (b, w') \<Longrightarrow> valid j \<Longrightarrow> j \<noteq> k \<Longrightarrow>
      lookup w' j = lookup w j"
begin

definition step :: "('k, 'v) store_op \<Rightarrow> 'w \<Rightarrow> bool \<times> 'w" where
  "step x w = (case x of Put k v \<Rightarrow> put k v w | Del k \<Rightarrow> del k w)"

lemma run_step:
  "run_script put del (x # xs) w =
    (case step x w of (False, w') \<Rightarrow> (False, w') | (True, w') \<Rightarrow> run_script put del xs w')"
  by (simp add: step_def)

lemma step_laws:
  assumes "ok w" "valid (op_key x)" "step x w = (b, w')"
  shows "ok w' \<and> (lookup w' (op_key x) = op_value x \<or> \<not> b \<and> lookup w' (op_key x) = lookup w (op_key x)) \<and>
    (\<forall>j. valid j \<longrightarrow> j \<noteq> op_key x \<longrightarrow> lookup w' j = lookup w j)"
proof (cases x)
  case (Put k v)
  then have p: "valid k" "put k v w = (b, w')" using assms(2,3) by (simp_all add: step_def)
  show ?thesis unfolding Put
    using put_ok [OF assms(1) p] put_same [OF assms(1) p] put_other [OF assms(1) p] by auto
next
  case (Del k)
  then have p: "valid k" "del k w = (b, w')" using assms(2,3) by (simp_all add: step_def)
  show ?thesis unfolding Del
    using del_ok [OF assms(1) p] del_same [OF assms(1) p] del_other [OF assms(1) p] by auto
qed

lemma script_atomic:
  assumes "ok w" "\<forall>x\<in>set xs. valid (op_key x)" "run_script put del xs w = (b, w')" "valid k"
  shows "ok w' \<and> lookup w' k \<in> insert (lookup w k) (op_value ` {x \<in> set xs. op_key x = k})"
  using assms
proof (induction xs arbitrary: w)
  case (Cons x xs)
  obtain c w1 where 1: "step x w = (c, w1)" by fastforce
  have l: "ok w1 \<and> (lookup w1 (op_key x) = op_value x \<or> lookup w1 (op_key x) = lookup w (op_key x)) \<and>
    (\<forall>j. valid j \<longrightarrow> j \<noteq> op_key x \<longrightarrow> lookup w1 j = lookup w j)"
    using step_laws [OF Cons.prems(1) _ 1] Cons.prems(2) by auto
  show ?case
  proof (cases c)
    case True
    then have "run_script put del xs w1 = (b, w')" using Cons.prems(3) 1 by (simp only: run_step) simp
    then show ?thesis using Cons.IH [of w1] Cons.prems(2,4) l by (cases "op_key x = k") auto
  next
    case False
    then have "w' = w1" using Cons.prems(3) 1 by (simp only: run_step) simp
    then show ?thesis using l Cons.prems(4) by (cases "op_key x = k") auto
  qed
qed simp

lemma script_success:
  assumes "ok w" "\<forall>x\<in>set xs. valid (op_key x)" "run_script put del xs w = (True, w')" "valid k"
  shows "lookup w' k = script_value xs k (lookup w k)"
  using assms
proof (induction xs arbitrary: w)
  case (Cons x xs)
  obtain c w1 where 1: "step x w = (c, w1)" by fastforce
  have c: "c" "run_script put del xs w1 = (True, w')"
    using Cons.prems(3) 1 by (simp_all only: run_step) (auto split: bool.splits)
  have "ok w1 \<and> lookup w1 (op_key x) = op_value x \<and>
    (\<forall>j. valid j \<longrightarrow> j \<noteq> op_key x \<longrightarrow> lookup w1 j = lookup w j)"
    using step_laws [OF Cons.prems(1) _ 1] Cons.prems(2) c(1) by auto
  then show ?case using Cons.IH [OF _ _ c(2)] Cons.prems(2,4) by (auto simp: script_value_def)
qed (simp add: script_value_def)

end

text \<open>A root-owned directory with the two primitives is such a store, for names that are not temporary.\<close>

definition put_file :: "ArtifactKind \<Rightarrow> nat \<Rightarrow> qstring \<Rightarrow> qstring \<Rightarrow> 's world \<Rightarrow> bool \<times> 's world" where
  "put_file kind d name content w = (case durableReplace d name content kind w of (r, w') \<Rightarrow> (\<not> isl r, w'))"

definition del_file :: "nat \<Rightarrow> qstring \<Rightarrow> 's world \<Rightarrow> bool \<times> 's world" where
  "del_file d name w = (case durableUnlink d name True w of (r, w') \<Rightarrow> (\<not> isl r, w'))"

definition store_ok :: "nat \<Rightarrow> 's world \<Rightarrow> bool" where
  "store_ok d w \<longleftrightarrow> fresh_inodes w \<and> dir_ok w d"

lemma isl_unit: "(r :: 'a + unit) = Inr () \<longleftrightarrow> \<not> isl r"
  by (cases r) auto

lemma artifact_file_at: "file_at w' d k = file_at w d k \<Longrightarrow> artifact kind d w' k = artifact kind d w k"
  by (simp add: artifact_def)

interpretation artifacts: file_store "artifact kind d" "put_file kind d" "del_file d" "store_ok d"
    "\<lambda>name. \<not> is_temp_name name" for kind and d
proof
  fix w w' :: "'s world" and k v b
  assume a: "store_ok d w" "\<not> is_temp_name k" "put_file kind d k v w = (b, w')"
  then obtain r where r: "durableReplace d k v kind w = (r, w')" "b = (\<not> isl r)"
    by (auto simp: put_file_def split: prod.splits)
  have w: "fresh_inodes w" "dir_ok w d" using a(1) by (simp_all add: store_ok_def)
  show "store_ok d w'" using durableReplace_ok [OF r(1) w] by (simp add: store_ok_def)
  show "artifact kind d w' k = Some v \<or> \<not> b \<and> artifact kind d w' k = artifact kind d w k"
  proof (cases "\<exists>m. file_at w' d k = Some m \<and> written m v kind")
    case True
    then show ?thesis using written_artifact by blast
  next
    case False
    then have "(\<exists>e. r = Inl e) \<and> file_at w' d k = file_at w d k"
      using durableReplace_effect [OF r(1) w a(2)] by blast
    then show ?thesis using r(2) artifact_file_at by auto
  qed
  show "artifact kind d w' j = artifact kind d w j" if "\<not> is_temp_name j" "j \<noteq> k" for j
    using durableReplace_effect [OF r(1) w a(2)] that artifact_file_at by blast
next
  fix w w' :: "'s world" and k b
  assume a: "store_ok d w" "\<not> is_temp_name k" "del_file d k w = (b, w')"
  then obtain r where r: "durableUnlink d k True w = (r, w')" "b = (\<not> isl r)"
    by (auto simp: del_file_def split: prod.splits)
  have w: "fresh_inodes w" "dir_ok w d" using a(1) by (simp_all add: store_ok_def)
  note u = durableUnlink_effect [OF r(1) w]
  have none: "file_at v d k = None \<Longrightarrow> artifact kind d v k = None" for v :: "'s world"
    by (simp add: artifact_def)
  show "store_ok d w'" using durableUnlink_ok [OF r(1) w] by (simp add: store_ok_def)
  show "artifact kind d w' k = None \<or> \<not> b \<and> artifact kind d w' k = artifact kind d w k"
    using u r(2) none artifact_file_at [of w' d k w] by (auto simp: isl_unit split: if_splits)
  show "artifact kind d w' j = artifact kind d w j" if "\<not> is_temp_name j" "j \<noteq> k" for j
    using u that artifact_file_at by blast
qed

text \<open>C11. A sequence of replacements and removals in one root-owned directory, run up to its first
  failure as the operations do: however it ends, every artifact of the directory is what it was or
  what one of the operations on it makes of it, never a mixture; and when the whole sequence
  succeeds every artifact is what the last operation on it makes of it.\<close>
theorem artifact_script:
  assumes "run_script (put_file kind d) (del_file d) ops w = (b, w')"
    and "store_ok d w" "\<forall>x \<in> set ops. \<not> is_temp_name (op_key x)" "\<not> is_temp_name k"
  shows "artifact kind d w' k \<in> insert (artifact kind d w k) (op_value ` {x \<in> set ops. op_key x = k}) \<and>
    (b \<longrightarrow> artifact kind d w' k = script_value ops k (artifact kind d w k))"
proof (cases b)
  case True
  then show ?thesis
    using artifacts.script_atomic [OF assms(2,3,1,4)] artifacts.script_success [OF assms(2,3) _ assms(4)] assms(1)
    by simp
next
  case False
  then show ?thesis using artifacts.script_atomic [OF assms(2,3,1,4)] by simp
qed

section \<open>Reading back\<close>

lemma verifyDescriptor_result:
  assumes "verifyDescriptor fd t u m w = (r, w')"
  shows "reads 0 w w' \<and> (r = Inr () \<longrightarrow> (\<exists>n. inodes w fd = Some n \<and>
    ikind n = (if t = Directory then DirectoryFile else RegularFile) \<and> iuid n = u \<and> imode n = m))"
proof -
  obtain r1 w1 where 1: "fstat fd w = (r1, w1)" by fastforce
  show ?thesis using assms fstat_result [OF 1]
    by (cases r1) (auto simp: verifyDescriptor_def 1 split: if_splits)
qed

lemma read_loop_result:
  assumes "read_loop fd len acc w = (r, w')" "inodes w fd = Some n" "prefix acc (idata n)"
  shows "reads 0 w w' \<and> (\<forall>bs. r = Inr bs \<longrightarrow> prefix bs (idata n))"
  using assms
proof (induction fd len acc w rule: read_loop.induct)
  case (1 fd len acc w)
  show ?case
  proof (cases "length acc < len")
    case False
    then show ?thesis using 1(2,4) by (auto simp: read_loop.simps [of fd len acc])
  next
    case True
    obtain r1 w1 where w1: "read_chunk fd (length acc) (len - length acc) w = (r1, w1)" by fastforce
    note c = read_chunk_result [OF w1]
    show ?thesis
    proof (cases r1)
      case (Inl e)
      then show ?thesis using 1(2) True c by (auto simp: read_loop.simps [of fd len acc] w1)
    next
      case (Inr bs)
      then obtain k where k: "bs = take k (drop (length acc) (idata n))" using c 1(3) by auto
      show ?thesis
      proof (cases "bs = []")
        case True
        then show ?thesis using 1(2,4) \<open>length acc < len\<close> c Inr by (auto simp: read_loop.simps [of fd len acc] w1)
      next
        case False
        have rec: "read_loop fd len (acc @ bs) w1 = (r, w')"
          using 1(2) True Inr False by (simp add: read_loop.simps [of fd len acc] w1)
        have "prefix (acc @ bs) (idata n)"
          using 1(4) k by (auto simp: prefix_def) (metis append_take_drop_id)
        moreover have "inodes w1 fd = Some n" using reads_fields(1) [OF conjunct1 [OF c]] 1(3) by simp
        ultimately show ?thesis
          using 1(1) [OF True w1 [symmetric] Inr False rec] reads_0_trans c by blast
      qed
    qed
  qed
qed

lemma read_loop_works:
  assumes "sched w = []" "inodes w fd = Some n"
  shows "read_loop fd (length (idata n)) [] w = (Inr (idata n), w)"
proof (cases "idata n = []")
  case True
  then show ?thesis by (simp add: read_loop.simps)
next
  case False
  have "read_chunk fd 0 (length (idata n)) w = (Inr (idata n), w)"
    using assms by (simp add: read_chunk_def)
  moreover have "read_loop fd (length (idata n)) (idata n) w = (Inr (idata n), w)"
    by (simp add: read_loop.simps)
  ultimately show ?thesis using False by (subst read_loop.simps) simp
qed

lemma readFileBounded_result:
  assumes "readFileBounded d name maxBytes kind w = (r, w')"
  shows "reads 0 w w' \<and>
    (\<forall>content. r = Inr content \<longrightarrow>
       (\<exists>n. file_at w d name = Some n \<and> ikind n = RegularFile \<and> iuid n = 0 \<and> imode n = modeFor kind \<and>
          prefix content (idata n) \<and> length content \<le> maxBytes))"
proof (cases "isSingleComponent name")
  case True
  obtain r1 w1 where 1: "openat_file d name w = (r1, w1)" by fastforce
  show ?thesis
  proof (cases r1)
    case (Inl e)
    then show ?thesis using assms True openat_file_result [OF 1] by (auto simp: readFileBounded_def 1)
  next
    case (Inr fd)
    then have o: "reads 1 w w1" "entry w d name = Some fd" using openat_file_result [OF 1] by auto
    have closing: "reads 0 w (close_fd v)" if "reads 0 w1 v" for v
      using reads_trans [OF reads_trans [OF o(1) that] reads_close] by simp
    obtain r2 w2 where 2: "verifyDescriptor fd Regular 0 (modeFor kind) w1 = (r2, w2)" by fastforce
    have w2: "reads 0 w1 w2" using verifyDescriptor_result [OF 2] by simp
    obtain r3 w3 where 3: "fstat fd w2 = (r3, w3)" by fastforce
    have w3: "reads 0 w1 w3" using fstat_result [OF 3] reads_0_trans [OF w2] by simp
    show ?thesis
    proof (cases "\<exists>st. r2 = Inr () \<and> r3 = Inr st \<and> length (idata st) \<le> maxBytes")
      case False
      then have "(\<exists>e. r = Inl e) \<and> (w' = close_fd w2 \<or> w' = close_fd w3)"
        using assms True Inr by (cases r2; cases r3) (auto simp: readFileBounded_def 1 2 3 split: if_splits)
      then show ?thesis using closing [OF w2] closing [OF w3] by auto
    next
      case ok: True
      then obtain st where st: "r2 = Inr ()" "r3 = Inr st" "length (idata st) \<le> maxBytes" by blast
      have n: "inodes w fd = Some st" "ikind st = RegularFile" "iuid st = 0" "imode st = modeFor kind"
        using verifyDescriptor_result [OF 2] fstat_result [OF 3] st o(1) w2 by (auto simp: reads_fields)
      obtain r4 w4 where 4: "read_loop fd (length (idata st)) [] w3 = (r4, w4)" by fastforce
      have at: "inodes w3 fd = Some st" using n(1) o(1) w3 by (simp add: reads_fields)
      note l = read_loop_result [OF 4 at]
      have "w' = close_fd w4 \<and> (\<forall>c. r = Inr c \<longrightarrow> r4 = Inr c)"
        using assms True Inr st by (cases r4) (auto simp: readFileBounded_def 1 2 3 4)
      then show ?thesis using l closing [OF reads_0_trans [OF w3]] n o(2) st(3)
        by (auto simp: file_at_def dest: prefix_length_le [THEN order_trans])
    qed
  qed
qed (use assms in \<open>auto simp: readFileBounded_def\<close>)

text \<open>\<open>readFileBounded\<close> changes nothing, closes what it opened, and what it returns is at most
  \<open>maxBytes\<close> bytes from the start of a regular file of root with exactly the mode of its kind.\<close>
theorem readFileBounded_sound:
  assumes "readFileBounded d name maxBytes kind w = (r, w')"
  shows "reads 0 w w' \<and>
    (\<forall>content. r = Inr content \<longrightarrow>
       (\<exists>n. file_at w d name = Some n \<and> ikind n = RegularFile \<and> iuid n = 0 \<and> imode n = modeFor kind \<and>
          prefix content (idata n) \<and> length content \<le> maxBytes))"
  using readFileBounded_result [OF assms] .

text \<open>What \<open>durableReplace\<close> reported as installed is what \<open>readFileBounded\<close> returns, unless a call
  fails in between: for every later state in which the files are unchanged.\<close>
theorem replace_then_read:
  assumes "durableReplace d name content kind w = (Inr (), w1)"
    and "fresh_inodes w" "dir_ok w d" "\<not> is_temp_name name"
    and "reads k w1 w2" "sched w2 = []" "length content \<le> maxBytes"
  shows "\<exists>w3. readFileBounded d name maxBytes kind w2 = (Inr content, w3)"
proof -
  have s: "isSingleComponent name" using assms(1) by (auto simp: durableReplace_def split: if_splits)
  obtain m where "file_at w1 d name = Some m" "written m content kind"
    using durableReplace_effect [OF assms(1-4)] by auto
  then obtain i where i: "entry w2 d name = Some i" "inodes w2 i = Some m"
      "ikind m = RegularFile" "iuid m = 0" "imode m = modeFor kind" "idata m = content"
    using assms(5) by (auto simp: file_at_def written_def reads_entry reads_fields split: option.splits)
  let ?w = "w2\<lparr>open_fds := open_fds w2 + 1\<rparr>"
  have "openat_file d name w2 = (Inr i, ?w)"
    using i assms(6) by (simp add: openat_file_def opened_def)
  moreover have "verifyDescriptor i Regular 0 (modeFor kind) ?w = (Inr (), ?w)" "fstat i ?w = (Inr m, ?w)"
    using i assms(6) by (simp_all add: verifyDescriptor_def fstat_def)
  moreover have "read_loop i (length content) [] ?w = (Inr content, ?w)"
    using read_loop_works [of ?w i m] i assms(6) by simp
  ultimately show ?thesis using s i(6) assms(7) by (simp add: readFileBounded_def)
qed

section \<open>Removing a tree removes only what it may\<close>

definition removable :: "ArtifactKind \<Rightarrow> inode \<Rightarrow> bool" where
  "removable kind n \<longleftrightarrow> ikind n = RegularFile \<and> iuid n = 0 \<and> imode n = modeFor kind"

text \<open>Directory \<open>dir\<close> lost entries at most, and only such as lead to removable files.\<close>

definition cleared :: "ArtifactKind \<Rightarrow> nat \<Rightarrow> 's world \<Rightarrow> 's world \<Rightarrow> bool" where
  "cleared kind dir w w' \<longleftrightarrow>
     (\<forall>i. i \<noteq> dir \<longrightarrow> inodes w' i = inodes w i) \<and>
     (\<forall>n. inodes w dir = Some n \<longrightarrow>
        (\<exists>n'. inodes w' dir = Some n' \<and> ikind n' = ikind n \<and> iuid n' = iuid n \<and> imode n' = imode n)) \<and>
     (\<forall>x. entry w' dir x = entry w dir x \<or>
        entry w' dir x = None \<and> (\<exists>m. file_at w dir x = Some m \<and> removable kind m))"

lemma cleared_refl [simp]: "cleared kind dir w w"
  by (simp add: cleared_def)

lemma cleared_same: "inodes w' = inodes w \<Longrightarrow> cleared kind dir w w'"
  by (simp add: cleared_def entry_def)

lemma cleared_trans:
  assumes "cleared kind dir w w1" "cleared kind dir w1 w'" "inodes w dir = Some n" "ikind n = DirectoryFile"
  shows "cleared kind dir w w'"
proof -
  obtain n1 where n1: "inodes w1 dir = Some n1" "ikind n1 = DirectoryFile"
    using assms(1,3,4) by (auto simp: cleared_def)
  have same_file: "file_at w dir x = Some m" if e: "entry w1 dir x = entry w dir x" and f: "file_at w1 dir x = Some m"
    and rm: "removable kind m" for x m
  proof -
    from e f obtain c where c: "entry w dir x = Some c" "inodes w1 c = Some m"
      by (auto simp: file_at_def split: option.splits)
    then have "c \<noteq> dir" using n1 rm by (auto simp: removable_def)
    then show ?thesis using c assms(1) by (simp add: file_at_def cleared_def)
  qed
  have "entry w' dir x = entry w dir x \<or>
        entry w' dir x = None \<and> (\<exists>m. file_at w dir x = Some m \<and> removable kind m)" for x
    using assms(1,2) same_file unfolding cleared_def by metis
  moreover have "\<forall>i. i \<noteq> dir \<longrightarrow> inodes w' i = inodes w i" using assms(1,2) by (simp add: cleared_def)
  moreover have "\<exists>n'. inodes w' dir = Some n' \<and> ikind n' = ikind n \<and> iuid n' = iuid n \<and> imode n' = imode n"
    using assms(1-3) by (fastforce simp: cleared_def)
  ultimately show ?thesis using assms(3) by (simp add: cleared_def)
qed

lemma clear_entries_result:
  assumes "clear_entries dir name kind xs w = (r, w')" "inodes w dir = Some n" "ikind n = DirectoryFile"
  shows "cleared kind dir w w' \<and> open_fds w' = open_fds w"
  using assms
proof (induction xs arbitrary: w n)
  case Nil
  then show ?case
    by (auto split: prod.splits outcome.splits simp: next_outcome_fields intro!: cleared_same)
next
  case (Cons x xs)
  obtain out w1 where 1: "next_outcome w = (out, w1)" by fastforce
  note f1 = next_outcome_fields [OF 1]
  obtain r2 w2 where 2: "fstatat dir x w1 = (r2, w2)" by fastforce
  note s2 = fstatat_result [OF 2]
  have w2: "inodes w2 = inodes w" "open_fds w2 = open_fds w"
    using reads_fields(1,9) [OF conjunct1 [OF s2]] f1 by simp_all
  obtain r3 w3 where 3: "unlinkat dir x w2 = (r3, w3)" by fastforce
  note u = unlinkat_result [OF 3]
  have step: "cleared kind dir w w' \<and> open_fds w' = open_fds w"
    if c0: "cleared kind dir w w0" and fd0: "open_fds w0 = open_fds w" and rec: "clear_entries dir name kind xs w0 = (r, w')" for w0
  proof -
    obtain n0 where "inodes w0 dir = Some n0" "ikind n0 = DirectoryFile"
      using c0 Cons.prems(2,3) by (auto simp: cleared_def)
    then show ?thesis using Cons.IH [OF rec] cleared_trans [OF c0] Cons.prems(2,3) fd0 by auto
  qed
  consider (stop) "w' \<in> {w1, w2, w3} \<and> inodes w' = inodes w \<and> open_fds w' = open_fds w"
    | (skip) "clear_entries dir name kind xs w1 = (r, w')"
    | (gone) st where "r2 = Inr st" "removable kind st" "r3 = Inr ()" "clear_entries dir name kind xs w3 = (r, w')"
  proof -
    have kept: "inodes w3 = inodes w \<and> open_fds w3 = open_fds w" if e: "r3 = Inl e" for e
      using u e w2 reads_fields(1,9) [of 0 w2 w3] by simp
    show thesis
      using that Cons.prems(1) f1 w2 kept
      by (cases out; cases r2; cases r3) (auto simp: 1 2 3 removable_def split: if_splits)
  qed
  then show ?case
  proof cases
    case stop
    then show ?thesis using cleared_same by blast
  next
    case skip
    then show ?thesis using step f1 cleared_same by blast
  next
    case gone
    obtain c where c: "entry w dir x = Some c" "inodes w c = Some st"
      using s2 gone(1) f1 by (auto simp: entry_def)
    have i3: "inodes w3 = (inodes w)(dir \<mapsto> remove_entry x n)" "open_fds w3 = open_fds w"
      using u gone(3) w2 Cons.prems(2) by auto
    have "cleared kind dir w w3"
      using i3 c Cons.prems(2,3) gone(2) by (auto simp: cleared_def entry_def file_at_def)
    then show ?thesis using step i3(2) gone(4) by blast
  qed
qed

lemma clear_directory_result:
  assumes "clear_directory dir name kind w = (r, w')" "inodes w dir = Some n" "ikind n = DirectoryFile"
  shows "cleared kind dir w w' \<and> open_fds w' = open_fds w"
proof -
  obtain r1 w1 where 1: "dup_fd dir w = (r1, w1)" by fastforce
  show ?thesis
  proof (cases r1)
    case (Inl e)
    then have "reads 0 w w'" using assms(1) dup_fd_result [OF 1] by (auto simp: clear_directory_def 1)
    then show ?thesis using reads_fields(1,9) [of 0 w w'] cleared_same by simp
  next
    case (Inr d)
    then have d: "d = dir" "reads 1 w w1" using dup_fd_result [OF 1] by auto
    obtain r2 w2 where 2: "fdopendir dir w1 = (r2, w2)" by fastforce
    have rd: "reads 0 w1 w2" using fdopendir_result [OF 2] by simp
    have w2: "inodes w2 = inodes w" "open_fds w2 = open_fds w + 1"
      using reads_fields(1,9) [OF d(2)] reads_fields(1,9) [OF rd] by simp_all
    show ?thesis
    proof (cases r2)
      case (Inl e)
      then have "w' = close_fd w2" using assms(1) Inr d(1) by (auto simp: clear_directory_def 1 2)
      then show ?thesis using w2 cleared_same [of "close_fd w2" w kind dir] by simp
    next
      case names: (Inr names)
      obtain r3 w3 where 3: "clear_entries dir name kind names w2 = (r3, w3)" by fastforce
      obtain r4 w4 where 4: "fsync dir (close_fd w3) = (r4, w4)" by fastforce
      have w4: "inodes w4 = inodes w3" "open_fds w4 = open_fds w3 - 1"
        using reads_fields(1,9) [OF fsync_reads [OF 4]] by simp_all
      have "cleared kind dir w2 w3 \<and> open_fds w3 = open_fds w2"
        using clear_entries_result [OF 3] assms(2,3) w2(1) by auto
      then have "cleared kind dir w w3" "open_fds w3 = open_fds w + 1"
        using w2 by (simp_all add: cleared_def entry_def file_at_def cong: option.case_cong)
      moreover have "w' = close_fd w3 \<or> w' = w4"
        using assms(1) Inr names d(1) by (auto simp: clear_directory_def 1 2 3 4 split: sum.splits)
      ultimately show ?thesis using w4 by (auto simp: cleared_def entry_def)
    qed
  qed
qed

lemma openat_dir_missing:
  assumes "openat_dir d name w = (Inl ENOENT, w')" "dir_ok w d"
  shows "entry w d name = None"
  using assms(1) unfolding openat_dir_def
proof (cases rule: attempt_cases)
  case (works w1)
  show ?thesis
  proof (cases "entry w d name")
    case (Some i)
    then obtain n where "inodes w i = Some n" using assms(2) by (fastforce simp: dir_ok_def entry_def)
    then show ?thesis using works(2) Some reads_entry [OF works(1)] reads_fields(1) [OF works(1)]
      by (auto simp: open_as_dir_def opened_def split: if_splits)
  qed simp
qed auto

lemma openVerifiedDir_env:
  assumes "openVerifiedDir parent name kind w = (r, w')"
  shows "same_env w w'"
proof -
  obtain r1 w1 where 1: "openat_dir parent name w = (r1, w1)" by fastforce
  show ?thesis
  proof (cases r1)
    case (Inl e)
    then show ?thesis using assms openat_dir_result [OF 1] reads_same_env
      by (auto simp: openVerifiedDir_def 1 split: if_splits)
  next
    case (Inr d)
    obtain r2 w2 where 2: "verifyDescriptor d Directory 0 (modeFor kind) w1 = (r2, w2)" by fastforce
    have "same_env w w2"
      using openat_dir_result [OF 1] Inr verifyDescriptor_result [OF 2] reads_same_env same_env_trans by fastforce
    moreover have "w' = w2 \<or> w' = close_fd w2 \<or> w' = w"
      using assms Inr by (cases r2) (auto simp: openVerifiedDir_def 1 2 split: if_splits)
    ultimately show ?thesis by auto
  qed
qed

lemma clear_entries_env: "clear_entries dir name kind xs w = (r, w') \<Longrightarrow> same_env w w'"
proof (induction xs arbitrary: w)
  case Nil
  then show ?case by (auto split: prod.splits outcome.splits dest!: next_outcome_reads reads_same_env)
next
  case (Cons x xs)
  obtain out w1 where 1: "next_outcome w = (out, w1)" by fastforce
  obtain r2 w2 where 2: "fstatat dir x w1 = (r2, w2)" by fastforce
  obtain r3 w3 where 3: "unlinkat dir x w2 = (r3, w3)" by fastforce
  have e1: "same_env w w1" using reads_same_env [OF next_outcome_reads [OF 1]] .
  have e2: "same_env w w2"
    using same_env_trans [OF e1 reads_same_env [OF conjunct1 [OF fstatat_result [OF 2]]]] .
  have e3: "same_env w w3"
    using unlinkat_result [OF 3] same_env_trans [OF e2] by (cases r3) (auto simp: same_env_def reads_fields)
  have "w' \<in> {w1, w2, w3} \<or> clear_entries dir name kind xs w1 = (r, w') \<or> clear_entries dir name kind xs w3 = (r, w')"
    using Cons.prems by (cases out; cases r2; cases r3) (auto simp: 1 2 3 split: if_splits)
  then show ?case using e1 e2 e3 Cons.IH same_env_trans by blast
qed

lemma durableRemoveTree_env:
  assumes "durableRemoveTree parent name dirKind entryKind w = (r, w')"
  shows "same_env w w'"
proof (cases "isSingleComponent name")
  case True
  obtain r1 w1 where 1: "openVerifiedDir parent name dirKind w = (r1, w1)" by fastforce
  have e1: "same_env w w1" using openVerifiedDir_env [OF 1] .
  show ?thesis
  proof (cases r1)
    case (Inr dir)
    obtain r2 w2 where 2: "dup_fd dir w1 = (r2, w2)" by fastforce
    obtain r3 w3 where 3: "fdopendir dir w2 = (r3, w3)" by fastforce
    obtain r4 w4 where 4: "clear_entries dir name entryKind (projr r3) w3 = (r4, w4)" by fastforce
    obtain r5 w5 where 5: "fsync dir (close_fd w4) = (r5, w5)" by fastforce
    have d: "d = dir" if "r2 = Inr d" for d using dup_fd_result [OF 2] that by auto
    have e2: "same_env w w2" using dup_fd_result [OF 2] same_env_trans [OF e1 reads_same_env]
      by (cases r2) auto
    have e3: "same_env w w3" using fdopendir_result [OF 3] same_env_trans [OF e2 reads_same_env] by blast
    have e4: "same_env w w4" using same_env_trans [OF e3 clear_entries_env [OF 4]] .
    have e5: "same_env w w5" using same_env_trans [OF _ reads_same_env [OF fsync_reads [OF 5]], of w] e4 by simp
    obtain r6 w6 where 6: "clear_directory dir name entryKind w1 = (r6, w6)" by fastforce
    have "w6 \<in> {w2, close_fd w3, close_fd w4, w5}"
      using 6 3 4 5 d by (cases r2; cases r3; cases r4; cases r5) (auto simp: clear_directory_def 2)
    then have e6: "same_env w w6" using e2 e3 e4 e5 by auto
    obtain r7 w7 where 7: "rmdirat parent name (close_fd w6) = (r7, w7)" by fastforce
    obtain r8 w8 where 8: "fsync parent w7 = (r8, w8)" by fastforce
    have e7: "same_env w w7"
      using rmdirat_result [OF 7] e6 by (cases r7) (auto simp: same_env_def reads_fields)
    have e8: "same_env w w8" using same_env_trans [OF e7 reads_same_env [OF fsync_reads [OF 8]]] .
    have "w' \<in> {close_fd w6, w7, w8}"
      using assms True Inr by (cases r6; cases r7; cases r8) (auto simp: durableRemoveTree_def 1 6 7 8)
    then show ?thesis using e6 e7 e8 by auto
  qed (use assms True e1 in \<open>auto simp: durableRemoveTree_def 1\<close>)
qed (use assms in \<open>auto simp: durableRemoveTree_def\<close>)

lemma durableRemoveTree_result:
  assumes "durableRemoveTree parent name dirKind entryKind w = (r, w')" and "dir_ok w parent"
  shows "(r = Inr () \<longrightarrow> entry w' parent name = None) \<and> open_fds w' = open_fds w \<and>
    (\<forall>i. i \<noteq> parent \<longrightarrow> Some i \<noteq> entry w parent name \<longrightarrow> inodes w' i = inodes w i) \<and>
    (\<forall>dir x n. entry w parent name = Some dir \<longrightarrow> file_at w dir x = Some n \<longrightarrow>
       entry w' dir x = entry w dir x \<or> removable entryKind n) \<and>
    (\<forall>x. entry w' parent x \<in> {None, entry w parent x}) \<and> (\<forall>i. inodes w i \<noteq> None \<longrightarrow> inodes w' i \<noteq> None)"
proof (cases "isSingleComponent name")
  case True
  obtain r0 w0 where 0: "openat_dir parent name w = (r0, w0)" by fastforce
  show ?thesis
  proof (cases r0)
    case (Inl e)
    then have w0: "reads 0 w w0" "w' = w0" and r: "r = Inr () \<Longrightarrow> e = ENOENT"
      using assms(1) True openat_dir_result [OF 0]
      by (auto simp: durableRemoveTree_def openVerifiedDir_def 0 split: if_splits)
    have "e = ENOENT \<Longrightarrow> entry w parent name = None"
      using openat_dir_missing 0 Inl assms(2) by blast
    then show ?thesis using w0 r reads_fields(1,9) [OF w0(1)] by (auto simp: entry_def)
  next
    case (Inr dir)
    then have o: "reads 1 w w0" "entry w parent name = Some dir"
        "\<exists>n. inodes w dir = Some n \<and> ikind n = DirectoryFile" using openat_dir_result [OF 0] by auto
    then obtain n where n: "inodes w dir = Some n" "ikind n = DirectoryFile" by blast
    have ne: "dir \<noteq> parent" using assms(2) o(2) by (fastforce simp: dir_ok_def entry_def)
    obtain r1 w1 where 1: "verifyDescriptor dir Directory 0 (modeFor dirKind) w0 = (r1, w1)" by fastforce
    have rd: "reads 0 w0 w1" using verifyDescriptor_result [OF 1] by simp
    have w1: "inodes w1 = inodes w" "open_fds w1 = open_fds w + 1"
      using reads_fields(1,9) [OF o(1)] reads_fields(1,9) [OF rd] by simp_all
    have same: "?thesis" if "inodes w' = inodes w" "open_fds w' = open_fds w" "r \<noteq> Inr ()"
      using that by (auto simp: entry_def)
    show ?thesis
    proof (cases r1)
      case (Inl v)
      then have "w' = close_fd w1" "r \<noteq> Inr ()"
        using assms(1) True \<open>r0 = Inr dir\<close> by (auto simp: durableRemoveTree_def openVerifiedDir_def 0 1)
      then show ?thesis using same w1 by simp
    next
      case ok: (Inr u)
      obtain r2 w2 where 2: "clear_directory dir name entryKind w1 = (r2, w2)" by fastforce
      have cl: "cleared entryKind dir w w2" "open_fds w2 = open_fds w + 1"
        using clear_directory_result [OF 2, of n] n w1
        by (simp_all add: cleared_def entry_def file_at_def cong: option.case_cong)
      obtain r3 w3 where 3: "rmdirat parent name (close_fd w2) = (r3, w3)" by fastforce
      obtain r4 w4 where 4: "fsync parent w3 = (r4, w4)" by fastforce
      note rm = rmdirat_result [OF 3]
      have w4: "inodes w4 = inodes w3" "open_fds w4 = open_fds w3"
        using reads_fields(1,9) [OF fsync_reads [OF 4]] by simp_all
      have w3: "open_fds w3 = open_fds w"
        using rm cl(2) by (cases r3) (auto simp: reads_fields(9))
      have dir3: "inodes w3 i = inodes w2 i" if "i \<noteq> parent" for i
        using rm that by (cases r3) (auto simp: reads_fields(1))
      have "(w' = close_fd w2 \<and> r \<noteq> Inr ()) \<or> (inodes w' = inodes w3 \<and> open_fds w' = open_fds w \<and> (r = Inr () \<longrightarrow> r3 = Inr ()))"
        using assms(1) True \<open>r0 = Inr dir\<close> ok w4 w3
        by (auto simp: durableRemoveTree_def openVerifiedDir_def 0 1 2 3 4 split: sum.splits)
      moreover have "entry w3 parent name = None" if "r3 = Inr ()"
        using rm that by (auto simp: entry_def)
      moreover have "entry w2 dir x = entry w dir x \<or> removable entryKind m" if "file_at w dir x = Some m" for x m
        using cl(1) that by (auto simp: cleared_def)
      moreover have "entry w3 dir x = entry w2 dir x" for x using dir3 [OF ne] by (simp add: entry_def)
      moreover have "\<forall>i. i \<noteq> parent \<longrightarrow> i \<noteq> dir \<longrightarrow> inodes w2 i = inodes w i \<and> inodes w3 i = inodes w i"
        using cl(1) dir3 by (simp add: cleared_def)
      moreover have p2: "inodes w2 parent = inodes w parent" using cl(1) ne by (simp add: cleared_def)
      moreover have "entry w3 parent x \<in> {None, entry w parent x}" for x
        using rm p2 by (cases r3) (auto simp: entry_def reads_fields(1))
      moreover have there: "inodes w2 i \<noteq> None" if "inodes w i \<noteq> None" for i
        using cl(1) n(1) that by (cases "i = dir") (auto simp: cleared_def)
      moreover have "inodes w3 i \<noteq> None" if "inodes w i \<noteq> None" for i
        using rm there [OF that] by (cases r3) (auto simp: reads_fields(1))
      ultimately show ?thesis using o(2) cl(2) by (elim disjE) (auto simp: entry_def)
    qed
  qed
qed (use assms in \<open>auto simp: durableRemoveTree_def\<close>)

text \<open>C12. \<open>durableRemoveTree\<close> deletes nothing it was not written for, even when it fails half way: no
  file outside the named directory and its parent changes, and an entry it took out of the directory
  led to a regular file of root with exactly the mode of its kind.  When it reports success the name
  is gone from the parent, and no descriptor stays open.\<close>
theorem durableRemoveTree_safe:
  assumes "durableRemoveTree parent name dirKind entryKind w = (r, w')" and "dir_ok w parent"
  shows "(r = Inr () \<longrightarrow> entry w' parent name = None) \<and> open_fds w' = open_fds w \<and>
    (\<forall>i. i \<noteq> parent \<longrightarrow> Some i \<noteq> entry w parent name \<longrightarrow> inodes w' i = inodes w i) \<and>
    (\<forall>dir x n. entry w parent name = Some dir \<longrightarrow> file_at w dir x = Some n \<longrightarrow>
       entry w' dir x = entry w dir x \<or> removable entryKind n)"
  using durableRemoveTree_result [OF assms] by blast

section \<open>A concrete store\<close>

text \<open>
  \<open>/etc\<close> is inode 9 and holds the private directory \<open>nasmount\<close>, inode 1, with one credential file;
  the first write of the schedule is short and the third call fails.
\<close>

definition file_inode :: "nat \<Rightarrow> qstring \<Rightarrow> inode" where
  "file_inode m content = \<lparr>ikind = RegularFile, iuid = 0, igid = 0, imode = m, idata = content, ients = [],
     imount = 7, idevice = 1, itrigger = False\<rparr>"

definition store_world :: "outcome list \<Rightarrow> unit world" where
  "store_world faults = \<lparr>inodes = [9 \<mapsto> dir_inode 0 [(''nasmount'', 1)],
       1 \<mapsto> (dir_inode 0 [(''a.cred'', 2)])\<lparr>imode := 448\<rparr>, 2 \<mapsto> file_inode 384 ''old''],
     absolute = [''/etc'' \<mapsto> 9], next_ino = 10, umask = 18, sched = faults, rng = (\<lambda>_. 0), rng_pos = 0,
     open_fds = 0, events = [], services = ()\<rparr>"

lemma store_world_ok: "fresh_inodes (store_world fs)" "dir_ok (store_world fs) 1" "dir_ok (store_world fs) 9"
  by (auto simp: fresh_inodes_def dir_ok_def store_world_def dir_inode_def split: if_splits)

lemma cred_not_temp: "\<not> is_temp_name ''a.cred''"
  by (simp add: is_temp_name_def temp_prefix_def)

text \<open>With a short first write the replacement still completes.\<close>
theorem durableReplace_atomic_witness:
  "\<exists>m. file_at (snd (durableReplace 1 ''a.cred'' ''new'' SensitiveFile (store_world [Works, Short 1]))) 1 ''a.cred'' = Some m \<and>
     written m ''new'' SensitiveFile"
proof -
  have "\<not> isl (fst (durableReplace 1 ''a.cred'' ''new'' SensitiveFile (store_world [Works, Short 1])))"
    by code_simp
  then show ?thesis
    using durableReplace_atomic [OF prod.collapse [symmetric] store_world_ok(1,2) cred_not_temp,
        of "''new''" SensitiveFile "[Works, Short 1]"] by auto
qed

text \<open>A removal that works.\<close>
theorem durableUnlink_removes_witness:
  "file_at (snd (durableUnlink 1 ''a.cred'' True (store_world []))) 1 ''a.cred'' = None"
proof -
  have "fst (durableUnlink 1 ''a.cred'' True (store_world [])) = Inr ()" by code_simp
  then show ?thesis
    using durableUnlink_removes [OF prod.collapse [symmetric] store_world_ok(1,2), of "''a.cred''" "[]"] by simp
qed

text \<open>A removal and a replacement of which the second fails at its first call.\<close>
theorem artifact_script_witness:
  "artifact SensitiveFile 1 (snd (run_script (put_file SensitiveFile 1) (del_file 1)
     [Put ''a.cred'' ''new'', Del ''b.cred''] (store_world []))) ''a.cred'' = Some ''new''"
proof -
  let ?r = "run_script (put_file SensitiveFile 1) (del_file 1) [Put ''a.cred'' ''new'', Del ''b.cred''] (store_world [])"
  have "fst ?r" by code_simp
  moreover have "\<forall>x \<in> set [Put ''a.cred'' ''new'', Del ''b.cred'']. \<not> is_temp_name (op_key x)"
    by (simp add: is_temp_name_def temp_prefix_def)
  ultimately show ?thesis
    using artifact_script [OF prod.collapse [symmetric, of ?r] _ _ cred_not_temp] store_world_ok
    by (simp add: store_ok_def script_value_def)
qed

text \<open>Reading the credential file.\<close>
theorem readFileBounded_sound_witness:
  "\<exists>n. file_at (store_world []) 1 ''a.cred'' = Some n \<and> prefix ''old'' (idata n)"
proof -
  have "fst (readFileBounded 1 ''a.cred'' 64 SensitiveFile (store_world [])) = Inr ''old''" by code_simp
  then obtain w' where "readFileBounded 1 ''a.cred'' 64 SensitiveFile (store_world []) = (Inr ''old'', w')"
    by (metis prod.collapse)
  from readFileBounded_sound [OF this] show ?thesis by blast
qed

text \<open>Reading the file just replaced.\<close>
theorem replace_then_read_witness:
  "\<exists>w1 w3. durableReplace 1 ''a.cred'' ''new'' SensitiveFile (store_world []) = (Inr (), w1) \<and>
     readFileBounded 1 ''a.cred'' 64 SensitiveFile w1 = (Inr ''new'', w3)"
proof -
  let ?r = "durableReplace 1 ''a.cred'' ''new'' SensitiveFile (store_world [])"
  have "fst ?r = Inr ()" "sched (snd ?r) = []" by code_simp+
  then obtain w1 where w1: "?r = (Inr (), w1)" "sched w1 = []" by (metis prod.collapse)
  then show ?thesis
    using replace_then_read [OF w1(1) store_world_ok(1,2) cred_not_temp reads_refl w1(2), of 64] by auto
qed

text \<open>Clearing the private directory leaves \<open>/etc\<close> without it.\<close>
theorem durableRemoveTree_safe_witness:
  "entry (snd (durableRemoveTree 9 ''nasmount'' DirectoryKind SensitiveFile (store_world []))) 9 ''nasmount'' = None"
proof -
  have "fst (durableRemoveTree 9 ''nasmount'' DirectoryKind SensitiveFile (store_world [])) = Inr ()"
    by code_simp
  then show ?thesis
    using durableRemoveTree_safe [OF prod.collapse [symmetric] store_world_ok(3)] by blast
qed

end
