(* ===== verification/UnitInputs.thy ===== *)
theory UnitInputs
  imports UnitSpec
begin

text \<open>
  What the input checks of \<open>src/core/unitspec.cpp\<close> establish: the shape of an accepted UNC path and
  of an authorised mount point, what a validated unit body must contain, and the places where an
  accepted input is still refused, or is accepted although it differs from what is generated.
\<close>

section \<open>UNC paths\<close>

lemma chop_slashes_append: "\<exists>n. s = chop_slashes s @ replicate n CHR ''/''"
proof -
  let ?sl = "\<lambda>c. c = CHR ''/''"
  have "rev s = takeWhile ?sl (rev s) @ dropWhile ?sl (rev s)" by simp
  moreover have "takeWhile ?sl (rev s) = replicate (length (takeWhile ?sl (rev s))) CHR ''/''"
    by (rule replicate_length_same [symmetric]) (auto dest: set_takeWhileD)
  ultimately have "s = rev (dropWhile ?sl (rev s)) @
      replicate (length (takeWhile ?sl (rev s))) CHR ''/''"
    by (metis rev_append rev_replicate rev_rev_ident)
  then show ?thesis unfolding chop_slashes_def by blast
qed

lemma chop_slashes_last: "chop_slashes s \<noteq> [] \<Longrightarrow> last (chop_slashes s) \<noteq> CHR ''/''"
  using hd_dropWhile [of "\<lambda>c. c = CHR ''/''" "rev s"] by (auto simp: chop_slashes_def last_rev)

lemma chop_slashes_id: "s \<noteq> [] \<Longrightarrow> last s \<noteq> CHR ''/'' \<Longrightarrow> chop_slashes s = s"
  by (cases s rule: rev_cases) (auto simp: chop_slashes_def)

lemma chop_slashes_idem: "chop_slashes (chop_slashes s) = chop_slashes s"
proof (cases "chop_slashes s = []")
  case True
  then show ?thesis by (simp only:) (simp add: chop_slashes_def)
next
  case False
  then show ?thesis by (intro chop_slashes_id chop_slashes_last)
qed

lemma set_chop_slashes: "set (chop_slashes s) \<subseteq> set s"
  by (auto simp: chop_slashes_def dest: set_dropWhileD)

lemma hasControlChars_subset: "\<not> hasControlChars s \<Longrightarrow> set t \<subseteq> set s \<Longrightarrow> \<not> hasControlChars t"
  by (auto simp: hasControlChars_def)

lemma unc_match_Some:
  assumes "unc_match v = Some (host, share)"
  shows "v = ''//'' @ host @ ''/'' @ share \<and> host \<noteq> [] \<and> list_all host_char host \<and> share \<noteq> [] \<and>
    hd share \<noteq> CHR ''/''"
proof -
  from assms have "prefix ''//'' v"
    by (simp add: unc_match_def split: if_splits)
  then obtain u where v: "v = ''//'' @ u" by (auto elim: prefixE)
  from assms have tail: "dropWhile host_char u = CHR ''/'' # share"
    and host: "host = takeWhile host_char u" "host \<noteq> []" and share: "share \<noteq> []" "hd share \<noteq> CHR ''/''"
    unfolding v unc_match_def by (auto simp: Let_def split: list.splits if_splits)
  have "u = host @ CHR ''/'' # share"
    using host tail takeWhile_dropWhile_id [of host_char u] by simp
  moreover have "list_all host_char host"
    using host by (auto simp: list_all_iff dest: set_takeWhileD)
  ultimately show ?thesis using v host share by simp
qed

lemma validateUnc_idem:
  assumes "validateUnc unc = Inr v"
  shows "validateUnc v = Inr v"
proof -
  from assms obtain host share where v: "v = chop_slashes unc" "unc_match v = Some (host, share)"
      "''..'' \<notin> set (split_on CHR ''/'' share)" "\<not> hasControlChars unc" "CHR '','' \<notin> set unc"
    by (auto simp: validateUnc_def Let_def split: if_splits option.splits)
  then have "\<not> hasControlChars v" "CHR '','' \<notin> set v"
    using set_chop_slashes [of unc] hasControlChars_subset [of unc] by auto
  then show ?thesis using v chop_slashes_idem [of unc] by (simp add: validateUnc_def)
qed

lemma validateUnc_shape:
  assumes "validateUnc unc = Inr v"
  shows "(\<exists>n. unc = v @ replicate n CHR ''/'') \<and> validateUnc v = Inr v \<and>
    \<not> hasControlChars v \<and> CHR '','' \<notin> set v \<and>
    (\<exists>host share. v = ''//'' @ host @ ''/'' @ share \<and> host \<noteq> [] \<and> list_all host_char host \<and>
       share \<noteq> [] \<and> hd share \<noteq> CHR ''/'' \<and> last share \<noteq> CHR ''/'' \<and>
       ''..'' \<notin> set (split_on CHR ''/'' share))"
proof -
  from assms obtain host share where v: "v = chop_slashes unc"
    and m: "unc_match v = Some (host, share)" and dd: "''..'' \<notin> set (split_on CHR ''/'' share)"
    and cc: "\<not> hasControlChars unc" and comma: "CHR '','' \<notin> set unc"
    by (auto simp: validateUnc_def Let_def split: if_splits option.splits)
  have cv: "\<not> hasControlChars v" "CHR '','' \<notin> set v"
    using set_chop_slashes [of unc] hasControlChars_subset [OF cc] comma v by auto
  note shape = unc_match_Some [OF m]
  then have "last share \<noteq> CHR ''/''"
    using chop_slashes_last [of unc] v by auto
  moreover have "validateUnc v = Inr v" by (rule validateUnc_idem [OF assms])
  ultimately show ?thesis
    using chop_slashes_append [of unc] v cv shape dd by metis
qed

text \<open>
  C3.  An accepted UNC path is \<open>//host/share\<close> with a plain host name, no control character, no
  comma, no trailing slash and no \<open>..\<close> component; it is the input without its trailing slashes,
  and accepting it again gives it back unchanged.
\<close>

theorem validateUnc_sound:
  assumes "validateUnc unc = Inr v"
  shows "(\<exists>n. unc = v @ replicate n CHR ''/'') \<and> validateUnc v = Inr v \<and>
    \<not> hasControlChars v \<and> CHR '','' \<notin> set v \<and>
    (\<exists>host share. v = ''//'' @ host @ ''/'' @ share \<and> host \<noteq> [] \<and> list_all host_char host \<and>
       share \<noteq> [] \<and> hd share \<noteq> CHR ''/'' \<and> last share \<noteq> CHR ''/'' \<and>
       ''..'' \<notin> set (split_on CHR ''/'' share))"
  using validateUnc_shape [OF assms] .

section \<open>Mount points\<close>

lemma split_on_append:
  "split_on c (a @ c # b) = split_on c a @ split_on c b"
proof (induction a)
  case (Cons x a)
  then show ?case by (auto split: list.split simp: append_eq_Cons_conv)
qed simp

lemma split_skip_empty_append:
  "split_skip_empty c (a @ c # b) = split_skip_empty c a @ split_skip_empty c b"
  by (simp add: split_skip_empty_def split_on_append)

definition component :: "qstring \<Rightarrow> bool" where
  "component s \<longleftrightarrow> s \<noteq> [] \<and> CHR ''/'' \<notin> set s \<and> s \<noteq> ''.''"

lemma clean_step_components:
  "list_all component st \<Longrightarrow> seg \<noteq> [] \<and> CHR ''/'' \<notin> set seg \<Longrightarrow>
   list_all component (clean_step st seg)"
  by (auto simp: clean_step_def component_def split: list.splits)

lemma clean_segments_components: "list_all component (clean_segments p)"
proof -
  have "list_all component (foldl clean_step st segs)"
    if "list_all component st" "\<forall>s \<in> set segs. s \<noteq> [] \<and> CHR ''/'' \<notin> set s" for st segs
    using that by (induction segs arbitrary: st) (auto simp: clean_step_components)
  moreover have "\<forall>s \<in> set (split_skip_empty CHR ''/'' p). s \<noteq> [] \<and> CHR ''/'' \<notin> set s"
    using set_split_skip_empty by blast
  ultimately show ?thesis
    by (simp add: clean_segments_def)
qed

lemma split_join_components:
  "list_all component segs \<Longrightarrow> split_skip_empty CHR ''/'' (join_with ''/'' segs) = segs"
proof (cases "segs = []")
  case False
  assume c: "list_all component segs"
  with False have "split_on CHR ''/'' (join_with ''/'' segs) = segs"
    by (intro split_join) (auto simp: component_def list_all_iff)
  with c show ?thesis
    by (simp add: split_skip_empty_def component_def list_all_iff filter_id_conv)
qed (simp add: split_skip_empty_def)

lemma cleanPath_absolute:
  "prefix ''/'' p \<Longrightarrow> cleanPath p = CHR ''/'' # join_with ''/'' (clean_segments p)"
  by (auto simp: cleanPath_def)

lemma split_cleanPath:
  "prefix ''/'' p \<Longrightarrow> split_skip_empty CHR ''/'' (cleanPath p) = clean_segments p"
  using split_skip_empty_append [of "CHR ''/''" "[]" "join_with ''/'' (clean_segments p)"]
  by (simp add: cleanPath_absolute split_join_components clean_segments_components)
    (simp add: split_skip_empty_def)

lemma match_roots_Inr:
  assumes "match_roots clean roots = Some (Inr plan)"
  shows "plan_path plan = clean \<and> plan_root plan \<in> set roots \<and>
    prefix (plan_root plan @ ''/'') clean \<and> plan_suffix plan \<noteq> [] \<and> ''..'' \<notin> set (plan_suffix plan) \<and>
    plan_suffix plan = split_skip_empty CHR ''/'' (drop (length (plan_root plan) + 1) clean)"
  using assms by (induction clean roots rule: match_roots.induct) (auto simp: Let_def split: if_splits)

text \<open>
  C4.  An authorised mount point lies strictly below one of the allowed roots: its path is the root,
  a slash and the components joined with slashes; there is at least one component, and none of them
  is empty, contains a slash, or is \<open>.\<close> or \<open>..\<close>, so a walk of the components from the root stays
  on exactly this pathname.
\<close>

theorem validateMountpoint_plan:
  assumes "validateMountpoint rawPath homeDir = Inr plan"
  shows "plan_root plan \<in> set (allowed_roots homeDir) \<and> plan_suffix plan \<noteq> [] \<and>
    plan_path plan = plan_root plan @ ''/'' @ join_with ''/'' (plan_suffix plan) \<and>
    (\<forall>s \<in> set (plan_suffix plan). s \<noteq> [] \<and> CHR ''/'' \<notin> set s \<and> s \<noteq> ''.'' \<and> s \<noteq> ''..'')"
proof -
  from assms have abs: "prefix ''/'' rawPath"
    and m: "match_roots (cleanPath rawPath) (allowed_roots homeDir) = Some (Inr plan)"
    by (auto simp: validateMountpoint_def split: if_splits option.splits)
  note plan = match_roots_Inr [OF m]
  then obtain rest where clean: "cleanPath rawPath = plan_root plan @ CHR ''/'' # rest"
    by (auto simp: prefix_def)
  with plan have suffix: "plan_suffix plan = split_skip_empty CHR ''/'' rest" by simp
  have segs: "clean_segments rawPath =
      split_skip_empty CHR ''/'' (plan_root plan) @ plan_suffix plan"
    using split_cleanPath [OF abs] by (simp add: clean suffix split_skip_empty_append)
  have comps: "list_all component (plan_suffix plan)"
    using clean_segments_components [of rawPath] by (simp add: segs)
  have "split_on CHR ''/'' (cleanPath rawPath) = [] # clean_segments rawPath"
  proof -
    have "plan_suffix plan \<noteq> []" using plan by blast
    then have "clean_segments rawPath \<noteq> []" by (simp only: segs append_is_Nil_conv) simp
    then have "split_on CHR ''/'' (join_with ''/'' (clean_segments rawPath)) = clean_segments rawPath"
      using clean_segments_components [of rawPath]
      by (intro split_join) (auto simp: component_def list_all_iff)
    then show ?thesis by (simp add: cleanPath_absolute [OF abs])
  qed
  then have "split_on CHR ''/'' rest = plan_suffix plan"
  proof -
    assume "split_on CHR ''/'' (cleanPath rawPath) = [] # clean_segments rawPath"
    then have eq: "split_on CHR ''/'' (plan_root plan) @ split_on CHR ''/'' rest =
        [] # clean_segments rawPath"
      by (simp add: clean split_on_append)
    obtain r rs where r: "split_on CHR ''/'' (plan_root plan) = r # rs"
      by (cases "split_on CHR ''/'' (plan_root plan)") simp_all
    with eq have "rs @ split_on CHR ''/'' rest = clean_segments rawPath" by simp
    then have "list_all component (split_on CHR ''/'' rest)"
      using clean_segments_components [of rawPath] by (metis list_all_append)
    then show ?thesis
      by (simp add: suffix split_skip_empty_def component_def list_all_iff filter_id_conv)
  qed
  then have "rest = join_with ''/'' (plan_suffix plan)"
    using join_split_on [of "CHR ''/''" rest] by simp
  with plan clean comps show ?thesis
    by (auto simp: component_def list_all_iff)
qed

section \<open>What a validated unit body contains\<close>

lemma extract_lines_dom:
  "extract_lines sec al ls ins sn vs = Inr vs' \<Longrightarrow> dom vs \<subseteq> set al \<Longrightarrow> dom vs' \<subseteq> set al"
proof (induction sec al ls ins sn vs rule: extract_lines.induct)
  case (2 sec al l ls ins sn vs)
  then show ?case
    by (cases "section_header l"; cases "assignment_match l")
      (fastforce simp del: fun_upd_apply split: if_splits prod.splits)+
qed (auto split: if_splits)

lemma extractSectionAssignments_dom:
  "extractSectionAssignments content sec al = Inr vs \<Longrightarrow> dom vs \<subseteq> set al"
  using extract_lines_dom [of sec al "lines_of content" False False Map.empty vs]
  by (simp add: extractSectionAssignments_def)

lemma missing_key_None: "missing_key ks vs = None \<longleftrightarrow> set ks \<subseteq> dom vs"
  by (induction ks) auto

lemma value_of_dom: "k \<in> dom vs \<Longrightarrow> vs k = Some (value_of vs k)"
  by (auto simp: value_of_def)


section \<open>Mount options\<close>

lemma comma_decimal [simp]: "CHR '','' \<notin> set (decimal n)"
  by simp

lemma not_lower_hex_comma [simp]: "\<not> is_lower_hex CHR '','' "
  by (simp add: char_class_defs)

text \<open>The options, one list element per term.\<close>

definition option_terms :: "marker \<Rightarrow> qstring list" where
  "option_terms m =
     [if authentication m = Guest then ''guest'' else ''credentials='' @ credentialPathFor (marker_id m),
      ''nosuid'', ''nodev'', ''forceuid'', ''forcegid'', ''uid='' @ decimal (unat (ownerUid m)),
      ''gid='' @ decimal (unat (ownerGid m)), ''nounix'', ''iocharset=utf8''] @
     (case access m of
        ReadWrite \<Rightarrow> [''file_mode=0600'', ''dir_mode=0700'']
      | ReadOnly \<Rightarrow> [''ro'', ''file_mode=0400'', ''dir_mode=0500'']
      | ReadWriteExecutable \<Rightarrow> [''file_mode=0700'', ''dir_mode=0700''])"

lemma split_mountOptionsFor:
  assumes "isValidShareId (marker_id m)"
  shows "split_on CHR '','' (mountOptionsFor m) = option_terms m"
proof -
  have "mountOptionsFor m = join_with '','' (option_terms m)"
    by (cases "authentication m")
      (simp_all add: mountOptionsFor_def mountOptions_def option_terms_def credentialPathFor_def
        credentialDirectory_def)
  moreover have "\<forall>t \<in> set (option_terms m). CHR '','' \<notin> set t"
    using isValidShareId_avoids [OF assms]
    by (cases "authentication m"; cases "access m")
      (simp_all add: option_terms_def credentialPathFor_def credentialDirectory_def)
  moreover have "option_terms m \<noteq> []" by (simp add: option_terms_def)
  ultimately show ?thesis
    using split_join [of "option_terms m" "CHR '',''"] by metis
qed

lemma filter_set: "{t \<in> set xs. P t} = set (filter P xs)"
  by auto

text \<open>
  Whatever the marker says, the kernel reads the security terms \<open>nosuid\<close>, \<open>nodev\<close>, \<open>forceuid\<close>,
  \<open>forcegid\<close> and \<open>nounix\<close> and the owner's ids; the mount is read-only exactly for the read-only
  mode; and the only credential file named is the share's own, named exactly when the share is not
  a guest share.
\<close>

theorem mountOptionsFor_terms:
  assumes "isValidShareId (marker_id m)"
  shows "{''nosuid'', ''nodev'', ''forceuid'', ''forcegid'', ''nounix'',
      ''uid='' @ decimal (unat (ownerUid m)), ''gid='' @ decimal (unat (ownerGid m))}
      \<subseteq> set (split_on CHR '','' (mountOptionsFor m)) \<and>
    (''ro'' \<in> set (split_on CHR '','' (mountOptionsFor m)) \<longleftrightarrow> access m = ReadOnly) \<and>
    (''guest'' \<in> set (split_on CHR '','' (mountOptionsFor m)) \<longleftrightarrow> authentication m = Guest) \<and>
    {t \<in> set (split_on CHR '','' (mountOptionsFor m)). prefix ''credentials='' t} =
      (if authentication m = Guest then {}
       else {''credentials=/etc/nasmount/'' @ marker_id m @ ''.cred''})"
  unfolding split_mountOptionsFor [OF assms] filter_set
  by (cases "authentication m"; cases "access m")
    (simp_all add: option_terms_def credentialPathFor_def credentialDirectory_def)

text \<open>
  The options of two valid markers are equal only if the markers agree on the owner, the
  access mode and the authentication kind, and, for a share with credentials, on the share id: a
  unit whose options belong to another share can never validate against this marker.
\<close>

theorem mountOptionsFor_inject:
  assumes "isValidShareId (marker_id m)" and "isValidShareId (marker_id m')"
    and "mountOptionsFor m = mountOptionsFor m'"
  shows "ownerUid m = ownerUid m' \<and> ownerGid m = ownerGid m' \<and> access m = access m' \<and>
    authentication m = authentication m' \<and>
    (authentication m = Credentials \<longrightarrow> marker_id m = marker_id m')"
proof -
  have eq: "option_terms m = option_terms m'"
    using split_mountOptionsFor [OF assms(1)] split_mountOptionsFor [OF assms(2)] assms(3) by simp
  then have "decimal (unat (ownerUid m)) = decimal (unat (ownerUid m'))"
    "decimal (unat (ownerGid m)) = decimal (unat (ownerGid m'))"
    by (auto simp: option_terms_def)
  then have "ownerUid m = ownerUid m'" "ownerGid m = ownerGid m'"
    using uint_text.encode_inject by simp_all
  moreover have "access m = access m'"
    using eq by (cases "access m"; cases "access m'") (simp_all add: option_terms_def)
  moreover have "authentication m = authentication m' \<and>
      (authentication m = Credentials \<longrightarrow> marker_id m = marker_id m')"
    using eq by (cases "authentication m"; cases "authentication m'")
      (simp_all add: option_terms_def credentialPathFor_def)
  ultimately show ?thesis by blast
qed

section \<open>Instances\<close>

text \<open>
  The shares of the frozen corpus \<open>tests/golden/units/v0.1.4\<close> the witnesses use, and the bytes of
  its file \<open>credentials-ro.mount\<close>.
\<close>

definition golden_marker :: marker where
  "golden_marker =
     \<lparr>ownerUid = 1000, ownerGid = 1000, marker_id = ''00112233445566778899aabbccddeeff'',
      authentication = Credentials, access = ReadOnly\<rparr>"

definition golden_guest :: marker where
  "golden_guest =
     \<lparr>ownerUid = 1000, ownerGid = 1000, marker_id = ''ffeeddccbbaa99887766554433221100'',
      authentication = Guest, access = ReadOnly\<rparr>"

definition golden_mount_unit :: qstring where
  "golden_mount_unit = unlines
     [''# Managed by nasmount '' @ [CHR 0xE2, CHR 0x80, CHR 0x94] @
        '' do not edit by hand; use the KCM or the dialog.'',
      ''# X-Nasmount-Managed=1'',
      ''# X-Nasmount-Owner-Uid=1000'',
      ''# X-Nasmount-Owner-Gid=1000'',
      ''# X-Nasmount-Id=00112233445566778899aabbccddeeff'',
      ''# X-Nasmount-Mode=system'',
      ''# X-Nasmount-Authentication=credentials'',
      ''# X-Nasmount-Access=readonly'',
      ''[Unit]'',
      ''Description=nasmount: //nas.example.org/archive'',
      [],
      ''[Mount]'',
      ''What=//nas.example.org/archive'',
      ''Where=/home/tester/mnt/archive'',
      ''Type=cifs'',
      ''Options=credentials=/etc/nasmount/00112233445566778899aabbccddeeff.cred,nosuid,nodev,forceuid,forcegid,uid=1000,gid=1000,nounix,iocharset=utf8,ro,file_mode=0400,dir_mode=0500'',
      ''TimeoutSec=30'']"

text \<open>
  The generator reproduces the frozen corpus file byte for byte.
\<close>

theorem golden_mount_unit_built:
  "buildMountUnitContent golden_marker ''//nas.example.org/archive'' ''/home/tester/mnt/archive'' =
     Inr golden_mount_unit"
  by code_simp

theorem mount_unit_roundtrip_witness:
  "parseMarker golden_mount_unit = Inr golden_marker \<and>
   validateMountUnitBody golden_mount_unit golden_marker ''/home/tester/mnt/archive'' =
     Inr ''//nas.example.org/archive''"
proof (rule mount_unit_roundtrip)
  show "isValidShareId (marker_id golden_marker)" by code_simp
  show "validateUnc ''//nas.example.org/archive'' = Inr ''//nas.example.org/archive''"
    by code_simp
  show "buildMountUnitContent golden_marker ''//nas.example.org/archive''
      ''/home/tester/mnt/archive'' = Inr golden_mount_unit"
    by code_simp
qed

theorem automount_unit_roundtrip_witness:
  "\<exists>content. buildAutomountUnitContent golden_guest ''/home/tester/mnt/reference'' = Inr content \<and>
     parseMarker content = Inr golden_guest \<and>
     validateAutomountUnitBody content golden_guest ''/home/tester/mnt/reference'' = Inr ()"
proof -
  have valid: "isValidShareId (marker_id golden_guest)" by code_simp
  have "encodeUnitValue ''/home/tester/mnt/reference'' = Inr ''/home/tester/mnt/reference''"
    by code_simp
  then obtain content where
    built: "buildAutomountUnitContent golden_guest ''/home/tester/mnt/reference'' = Inr content"
    by (simp add: buildAutomountUnitContent_def)
  with automount_unit_roundtrip [OF valid built] show ?thesis by blast
qed

theorem validateUnc_sound_witness:
  "validateUnc ''//nas/Media/'' = Inr ''//nas/Media'' \<and> CHR '','' \<notin> set ''//nas/Media''"
proof -
  have "validateUnc ''//nas/Media/'' = Inr ''//nas/Media''" by code_simp
  with validateUnc_sound [OF this] show ?thesis by blast
qed

theorem validateMountpoint_plan_witness:
  "\<exists>plan. validateMountpoint ''/home/u//mnt/./nas'' ''/home/u'' = Inr plan \<and>
     plan_path plan = ''/home/u/mnt/nas'' \<and> plan_root plan \<in> set (allowed_roots ''/home/u'')"
proof -
  let ?plan = "\<lparr>plan_path = ''/home/u/mnt/nas'', plan_root = ''/home/u'',
    plan_suffix = [''mnt'', ''nas'']\<rparr>"
  have "validateMountpoint ''/home/u//mnt/./nas'' ''/home/u'' = Inr ?plan" by code_simp
  with validateMountpoint_plan [OF this] show ?thesis by auto
qed


theorem mountOptionsFor_terms_witness:
  "''ro'' \<in> set (split_on CHR '','' (mountOptionsFor golden_guest))"
proof -
  have "isValidShareId (marker_id golden_guest)" by code_simp
  from mountOptionsFor_terms [OF this] show ?thesis by (simp add: golden_guest_def)
qed

theorem mountOptionsFor_inject_witness:
  "mountOptionsFor golden_marker \<noteq> mountOptionsFor (golden_marker\<lparr>access := ReadWrite\<rparr>)"
proof
  assume eq: "mountOptionsFor golden_marker = mountOptionsFor (golden_marker\<lparr>access := ReadWrite\<rparr>)"
  have valid: "isValidShareId (marker_id golden_marker)"
    "isValidShareId (marker_id (golden_marker\<lparr>access := ReadWrite\<rparr>))"
    by code_simp+
  from mountOptionsFor_inject [OF valid eq] show False by (simp add: golden_marker_def)
qed

section \<open>Accepted inputs the code does not handle as documented\<close>


text \<open>The \<open>.mount\<close> file of a guest share whose \<open>Where=\<close> was written without doubling its percent sign.\<close>

definition undoubled_mount_unit :: qstring where
  "undoubled_mount_unit =
     mount_unit_text golden_guest ''//nas/Media'' ''//nas/Media'' ''/mnt/%h'' (mountOptionsFor golden_guest)"

text \<open>
  The \<open>.mount\<close> validator decodes \<open>Where=\<close> and compares the result, so it accepts the specifier
  \<open>/mnt/%h\<close> for the mount point \<open>/mnt/%h\<close>, although the generator only ever writes \<open>/mnt/%%h\<close> and
  systemd would expand the specifier.  The \<open>.automount\<close> validator compares the encoded text.
\<close>

theorem mount_validator_accepts_specifier:
  "validateMountUnitBody undoubled_mount_unit golden_guest ''/mnt/%h'' = Inr ''//nas/Media'' \<and>
   buildMountUnitContent golden_guest ''//nas/Media'' ''/mnt/%h'' \<noteq> Inr undoubled_mount_unit"
  by (intro conjI; code_simp)

end
