(* ===== verification/Verify.thy ===== *)
theory Verify
  imports DurableFs UnitInputs "HOL-Library.Multiset"
begin

text \<open>
  Model of \<open>src/core/verify.cpp\<close>: what is on disk at a unit name (\<open>inspectDefinition\<close>), every managed
  unit of the system (\<open>enumerateManagedUnits\<close>), and what is mounted and running at a mount point
  (\<open>inspectRuntime\<close>).  Reading a file or asking systemd is a step of the world; the decisions on what
  was read are functions of their own, as in the source.
\<close>

section \<open>Probing files by path\<close>

definition dir_part :: "qstring \<Rightarrow> qstring" where
  "dir_part p = rev (drop 1 (dropWhile (\<lambda>c. c \<noteq> CHR ''/'') (rev p)))"

definition base_part :: "qstring \<Rightarrow> qstring" where
  "base_part p = rev (takeWhile (\<lambda>c. c \<noteq> CHR ''/'') (rev p))"

text \<open>
  The directory a path goes through: one of the absolute directories of the host, or an entry of one
  of them (the private directories are made while the program runs).
\<close>

definition resolve_dir :: "'s world \<Rightarrow> qstring \<Rightarrow> nat option" where
  "resolve_dir w p =
     (case absolute w p of
        Some d \<Rightarrow> Some d
      | None \<Rightarrow> (case absolute w (dir_part p) of None \<Rightarrow> None | Some e \<Rightarrow> entry w e (base_part p)))"

text \<open>\<open>open(path, O_RDONLY | O_NOFOLLOW)\<close> and \<open>lstat(path) == 0\<close>.\<close>

definition open_path_nofollow :: "qstring \<Rightarrow> 's world \<Rightarrow> (errno + nat) \<times> 's world" where
  "open_path_nofollow p w =
     (case resolve_dir w (dir_part p) of
        None \<Rightarrow> attempt w (\<lambda>w. (Inl ENOENT, w))
      | Some d \<Rightarrow> openat_file d (base_part p) w)"

definition lstat_ok :: "qstring \<Rightarrow> 's world \<Rightarrow> bool \<times> 's world" where
  "lstat_ok p w =
     (case resolve_dir w (dir_part p) of
        None \<Rightarrow> (False, snd (next_outcome w))
      | Some d \<Rightarrow> (case fstatat d (base_part p) w of (r, w') \<Rightarrow> (\<not> isl r, w')))"

text \<open>\<open>QFile::readAll\<close> on a file of the given size: on an error it returns what it has read.\<close>

function read_all :: "nat \<Rightarrow> nat \<Rightarrow> qstring \<Rightarrow> 's world \<Rightarrow> qstring \<times> 's world" where
  "read_all fd len acc w =
     (if length acc < len then
        (case read_chunk fd (length acc) (len - length acc) w of
           (Inl e, w1) \<Rightarrow> (acc, w1)
         | (Inr bytes, w1) \<Rightarrow> if bytes = [] then (acc, w1) else read_all fd len (acc @ bytes) w1)
      else (acc, w))"
  by pat_completeness auto
termination
  by (relation "measure (\<lambda>(fd, len, acc, w). len - length acc)") (auto intro!: diff_less_mono2)

declare read_all.simps [simp del]

datatype FileProbe = ProbeMissing | ProbeTampered | ProbeOk qstring

definition safe_unit_file :: "inode \<Rightarrow> bool" where
  "safe_unit_file st \<longleftrightarrow> ikind st = RegularFile \<and> iuid st = 0 \<and> imode st AND 18 = 0"

definition probeUnitFile :: "qstring \<Rightarrow> 's world \<Rightarrow> FileProbe \<times> 's world" where
  "probeUnitFile path w =
     (case open_path_nofollow path w of
        (Inl e, w1) \<Rightarrow> (if e = ENOENT then ProbeMissing else ProbeTampered, w1)
      | (Inr fd, w1) \<Rightarrow>
     (case fstat fd w1 of
        (Inl e, w2) \<Rightarrow> (ProbeTampered, close_fd w2)
      | (Inr st, w2) \<Rightarrow>
          if \<not> safe_unit_file st then (ProbeTampered, close_fd w2)
          else (case read_all fd (length (idata st)) [] w2 of
            (content, w3) \<Rightarrow> (ProbeOk content, close_fd w3))))"

definition dropInExists :: "qstring \<Rightarrow> 's world \<Rightarrow> bool \<times> 's world" where
  "dropInExists unitPath w = lstat_ok (unitPath @ ''.d'') w"

text \<open>Last assignment wins.\<close>

definition extractAssignment :: "qstring \<Rightarrow> qstring \<Rightarrow> qstring option" where
  "extractAssignment content key =
     (case filter (prefix (key @ ''='')) (lines_of content) of
        [] \<Rightarrow> None
      | ls \<Rightarrow> Some (drop (length key + 1) (last ls)))"

section \<open>One definition\<close>

text \<open>\<open>SideState\<close> and \<open>SideCheck\<close>: the marker and \<open>What=\<close> are there for a valid side only.\<close>

datatype side_check = SideNotPresent | SideNoMarker | SideBroken | SideValid marker qstring

definition parseOwnedMarker :: "qstring \<Rightarrow> uid \<Rightarrow> marker option" where
  "parseOwnedMarker content expectedUid =
     (if \<not> hasMarker content then None
      else case parseMarker content of
        Inl e \<Rightarrow> None
      | Inr m \<Rightarrow> if ownerUid m = expectedUid then Some m else None)"

text \<open>The content of a probe that is not \<open>Ok\<close> is empty.\<close>

fun probe_content :: "FileProbe \<Rightarrow> qstring" where
  "probe_content (ProbeOk c) = c"
| "probe_content _ = []"

definition evaluateMountSide :: "FileProbe \<Rightarrow> uid \<Rightarrow> qstring \<Rightarrow> side_check" where
  "evaluateMountSide probe expectedUid canonicalMountPoint =
     (if probe = ProbeMissing then SideNotPresent
      else let content = probe_content probe in
      if \<not> hasMarker content then SideNoMarker
      else case parseOwnedMarker content expectedUid of
        None \<Rightarrow> SideBroken
      | Some m \<Rightarrow>
          (case validateMountUnitBody content m canonicalMountPoint of
             Inl e \<Rightarrow> SideBroken
           | Inr what \<Rightarrow> SideValid m what))"

definition evaluateAutomountSide :: "FileProbe \<Rightarrow> uid \<Rightarrow> qstring \<Rightarrow> side_check" where
  "evaluateAutomountSide probe expectedUid canonicalMountPoint =
     (if probe = ProbeMissing then SideNotPresent
      else let content = probe_content probe in
      if \<not> hasMarker content then SideNoMarker
      else case parseOwnedMarker content expectedUid of
        None \<Rightarrow> SideBroken
      | Some m \<Rightarrow>
          (case validateAutomountUnitBody content m canonicalMountPoint of
             Inl e \<Rightarrow> SideBroken
           | Inr _ \<Rightarrow> SideValid m []))"

datatype Definition = DefNone | DefPair | DefPartial | DefTampered | DefNotOurs

record definition_check =
  def_state :: Definition
  def_id :: qstring
  def_ownerUid :: uid
  def_ownerGid :: gid
  def_authentication :: AuthenticationKind
  def_access :: AccessMode
  canonicalMountPoint :: qstring
  mountUnitName :: qstring
  automountUnitName :: qstring
  def_what :: qstring
  def_reason :: qstring
  def_detail :: qstring

definition empty_check :: "qstring \<Rightarrow> qstring \<Rightarrow> definition_check" where
  "empty_check name mountPoint =
     \<lparr>def_state = DefNone, def_id = [], def_ownerUid = 0, def_ownerGid = 0,
      def_authentication = Credentials, def_access = ReadWrite, canonicalMountPoint = mountPoint,
      mountUnitName = name @ ''.mount'', automountUnitName = name @ ''.automount'',
      def_what = [], def_reason = [], def_detail = []\<rparr>"

definition applyMarker :: "marker \<Rightarrow> definition_check \<Rightarrow> definition_check" where
  "applyMarker m r = r\<lparr>def_id := marker_id m, def_ownerUid := ownerUid m, def_ownerGid := ownerGid m,
     def_authentication := authentication m, def_access := access m\<rparr>"

text \<open>The decision on the two sides; \<open>r\<close> is the check with the names filled in.\<close>

definition decide_sides :: "side_check \<Rightarrow> side_check \<Rightarrow> definition_check \<Rightarrow> definition_check" where
  "decide_sides mountSide automountSide r =
     (if mountSide = SideBroken \<or> automountSide = SideBroken then
        r\<lparr>def_state := DefTampered, def_reason := ''marker-or-body-invalid'',
          def_detail := ''marker incomplete, owner-uid mismatched, or the unit body does not match the restricted template''\<rparr>
      else if mountSide = SideNoMarker \<or> automountSide = SideNoMarker then
        r\<lparr>def_state := DefNotOurs, def_reason := ''not-ours'',
          def_detail := ''a unit already exists at this name and is not managed by this tool''\<rparr>
      else case (mountSide, automountSide) of
        (SideValid m what, SideValid m' _) \<Rightarrow>
          if m \<noteq> m' then
            r\<lparr>def_state := DefTampered, def_reason := ''pair-marker-mismatch'',
              def_detail := ''the pair disagrees on a marker field''\<rparr>
          else (applyMarker m r)\<lparr>def_state := DefPair, def_what := what\<rparr>
      | (SideValid m what, _) \<Rightarrow>
          (applyMarker m r)\<lparr>def_state := DefPartial, def_what := what, def_reason := ''partial'',
            def_detail := ''only one half of the pair exists''\<rparr>
      | (_, SideValid m _) \<Rightarrow>
          (applyMarker m r)\<lparr>def_state := DefPartial, def_what := [], def_reason := ''partial'',
            def_detail := ''only one half of the pair exists''\<rparr>
      | _ \<Rightarrow> r\<lparr>def_state := DefNone\<rparr>)"

definition decide_definition ::
    "FileProbe \<Rightarrow> FileProbe \<Rightarrow> bool \<Rightarrow> uid \<Rightarrow> qstring \<Rightarrow> qstring \<Rightarrow> definition_check" where
  "decide_definition mountProbe automountProbe dropIn expectedUid name mountPoint =
     (let r = empty_check name mountPoint in
      if mountProbe = ProbeTampered \<or> automountProbe = ProbeTampered then
        r\<lparr>def_state := DefTampered, def_reason := ''unsafe-file'',
          def_detail := ''unit file is a symlink, not a regular root-owned file, or is group/world-writable''\<rparr>
      else if dropIn then
        r\<lparr>def_state := DefTampered, def_reason := ''drop-in-present'',
          def_detail := ''a drop-in exists for this unit; drop-ins are rejected outright''\<rparr>
      else if mountProbe = ProbeMissing \<and> automountProbe = ProbeMissing then r\<lparr>def_state := DefNone\<rparr>
      else decide_sides (evaluateMountSide mountProbe expectedUid mountPoint)
             (evaluateAutomountSide automountProbe expectedUid mountPoint) r)"

text \<open>
  The drop-ins are looked at only when neither probe is tampered, and the second only when the
  first does not exist.
\<close>

definition inspectDefinition ::
    "unit_paths \<Rightarrow> uid \<Rightarrow> qstring \<Rightarrow> 's world \<Rightarrow> definition_check \<times> 's world" where
  "inspectDefinition paths expectedUid mountPoint w =
     (case probeUnitFile (mountUnitPath paths) w of
        (mp, w1) \<Rightarrow>
     (case probeUnitFile (automountUnitPath paths) w1 of
        (ap, w2) \<Rightarrow>
     (case (if mp = ProbeTampered \<or> ap = ProbeTampered then (False, w2)
            else case dropInExists (mountUnitPath paths) w2 of
              (True, w3) \<Rightarrow> (True, w3)
            | (False, w3) \<Rightarrow> dropInExists (automountUnitPath paths) w3) of
        (dropIn, w4) \<Rightarrow>
          (decide_definition mp ap dropIn expectedUid (unitName paths) mountPoint, w4))))"

section \<open>Every managed unit\<close>

record scanned_half =
  half_base :: qstring
  half_mount :: bool
  half_marker :: marker
  half_where :: qstring
  half_what :: qstring

record owned_unit =
  own_mountPoint :: qstring
  own_unitName :: qstring
  own_id :: qstring
  own_uid :: uid
  own_gid :: gid
  own_authentication :: AuthenticationKind
  own_access :: AccessMode
  own_state :: Definition
  own_detail :: qstring
  own_what :: qstring

definition empty_unit :: "qstring \<Rightarrow> owned_unit" where
  "empty_unit name = \<lparr>own_mountPoint = [], own_unitName = name, own_id = [], own_uid = 0, own_gid = 0,
     own_authentication = Credentials, own_access = ReadWrite, own_state = DefNone, own_detail = [],
     own_what = []\<rparr>"

text \<open>The group of one base name: for each kind the half assigned last.\<close>

definition last_half :: "bool \<Rightarrow> qstring \<Rightarrow> scanned_half list \<Rightarrow> scanned_half option" where
  "last_half isMount name halves =
     (case filter (\<lambda>h. half_mount h = isMount \<and> half_base h = name) halves of
        [] \<Rightarrow> None | hs \<Rightarrow> Some (last hs))"

definition unit_of_half :: "scanned_half \<Rightarrow> owned_unit \<Rightarrow> owned_unit" where
  "unit_of_half h u = u\<lparr>own_mountPoint := half_where h, own_id := marker_id (half_marker h),
     own_uid := ownerUid (half_marker h), own_gid := ownerGid (half_marker h),
     own_authentication := authentication (half_marker h), own_access := access (half_marker h)\<rparr>"

definition pair_group ::
    "qstring \<Rightarrow> scanned_half option \<Rightarrow> scanned_half option \<Rightarrow> owned_unit" where
  "pair_group name mountHalf automountHalf =
     (let u = empty_unit name in
      case (mountHalf, automountHalf) of
        (Some m, Some a) \<Rightarrow>
          if half_marker m \<noteq> half_marker a \<or> half_where m \<noteq> half_where a then
            u\<lparr>own_state := DefTampered, own_detail := ''the pair disagrees on a marker field or Where=''\<rparr>
          else (unit_of_half m u)\<lparr>own_state := DefPair, own_what := half_what m\<rparr>
      | (Some m, None) \<Rightarrow>
          (unit_of_half m u)\<lparr>own_state := DefPartial, own_what := half_what m,
            own_detail := ''only one half of the pair exists''\<rparr>
      | (None, Some a) \<Rightarrow>
          (unit_of_half a u)\<lparr>own_state := DefPartial, own_what := [],
            own_detail := ''only one half of the pair exists''\<rparr>
      | (None, None) \<Rightarrow> u)"

text \<open>The keys of the \<open>QMap\<close>, in its order, each with its group.\<close>

definition group_names :: "scanned_half list \<Rightarrow> qstring list" where
  "group_names halves = sort (remdups (map half_base halves))"

definition pair_groups :: "scanned_half list \<Rightarrow> owned_unit list" where
  "pair_groups halves =
     map (\<lambda>name. pair_group name (last_half True name halves) (last_half False name halves))
       (group_names halves)"

text \<open>The second pass: which entries share an id or a mount point with another one.\<close>

definition trusted :: "owned_unit \<Rightarrow> bool" where
  "trusted u \<longleftrightarrow> own_state u \<noteq> DefTampered"

definition collides :: "owned_unit list \<Rightarrow> owned_unit \<Rightarrow> bool" where
  "collides us u \<longleftrightarrow> trusted u \<and>
     (1 < length (filter (\<lambda>v. trusted v \<and> own_id v = own_id u) us) \<or>
      1 < length (filter (\<lambda>v. trusted v \<and> own_mountPoint v = own_mountPoint u) us))"

definition demote :: "owned_unit \<Rightarrow> owned_unit" where
  "demote u = u\<lparr>own_state := DefTampered,
     own_detail := ''collides with another definition on id or mount point'',
     own_id := [], own_uid := 0, own_gid := 0, own_authentication := Credentials,
     own_access := ReadWrite\<rparr>"

definition pairScannedHalves :: "scanned_half list \<Rightarrow> owned_unit list" where
  "pairScannedHalves halves =
     (let us = pair_groups halves in map (\<lambda>u. if collides us u then demote u else u) us)"

section \<open>Scanning the unit directory\<close>

definition units_dir :: qstring where
  "units_dir = ''/etc/systemd/system''"

text \<open>
  \<open>QDir::entryList\<close> with the name filters \<open>*.mount\<close> and \<open>*.automount\<close> and \<open>QDir::Files\<close>: regular files
  and links to such, hidden names left out, sorted by name without regard to case; the name filters
  do not distinguish case either.
\<close>

definition to_lower :: "char \<Rightarrow> char" where
  "to_lower c = (if CHR ''A'' \<le> c \<and> c \<le> CHR ''Z'' then char_of ((of_char c :: nat) + 32) else c)"

definition lists_as_file :: "'s world \<Rightarrow> nat \<Rightarrow> bool" where
  "lists_as_file w i =
     (case inodes w i of
        None \<Rightarrow> False
      | Some n \<Rightarrow>
          (case ikind n of
             RegularFile \<Rightarrow> True
           | SymbolicLink (Some j) \<Rightarrow> map_option ikind (inodes w j) = Some RegularFile
           | _ \<Rightarrow> False))"

definition is_unit_name :: "qstring \<Rightarrow> bool" where
  "is_unit_name name \<longleftrightarrow> \<not> prefix ''.'' name \<and>
     (suffix ''.mount'' (map to_lower name) \<or> suffix ''.automount'' (map to_lower name))"

definition unit_files :: "'s world \<Rightarrow> qstring list" where
  "unit_files w =
     (case absolute w units_dir of
        None \<Rightarrow> []
      | Some d \<Rightarrow>
          (case inodes w d of
             None \<Rightarrow> []
           | Some n \<Rightarrow> sort_key (map to_lower)
               (map fst (filter (\<lambda>p. is_unit_name (fst p) \<and> lists_as_file w (snd p)) (ients n)))))"

definition unit_file_path :: "qstring \<Rightarrow> qstring" where
  "unit_file_path name = units_dir @ ''/'' @ name"

text \<open>One file: None where the loop goes on to the next.\<close>

definition half_of_content :: "uid option \<Rightarrow> qstring \<Rightarrow> qstring \<Rightarrow> scanned_half option" where
  "half_of_content onlyUid name content =
     (case parseMarker content of
        Inl e \<Rightarrow> None
      | Inr m \<Rightarrow>
          if (case onlyUid of None \<Rightarrow> False | Some u \<Rightarrow> ownerUid m \<noteq> u) then None
          else (case extractAssignment content ''Where'' of
            None \<Rightarrow> None
          | Some whereRaw \<Rightarrow>
              let isMount = suffix ''.mount'' name in
              Some \<lparr>half_base = take (length name - (if isMount then 6 else 10)) name,
                    half_mount = isMount, half_marker = m, half_where = undoublePercent whereRaw,
                    half_what =
                      (if isMount then
                         (case extractAssignment content ''What'' of
                            None \<Rightarrow> [] | Some whatRaw \<Rightarrow> undoublePercent whatRaw)
                       else [])\<rparr>))"

fun scan_files :: "uid option \<Rightarrow> qstring list \<Rightarrow> 's world \<Rightarrow> scanned_half list \<times> 's world" where
  "scan_files onlyUid [] w = ([], w)"
| "scan_files onlyUid (name # names) w =
     (case probeUnitFile (unit_file_path name) w of
        (probe, w1) \<Rightarrow>
     (case scan_files onlyUid names w1 of
        (halves, w2) \<Rightarrow>
          ((case probe of
              ProbeOk content \<Rightarrow>
                (case half_of_content onlyUid name content of None \<Rightarrow> halves | Some h \<Rightarrow> h # halves)
            | _ \<Rightarrow> halves), w2)))"

definition scanManagedHalves :: "uid option \<Rightarrow> 's world \<Rightarrow> scanned_half list \<times> 's world" where
  "scanManagedHalves onlyUid w = scan_files onlyUid (unit_files w) w"

definition enumerateOwnedUnits :: "uid \<Rightarrow> 's world \<Rightarrow> owned_unit list \<times> 's world" where
  "enumerateOwnedUnits u w = (case scanManagedHalves (Some u) w of (hs, w') \<Rightarrow> (pairScannedHalves hs, w'))"

definition enumerateManagedUnits :: "'s world \<Rightarrow> owned_unit list \<times> 's world" where
  "enumerateManagedUnits w = (case scanManagedHalves None w of (hs, w') \<Rightarrow> (pairScannedHalves hs, w'))"

section \<open>The mount table\<close>

record mount_entry =
  mountId :: int
  parentId :: int
  entry_mountPoint :: qstring
  filesystemType :: qstring
  mountSource :: qstring

definition unescapeMountinfoField :: "qstring \<Rightarrow> qstring" where
  "unescapeMountinfoField field =
     replace_all (CHR 0x5C # ''134'') [CHR 0x5C]
       (replace_all (CHR 0x5C # ''012'') [CHR 0x0A]
         (replace_all (CHR 0x5C # ''011'') [CHR 0x09]
           (replace_all (CHR 0x5C # ''040'') '' '' field)))"

text \<open>\<open>QString::toLongLong\<close> of a field: an optional sign and decimal digits, in the range of 64 bits.\<close>

definition to_llong :: "qstring \<Rightarrow> int option" where
  "to_llong s =
     (let neg = prefix ''-'' s; ds = (if neg \<or> prefix ''+'' s then tl s else s);
          v = (if neg then - int (parse_decimal ds) else int (parse_decimal ds)) in
      if ds \<noteq> [] \<and> list_all is_digit ds \<and> - (2 ^ 63) \<le> v \<and> v < 2 ^ 63 then Some v else None)"

text \<open>The index of the separator, from field 6 on.\<close>

definition separator_index :: "qstring list \<Rightarrow> nat option" where
  "separator_index fs =
     (let i = 6 + length (takeWhile (\<lambda>f. f \<noteq> ''-'') (drop 6 fs)) in
      if i < length fs then Some i else None)"

definition parse_mount_line :: "qstring \<Rightarrow> mount_entry option" where
  "parse_mount_line line =
     (let fs = split_skip_empty CHR '' '' line in
      case separator_index fs of
        None \<Rightarrow> None
      | Some sep \<Rightarrow>
          if length fs \<le> sep + 2 \<or> length fs \<le> 4 then None
          else (case (to_llong (fs ! 0), to_llong (fs ! 1)) of
            (Some i, Some p) \<Rightarrow>
              Some \<lparr>mountId = i, parentId = p,
                    entry_mountPoint = unescapeMountinfoField (fs ! 4),
                    filesystemType = fs ! (sep + 1),
                    mountSource = unescapeMountinfoField (fs ! (sep + 2))\<rparr>
          | _ \<Rightarrow> None))"

definition parseMountinfo :: "qstring \<Rightarrow> mount_entry list" where
  "parseMountinfo content = List.map_filter parse_mount_line (split_skip_empty CHR 0x0A content)"

datatype MountState = MountAbsent | MountPresent | MountIndeterminate
datatype VerificationState = VerNotApplicable | VerMatch | VerMismatch | VerIndeterminate

text \<open>An entry of the stack is covered when another one names it as its parent; positions stand for pointers.\<close>

definition covered :: "(nat \<times> mount_entry) list \<Rightarrow> nat \<times> mount_entry \<Rightarrow> bool" where
  "covered stack c \<longleftrightarrow> (\<exists>d \<in> set stack. fst d \<noteq> fst c \<and> parentId (snd d) = mountId (snd c))"

definition classify_top :: "mount_entry \<Rightarrow> qstring \<Rightarrow> MountState \<times> VerificationState" where
  "classify_top t expectedWhat =
     (if filesystemType t = ''cifs'' then
        (MountPresent, if mountSource t = expectedWhat then VerMatch else VerMismatch)
      else if filesystemType t = ''autofs'' then (MountAbsent, VerNotApplicable)
      else (MountPresent, VerMismatch))"

definition classifyMountEntries ::
    "mount_entry list \<Rightarrow> qstring \<Rightarrow> qstring \<Rightarrow> MountState \<times> VerificationState" where
  "classifyMountEntries es mountPoint expectedWhat =
     (let stack = List.enumerate 0 (filter (\<lambda>e. entry_mountPoint e = cleanPath mountPoint) es) in
      if stack = [] then (MountAbsent, VerNotApplicable)
      else case filter (\<lambda>c. \<not> covered stack c) stack of
        [c] \<Rightarrow> classify_top (snd c) expectedWhat
      | _ \<Rightarrow> (MountIndeterminate, VerIndeterminate))"

section \<open>The runtime of a share\<close>

datatype AutomountState = AutoInactive | AutoActive | AutoIndeterminate
datatype ActivationTrust = TrustNotApplicable | Trusted | Untrusted

record runtime_snapshot =
  snap_automount :: AutomountState
  snap_mount :: MountState
  snap_verification :: VerificationState
  snap_trust :: ActivationTrust

definition systemctlShow :: "'s platform \<Rightarrow> 's world \<Rightarrow> qstring \<Rightarrow> qstring \<Rightarrow> qstring option" where
  "systemctlShow P w unit property = map_option trimmed (ctl_show P (services w) unit property)"

text \<open>\<open>QByteArray::toULongLong\<close> of trimmed text.\<close>

definition to_ulong64 :: "qstring \<Rightarrow> (64 word) option" where
  "to_ulong64 s =
     (let ds = (if prefix ''+'' s then tl s else s) in
      if ds \<noteq> [] \<and> list_all is_digit ds \<and> parse_decimal ds < 2 ^ 64
      then Some (word_of_nat (parse_decimal ds)) else None)"

lemma to_ulong64_code [code]:
  "to_ulong64 s =
     (let ds = (if prefix ''+'' s then tl s else s) in
      if ds \<noteq> [] \<and> list_all is_digit ds \<and> decimal_int ds < 18446744073709551616
      then Some (word_of_int (decimal_int ds)) else None)"
proof -
  have "parse_decimal ds < 2 ^ 64 \<longleftrightarrow> decimal_int ds < 18446744073709551616"
    "(word_of_nat (parse_decimal ds) :: 64 word) = word_of_int (decimal_int ds)" if d: "list_all is_digit ds" for ds
  proof -
    have "int (parse_decimal ds) < 18446744073709551616 \<longleftrightarrow> parse_decimal ds < 18446744073709551616" by linarith
    then show "parse_decimal ds < 2 ^ 64 \<longleftrightarrow> decimal_int ds < 18446744073709551616" using decimal_int [OF d] by simp
    show "(word_of_nat (parse_decimal ds) :: 64 word) = word_of_int (decimal_int ds)"
      by (simp only: decimal_int [OF d, symmetric] of_int_of_nat_eq)
  qed
  then show ?thesis unfolding to_ulong64_def Let_def
    by (cases "list_all is_digit (if prefix ''+'' s then tl s else s)") (simp_all only: simp_thms if_False)
qed

definition readRecordedAutomountId :: "qstring \<Rightarrow> 's world \<Rightarrow> 64 word \<times> 's world" where
  "readRecordedAutomountId name w =
     (case open_path_nofollow (''/run/nasmount-ids/'' @ name) w of
        (Inl e, w1) \<Rightarrow> (0, w1)
      | (Inr fd, w1) \<Rightarrow>
     (case fstat fd w1 of
        (Inl e, w2) \<Rightarrow> (0, close_fd w2)
      | (Inr st, w2) \<Rightarrow>
          if \<not> safe_unit_file st \<or> 32 < length (idata st) then (0, close_fd w2)
          else (case read_all fd (length (idata st)) [] w2 of
            (content, w3) \<Rightarrow>
              (case to_ulong64 (bytes_trimmed content) of None \<Rightarrow> 0 | Some i \<Rightarrow> i, close_fd w3))))"

definition uniqueMountId :: "'s platform \<Rightarrow> 's world \<Rightarrow> qstring \<Rightarrow> 64 word" where
  "uniqueMountId P w path = unique_mount_id P (services w) path"

definition automount_state :: "qstring option \<Rightarrow> AutomountState" where
  "automount_state r =
     (case r of
        None \<Rightarrow> AutoIndeterminate
      | Some s \<Rightarrow>
          if s = ''active'' then AutoActive
          else if s = ''inactive'' \<or> s = ''failed'' then AutoInactive
          else AutoIndeterminate)"

text \<open>The mount table against what PID 1 says of the \<open>.mount\<close> unit.\<close>

definition cross_check ::
    "MountState \<times> VerificationState \<Rightarrow> qstring option \<Rightarrow> MountState \<times> VerificationState" where
  "cross_check c r =
     (case r of
        None \<Rightarrow> (MountIndeterminate, VerIndeterminate)
      | Some s \<Rightarrow>
          if s = ''active'' \<or> s = ''inactive'' \<or> s = ''failed'' then
            if (s = ''active'') \<noteq> (fst c = MountPresent) then (MountIndeterminate, VerIndeterminate)
            else c
          else (MountIndeterminate, VerIndeterminate))"

definition mount_axes ::
    "'s platform \<Rightarrow> 's world \<Rightarrow> qstring \<Rightarrow> qstring \<Rightarrow> qstring \<Rightarrow> MountState \<times> VerificationState" where
  "mount_axes P w name mountPoint expectedWhat =
     (case mountinfo P (services w) of
        None \<Rightarrow> (MountIndeterminate, VerIndeterminate)
      | Some content \<Rightarrow>
          cross_check (classifyMountEntries (parseMountinfo content) mountPoint expectedWhat)
            (systemctlShow P w (name @ ''.mount'') ''ActiveState''))"

definition inspectRuntime ::
    "'s platform \<Rightarrow> qstring \<Rightarrow> qstring \<Rightarrow> qstring \<Rightarrow> 's world \<Rightarrow> runtime_snapshot \<times> 's world" where
  "inspectRuntime P name mountPoint expectedWhat w =
     (let auto = automount_state (systemctlShow P w (name @ ''.automount'') ''ActiveState'');
          axes = mount_axes P w name mountPoint expectedWhat in
      case (if auto = AutoActive then
              (case readRecordedAutomountId name w of
                 (recorded, w1) \<Rightarrow>
                   (let current = uniqueMountId P w1 mountPoint in
                    (if recorded \<noteq> 0 \<and> current \<noteq> 0 \<and> recorded = current then Trusted else Untrusted, w1)))
            else (TrustNotApplicable, w)) of
        (trust, w') \<Rightarrow>
          (\<lparr>snap_automount = auto, snap_mount = fst axes, snap_verification = snd axes,
            snap_trust = trust\<rparr>, w'))"

section \<open>Probes change nothing\<close>

lemma next_outcome_snd: "reads 0 w (snd (next_outcome w))"
  using next_outcome_reads [of w "fst (next_outcome w)" "snd (next_outcome w)"] by simp

lemma open_path_nofollow_result:
  assumes "open_path_nofollow p w = (r, w')"
  shows "case r of Inl e \<Rightarrow> reads 0 w w'
    | Inr fd \<Rightarrow> reads 1 w w' \<and> (\<exists>d. resolve_dir w (dir_part p) = Some d \<and> entry w d (base_part p) = Some fd)"
proof (cases "resolve_dir w (dir_part p)")
  case None
  then show ?thesis using assms by (auto simp: open_path_nofollow_def elim!: attempt_cases)
next
  case (Some d)
  then show ?thesis using assms openat_file_result [of d "base_part p" w r w']
    by (auto simp: open_path_nofollow_def split: sum.splits)
qed

lemma read_all_reads: "read_all fd len acc w = (c, w') \<Longrightarrow> reads 0 w w'"
proof (induction fd len acc w rule: read_all.induct)
  case (1 fd len acc w)
  obtain r1 w1 where w1: "read_chunk fd (length acc) (len - length acc) w = (r1, w1)" by fastforce
  have r: "reads 0 w w1" using read_chunk_result [OF w1] by simp
  show ?case
  proof (cases "length acc < len \<and> (\<exists>bs. r1 = Inr bs \<and> bs \<noteq> [])")
    case True
    then obtain bs where bs: "r1 = Inr bs" "bs \<noteq> []" by blast
    then have "read_all fd len (acc @ bs) w1 = (c, w')"
      using 1(2) True by (simp add: read_all.simps [of fd len acc] w1)
    then show ?thesis using 1(1) [OF _ w1 [symmetric] bs] True r reads_0_trans by blast
  next
    case False
    then have "w' = w1 \<or> w' = w"
      using 1(2) by (cases r1) (auto simp: read_all.simps [of fd len acc] w1 split: if_splits)
    then show ?thesis using r by auto
  qed
qed

lemma read_all_works:
  assumes "sched w = []" "inodes w fd = Some n"
  shows "read_all fd (length (idata n)) [] w = (idata n, w)"
proof (cases "idata n = []")
  case True
  then show ?thesis by (simp add: read_all.simps)
next
  case False
  have "read_chunk fd 0 (length (idata n)) w = (Inr (idata n), w)"
    using assms by (simp add: read_chunk_def)
  moreover have "read_all fd (length (idata n)) (idata n) w = (idata n, w)"
    by (simp add: read_all.simps)
  ultimately show ?thesis using False by (subst read_all.simps) simp
qed

text \<open>An opened file is looked at and closed again.\<close>

lemma reads_and_close:
  assumes "reads 1 w w1" "reads 0 w1 w2"
  shows "reads 0 w (close_fd w2)"
  using reads_trans [OF reads_trans [OF assms] reads_close] by simp

lemma probeUnitFile_reads:
  assumes "probeUnitFile p w = (r, w')"
  shows "reads 0 w w'"
proof -
  obtain r1 w1 where 1: "open_path_nofollow p w = (r1, w1)" by fastforce
  show ?thesis
  proof (cases r1)
    case (Inl e)
    then show ?thesis using assms open_path_nofollow_result [OF 1] by (auto simp: probeUnitFile_def 1)
  next
    case (Inr fd)
    then have o: "reads 1 w w1" using open_path_nofollow_result [OF 1] by simp
    obtain r2 w2 where 2: "fstat fd w1 = (r2, w2)" by fastforce
    have s: "reads 0 w1 w2" using fstat_result [OF 2] by simp
    define w3 where "w3 = snd (read_all fd (length (idata (projr r2))) [] w2)"
    have s3: "reads 0 w1 w3"
      using reads_0_trans [OF s] read_all_reads [OF prod.collapse [symmetric]] unfolding w3_def by blast
    have "w' = close_fd w2 \<or> w' = close_fd w3"
      using assms Inr by (cases r2) (auto simp: probeUnitFile_def 1 2 w3_def split: if_splits prod.splits)
    then show ?thesis using reads_and_close [OF o s] reads_and_close [OF o s3] by blast
  qed
qed

lemma lstat_ok_reads: "lstat_ok p w = (b, w') \<Longrightarrow> reads 0 w w'"
  using next_outcome_snd [of w]
  by (auto simp: lstat_ok_def split: option.splits prod.splits dest!: conjunct1 [OF fstatat_result])

lemma inspectDefinition_reads:
  assumes "inspectDefinition paths u mp w = (r, w')"
  shows "reads 0 w w'"
proof -
  obtain p1 w1 where 1: "probeUnitFile (mountUnitPath paths) w = (p1, w1)" by fastforce
  obtain p2 w2 where 2: "probeUnitFile (automountUnitPath paths) w1 = (p2, w2)" by fastforce
  obtain b3 w3 where 3: "dropInExists (mountUnitPath paths) w2 = (b3, w3)" by fastforce
  obtain b4 w4 where 4: "dropInExists (automountUnitPath paths) w3 = (b4, w4)" by fastforce
  have r2: "reads 0 w w2" using probeUnitFile_reads [OF 1] probeUnitFile_reads [OF 2] reads_0_trans by blast
  have r3: "reads 0 w w3" using reads_0_trans [OF r2 lstat_ok_reads [OF 3 [unfolded dropInExists_def]]] .
  have r4: "reads 0 w w4" using reads_0_trans [OF r3 lstat_ok_reads [OF 4 [unfolded dropInExists_def]]] .
  have "w' = w2 \<or> w' = w3 \<or> w' = w4"
    using assms by (auto simp: inspectDefinition_def 1 2 3 4 split: if_splits bool.splits)
  then show ?thesis using r2 r3 r4 by blast
qed

lemma scan_files_reads: "scan_files u names w = (hs, w') \<Longrightarrow> reads 0 w w'"
proof (induction names arbitrary: w hs)
  case (Cons name names)
  obtain p w1 where 1: "probeUnitFile (unit_file_path name) w = (p, w1)" by fastforce
  obtain hs1 w2 where 2: "scan_files u names w1 = (hs1, w2)" by fastforce
  have "w' = w2" using Cons.prems by (auto simp: 1 2)
  then show ?case using probeUnitFile_reads [OF 1] Cons.IH [of w1 hs1] 2 reads_0_trans by blast
qed simp

section \<open>When a definition counts as a pair\<close>

lemma parseMarker_hasMarker:
  assumes "parseMarker c = Inr m"
  shows "hasMarker c"
proof (rule ccontr)
  assume "\<not> hasMarker c"
  then have "filter is_marker_line (lines_of c) = []" by (auto simp: hasMarker_def filter_empty_conv)
  then have "scan_lines (lines_of c) empty_scan = Inr empty_scan"
    using scan_lines_filter [of "lines_of c" empty_scan] by simp
  moreover have "missing_field fieldSpecs empty_scan \<noteq> None"
    by (simp add: fieldSpecs_def empty_scan_def)
  ultimately show False using assms by (auto simp: parseMarker_def marker_of_scan_def split: option.splits)
qed

lemma parseOwnedMarker_Some:
  "parseOwnedMarker c u = Some m \<longleftrightarrow> parseMarker c = Inr m \<and> ownerUid m = u"
  using parseMarker_hasMarker by (auto simp: parseOwnedMarker_def split: sum.splits if_splits)

lemma evaluateMountSide_Valid:
  "evaluateMountSide p u mp = SideValid m what \<longleftrightarrow>
   (\<exists>c. p = ProbeOk c \<and> parseMarker c = Inr m \<and> ownerUid m = u \<and> validateMountUnitBody c m mp = Inr what)"
proof (cases p)
  case (ProbeOk c)
  show ?thesis
  proof (cases "parseOwnedMarker c u")
    case None
    then have "\<not> (parseMarker c = Inr m \<and> ownerUid m = u)" using parseOwnedMarker_Some [of c u m] by simp
    then show ?thesis using ProbeOk None by (auto simp: evaluateMountSide_def)
  next
    case (Some m')
    then have m': "parseMarker c = Inr m'" "ownerUid m' = u" by (simp_all add: parseOwnedMarker_Some)
    then show ?thesis using ProbeOk Some parseMarker_hasMarker [OF m'(1)]
      by (auto simp: evaluateMountSide_def split: sum.splits)
  qed
qed (simp_all add: evaluateMountSide_def hasMarker_def MarkerPrefix_def)

lemma evaluateAutomountSide_Valid:
  "evaluateAutomountSide p u mp = SideValid m what \<longleftrightarrow> what = [] \<and>
   (\<exists>c. p = ProbeOk c \<and> parseMarker c = Inr m \<and> ownerUid m = u \<and> validateAutomountUnitBody c m mp = Inr ())"
proof (cases p)
  case (ProbeOk c)
  show ?thesis
  proof (cases "parseOwnedMarker c u")
    case None
    then have "\<not> (parseMarker c = Inr m \<and> ownerUid m = u)" using parseOwnedMarker_Some [of c u m] by simp
    then show ?thesis using ProbeOk None by (auto simp: evaluateAutomountSide_def)
  next
    case (Some m')
    then have m': "parseMarker c = Inr m'" "ownerUid m' = u" by (simp_all add: parseOwnedMarker_Some)
    then show ?thesis using ProbeOk Some parseMarker_hasMarker [OF m'(1)]
      by (auto simp: evaluateAutomountSide_def split: sum.splits)
  qed
qed (simp_all add: evaluateAutomountSide_def hasMarker_def MarkerPrefix_def)

lemma decide_sides_Pair:
  "def_state (decide_sides s t r) = DefPair \<longleftrightarrow>
   (\<exists>m what what'. s = SideValid m what \<and> t = SideValid m what')"
  by (cases s; cases t) (auto simp: decide_sides_def applyMarker_def)

lemma decide_sides_Partial:
  "def_state (decide_sides s t r) = DefPartial \<longleftrightarrow>
   (\<exists>m what. s = SideValid m what \<and> t = SideNotPresent \<or> s = SideNotPresent \<and> t = SideValid m what)"
  by (cases s; cases t) (auto simp: decide_sides_def applyMarker_def)

lemma decide_sides_fields:
  "def_state (decide_sides s t r) \<in> {DefPair, DefPartial} \<Longrightarrow>
   \<exists>m what. (s = SideValid m what \<or> t = SideValid m what) \<and>
     def_id (decide_sides s t r) = marker_id m \<and> def_ownerUid (decide_sides s t r) = ownerUid m \<and>
     def_ownerGid (decide_sides s t r) = ownerGid m"
  by (cases s; cases t) (auto simp: decide_sides_def applyMarker_def split: if_splits)

lemma decide_definition_sides:
  assumes "def_state (decide_definition p q di u name mp) \<in> {DefPair, DefPartial}"
  shows "\<not> di \<and> p \<noteq> ProbeTampered \<and> q \<noteq> ProbeTampered \<and>
    decide_definition p q di u name mp =
      decide_sides (evaluateMountSide p u mp) (evaluateAutomountSide q u mp) (empty_check name mp)"
  using assms by (auto simp: decide_definition_def Let_def empty_check_def split: if_splits)

lemma inspectDefinition_facts:
  assumes "inspectDefinition paths u mp w = (chk, w')"
  shows "reads 0 w w' \<and>
    (def_state chk \<in> {DefPair, DefPartial} \<longrightarrow> def_ownerUid chk = u \<and> isValidShareId (def_id chk)) \<and>
    (def_state chk = DefPair \<longrightarrow>
       (\<exists>mc ac m. fst (probeUnitFile (mountUnitPath paths) w) = ProbeOk mc \<and>
          parseMarker mc = Inr m \<and> parseMarker ac = Inr m \<and> ownerUid m = u \<and>
          marker_id m = def_id chk \<and> ownerGid m = def_ownerGid chk \<and>
          authentication m = def_authentication chk \<and> access m = def_access chk \<and>
          validateMountUnitBody mc m mp = Inr (def_what chk) \<and>
          validateAutomountUnitBody ac m mp = Inr ()))"
proof -
  obtain p q di where pq: "chk = decide_definition p q di u (unitName paths) mp"
      "p = fst (probeUnitFile (mountUnitPath paths) w)"
    using assms by (auto simp: inspectDefinition_def split: prod.splits)
  let ?s = "evaluateMountSide p u mp" and ?t = "evaluateAutomountSide q u mp"
  have owned: "def_ownerUid chk = u \<and> isValidShareId (def_id chk)" if st: "def_state chk \<in> {DefPair, DefPartial}"
  proof -
    have eq: "chk = decide_sides ?s ?t (empty_check (unitName paths) mp)"
      using decide_definition_sides st pq(1) by blast
    then obtain m what where "?s = SideValid m what \<or> ?t = SideValid m what"
        "def_id chk = marker_id m" "def_ownerUid chk = ownerUid m"
      using decide_sides_fields [of ?s ?t] st by metis
    then show ?thesis
      by (auto simp: evaluateMountSide_Valid evaluateAutomountSide_Valid dest: parseMarker_valid_id)
  qed
  have pair: "\<exists>mc ac m. fst (probeUnitFile (mountUnitPath paths) w) = ProbeOk mc \<and>
          parseMarker mc = Inr m \<and> parseMarker ac = Inr m \<and> ownerUid m = u \<and>
          marker_id m = def_id chk \<and> ownerGid m = def_ownerGid chk \<and>
          authentication m = def_authentication chk \<and> access m = def_access chk \<and>
          validateMountUnitBody mc m mp = Inr (def_what chk) \<and>
          validateAutomountUnitBody ac m mp = Inr ()" if st: "def_state chk = DefPair"
  proof -
    have eq: "chk = decide_sides ?s ?t (empty_check (unitName paths) mp)"
      using decide_definition_sides st pq(1) by blast
    then obtain m what what' where v: "?s = SideValid m what" "?t = SideValid m what'"
      using decide_sides_Pair st by metis
    then have "def_id chk = marker_id m" "def_ownerGid chk = ownerGid m" "def_what chk = what"
        "def_authentication chk = authentication m" "def_access chk = access m"
      by (simp_all add: eq decide_sides_def applyMarker_def)
    then show ?thesis using v unfolding pq(2) [symmetric]
      by (auto simp: evaluateMountSide_Valid evaluateAutomountSide_Valid)
  qed
  show ?thesis using inspectDefinition_reads [OF assms] owned pair by blast
qed


section \<open>What was generated is recognised\<close>

definition file_at_path :: "'s world \<Rightarrow> qstring \<Rightarrow> inode option" where
  "file_at_path w p = (case resolve_dir w (dir_part p) of None \<Rightarrow> None | Some d \<Rightarrow> file_at w d (base_part p))"

lemma probeUnitFile_works:
  assumes "sched w = []" "file_at_path w p = Some n" "safe_unit_file n"
  shows "probeUnitFile p w = (ProbeOk (idata n), w)"
proof -
  obtain d i where i: "resolve_dir w (dir_part p) = Some d" "entry w d (base_part p) = Some i" "inodes w i = Some n"
    using assms(2) by (auto simp: file_at_path_def file_at_def split: option.splits)
  let ?w = "w\<lparr>open_fds := open_fds w + 1\<rparr>"
  have "open_path_nofollow p w = (Inr i, ?w)"
    using i assms(1,3) by (simp add: open_path_nofollow_def openat_file_def opened_def safe_unit_file_def)
  moreover have "fstat i ?w = (Inr n, ?w)" using i assms(1) by (simp add: fstat_def)
  moreover have "read_all i (length (idata n)) [] ?w = (idata n, ?w)"
    using i assms(1) by (intro read_all_works) simp_all
  ultimately show ?thesis using assms(3) by (simp add: probeUnitFile_def)
qed

lemma dropInExists_works:
  assumes "sched w = []"
  shows "dropInExists p w = (file_at_path w (p @ ''.d'') \<noteq> None, w)"
  using assms by (auto simp: dropInExists_def lstat_ok_def fstatat_def file_at_path_def file_at_def
      next_outcome_def split: option.splits)

lemma generated_pair_check:
  assumes "isValidShareId (marker_id m)" and "validateUnc unc = Inr unc"
    and "buildMountUnitContent m unc mp = Inr mc" "buildAutomountUnitContent m mp = Inr ac"
    and "sched w = []"
    and "file_at_path w (mountUnitPath paths) = Some n1" "safe_unit_file n1" "idata n1 = mc"
    and "file_at_path w (automountUnitPath paths) = Some n2" "safe_unit_file n2" "idata n2 = ac"
    and "file_at_path w (mountUnitPath paths @ ''.d'') = None"
    and "file_at_path w (automountUnitPath paths @ ''.d'') = None"
  shows "\<exists>chk. inspectDefinition paths (ownerUid m) mp w = (chk, w) \<and> def_state chk = DefPair \<and>
    def_id chk = marker_id m \<and> def_ownerGid chk = ownerGid m \<and> def_what chk = unc \<and>
    def_access chk = access m \<and> def_authentication chk = authentication m \<and> canonicalMountPoint chk = mp"
proof -
  have p: "probeUnitFile (mountUnitPath paths) w = (ProbeOk mc, w)"
      "probeUnitFile (automountUnitPath paths) w = (ProbeOk ac, w)"
    using probeUnitFile_works [OF assms(5,6,7)] probeUnitFile_works [OF assms(5,9,10)] assms(8,11) by simp_all
  have v: "evaluateMountSide (ProbeOk mc) (ownerUid m) mp = SideValid m unc"
      "evaluateAutomountSide (ProbeOk ac) (ownerUid m) mp = SideValid m []"
    using mount_unit_valid [OF assms(1,2,3)] automount_unit_valid [OF assms(1,4)]
    by (simp_all add: evaluateMountSide_Valid evaluateAutomountSide_Valid)
  show ?thesis
    using p v assms(5,12,13)
    by (simp add: inspectDefinition_def dropInExists_works decide_definition_def decide_sides_def applyMarker_def empty_check_def)
qed

text \<open>C14. Generation and inspection fit together through the disk: when the two files of a unit hold
  what \<open>buildMountUnitContent\<close> and \<open>buildAutomountUnitContent\<close> emitted for a marker, no drop-in exists
  and no call fails, \<open>inspectDefinition\<close> reports the pair, with the share id, group, UNC path,
  access mode, authentication and mount point it was generated from.\<close>
theorem generated_pair_inspects:
  assumes "isValidShareId (marker_id m)" and "validateUnc unc = Inr unc"
    and "buildMountUnitContent m unc mp = Inr mc" "buildAutomountUnitContent m mp = Inr ac"
    and "sched w = []"
    and "file_at_path w (mountUnitPath paths) = Some n1" "safe_unit_file n1" "idata n1 = mc"
    and "file_at_path w (automountUnitPath paths) = Some n2" "safe_unit_file n2" "idata n2 = ac"
    and "file_at_path w (mountUnitPath paths @ ''.d'') = None"
    and "file_at_path w (automountUnitPath paths @ ''.d'') = None"
  shows "\<exists>chk. inspectDefinition paths (ownerUid m) mp w = (chk, w) \<and> def_state chk = DefPair \<and>
    def_id chk = marker_id m \<and> def_ownerGid chk = ownerGid m \<and> def_what chk = unc \<and>
    def_access chk = access m \<and> def_authentication chk = authentication m \<and> canonicalMountPoint chk = mp"
  using generated_pair_check [OF assms] .

section \<open>Pairing\<close>

lemma pair_group_name [simp]: "own_unitName (pair_group name m a) = name"
  by (auto simp: pair_group_def empty_unit_def unit_of_half_def Let_def split: option.splits)

lemma demote_simps [simp]:
  "own_unitName (demote u) = own_unitName u" "own_state (demote u) = DefTampered" "own_id (demote u) = []"
  by (simp_all add: demote_def)

lemma last_half_Some:
  "last_half b name hs = Some h \<Longrightarrow> h \<in> set hs \<and> half_mount h = b \<and> half_base h = name"
  using last_in_set [of "filter (\<lambda>h. half_mount h = b \<and> half_base h = name) hs"]
  by (auto simp: last_half_def split: list.splits)

lemma pair_group_Pair:
  assumes "own_state (pair_group name m a) = DefPair"
  shows "\<exists>h k. m = Some h \<and> a = Some k \<and> half_marker h = half_marker k \<and> half_where h = half_where k \<and>
    own_id (pair_group name m a) = marker_id (half_marker h) \<and>
    own_uid (pair_group name m a) = ownerUid (half_marker h) \<and>
    own_mountPoint (pair_group name m a) = half_where h \<and>
    own_what (pair_group name m a) = half_what h"
  using assms
  by (cases m; cases a) (auto simp: pair_group_def unit_of_half_def empty_unit_def Let_def split: if_splits)

lemma distinct_by_count:
  assumes "\<And>u. u \<in> set xs \<Longrightarrow> length (filter (\<lambda>v. f v = f u) xs) \<le> 1"
  shows "distinct (map f xs)"
  using assms
proof (induction xs)
  case (Cons x xs)
  have "filter (\<lambda>v. f v = f x) xs = []" using Cons.prems [of x] by simp
  then have "f x \<notin> f ` set xs" by (auto simp: filter_empty_conv)
  moreover have "distinct (map f xs)"
  proof (rule Cons.IH)
    fix u assume "u \<in> set xs"
    then show "length (filter (\<lambda>v. f v = f u) xs) \<le> 1" using Cons.prems [of u] by (simp split: if_splits)
  qed
  ultimately show ?case by simp
qed simp

lemma trusted_survivors:
  "filter trusted (map (\<lambda>u. if collides us u then demote u else u) vs) =
   filter (\<lambda>u. trusted u \<and> \<not> collides us u) vs"
  by (induction vs) (auto simp: trusted_def)

lemma length_filter_imp:
  "(\<And>x. P x \<Longrightarrow> Q x) \<Longrightarrow> length (filter P xs) \<le> length (filter Q xs)"
  by (induction xs) auto

lemma survivors_distinct:
  assumes "\<And>u. \<not> collides us u \<Longrightarrow> trusted u \<Longrightarrow> \<not> 1 < length (filter (\<lambda>v. trusted v \<and> f v = f u) us)"
  shows "distinct (map f (filter trusted (map (\<lambda>u. if collides us u then demote u else u) us)))"
  unfolding trusted_survivors
proof (rule distinct_by_count)
  fix u assume "u \<in> set (filter (\<lambda>u. trusted u \<and> \<not> collides us u) us)"
  then have "\<not> 1 < length (filter (\<lambda>v. trusted v \<and> f v = f u) us)" using assms by simp
  moreover have "length (filter (\<lambda>v. f v = f u) (filter (\<lambda>u. trusted u \<and> \<not> collides us u) us))
      \<le> length (filter (\<lambda>v. trusted v \<and> f v = f u) us)"
    unfolding filter_filter by (rule length_filter_imp) simp
  ultimately show "length (filter (\<lambda>v. f v = f u) (filter (\<lambda>u. trusted u \<and> \<not> collides us u) us)) \<le> 1"
    by linarith
qed

lemma pair_names [simp]: "map own_unitName (pairScannedHalves hs) = group_names hs"
  by (simp add: pairScannedHalves_def pair_groups_def Let_def comp_def if_distrib [of own_unitName] cong: if_cong)

text \<open>C15. Enumeration reports one entry per unit name on disk, in order, and never two entries that
  both count as managed with the same share id or the same mount point; an entry reported as a
  complete pair comes from a \<open>.mount\<close> and an \<open>.automount\<close> half of that name that agree on the marker
  and on \<open>Where=\<close>, and carries exactly what they say.\<close>
theorem pairScannedHalves_sound:
  "map own_unitName (pairScannedHalves hs) = sort (remdups (map half_base hs)) \<and>
   distinct (map own_id (filter trusted (pairScannedHalves hs))) \<and>
   distinct (map own_mountPoint (filter trusted (pairScannedHalves hs))) \<and>
   (\<forall>u \<in> set (filter (\<lambda>u. own_state u = DefPair) (pairScannedHalves hs)).
      \<exists>h \<in> set hs. \<exists>k \<in> set hs. half_mount h \<and> \<not> half_mount k \<and>
        half_base h = own_unitName u \<and> half_base k = own_unitName u \<and>
        half_marker h = half_marker k \<and> half_where h = half_where k \<and>
        own_id u = marker_id (half_marker h) \<and> own_uid u = ownerUid (half_marker h) \<and>
        own_mountPoint u = half_where h \<and> own_what u = half_what h)"
proof (intro conjI ballI)
  show "distinct (map own_id (filter trusted (pairScannedHalves hs)))"
    unfolding pairScannedHalves_def Let_def by (rule survivors_distinct) (simp add: collides_def)
  show "distinct (map own_mountPoint (filter trusted (pairScannedHalves hs)))"
    unfolding pairScannedHalves_def Let_def by (rule survivors_distinct) (simp add: collides_def)
next
  fix u assume "u \<in> set (filter (\<lambda>u. own_state u = DefPair) (pairScannedHalves hs))"
  then obtain v where v: "v \<in> set (pair_groups hs)" "own_state u = DefPair"
      "u = (if collides (pair_groups hs) v then demote v else v)"
    by (auto simp: pairScannedHalves_def Let_def)
  then have u: "u = v" by (auto split: if_splits)
  obtain name where name: "v = pair_group name (last_half True name hs) (last_half False name hs)"
    using v(1) by (auto simp: pair_groups_def)
  have "own_state (pair_group name (last_half True name hs) (last_half False name hs)) = DefPair"
    using v(2) u name by simp
  from pair_group_Pair [OF this, folded name] obtain h k where hk: "last_half True name hs = Some h" "last_half False name hs = Some k"
    "half_marker h = half_marker k" "half_where h = half_where k" "own_id v = marker_id (half_marker h)"
    "own_uid v = ownerUid (half_marker h)" "own_mountPoint v = half_where h" "own_what v = half_what h"
    by blast
  have n: "own_unitName u = name" using u name by simp
  show "\<exists>h \<in> set hs. \<exists>k \<in> set hs. half_mount h \<and> \<not> half_mount k \<and>
        half_base h = own_unitName u \<and> half_base k = own_unitName u \<and>
        half_marker h = half_marker k \<and> half_where h = half_where k \<and>
        own_id u = marker_id (half_marker h) \<and> own_uid u = ownerUid (half_marker h) \<and>
        own_mountPoint u = half_where h \<and> own_what u = half_what h"
    by (intro bexI [of _ h] bexI [of _ k])
      (use last_half_Some [OF hk(1)] last_half_Some [OF hk(2)] hk(3-8) u n in simp_all)
qed (simp add: group_names_def)

lemma short_mset_eq:
  assumes "mset xs = mset ys" "length xs \<le> 1"
  shows "xs = ys"
proof (cases xs)
  case Nil
  then show ?thesis using assms by simp
next
  case (Cons x zs)
  then have "xs = [x]" using assms(2) by simp
  then show ?thesis using assms(1) by (metis mset_single_iff)
qed

lemma distinct_filter_short:
  assumes "distinct (map f xs)"
  shows "length (filter (\<lambda>x. f x = k) xs) \<le> 1"
  using assms
proof (induction xs)
  case (Cons x xs)
  then show ?case by (auto simp: filter_empty_conv image_iff)
qed simp

text \<open>The order in which the files are found does not matter: scanning the same files, no two of
  the same name and kind, in another order gives the same entries in the same order.\<close>
theorem pairScannedHalves_order:
  assumes "mset hs = mset hs'" and "distinct (map (\<lambda>h. (half_mount h, half_base h)) hs)"
  shows "pairScannedHalves hs = pairScannedHalves hs'"
proof -
  have s: "set hs = set hs'" using assms(1) by (metis set_mset_mset)
  have half: "last_half b name hs = last_half b name hs'" for b name
  proof -
    have "filter (\<lambda>h. (half_mount h, half_base h) = (b, name)) hs = filter (\<lambda>h. (half_mount h, half_base h) = (b, name)) hs'"
      using assms(1) distinct_filter_short [OF assms(2), of "(b, name)"] by (intro short_mset_eq) (simp_all add: mset_filter)
    then show ?thesis by (simp add: last_half_def)
  qed
  have "group_names hs = group_names hs'"
    unfolding group_names_def
    by (rule sorted_distinct_set_unique) (simp_all add: s)
  then have "pair_groups hs = pair_groups hs'" by (simp add: pair_groups_def half)
  then show ?thesis by (simp add: pairScannedHalves_def)
qed

section \<open>The top of a mount stack\<close>

text \<open>Whatever order the kernel lists a stack of mounts in, the verdict on a mount point is the
  verdict on the top of the stack: if the entries at the path are, in some order, a chain in which
  every mount lies on the one below and the lowest lies on something elsewhere, the classification
  is that of the last one.\<close>
theorem classifyMountEntries_stack:
  assumes "mset (filter (\<lambda>e. entry_mountPoint e = cleanPath mp) es) = mset chain" and "chain \<noteq> []"
    and "distinct (map mountId chain)"
    and "\<forall>i. Suc i < length chain \<longrightarrow> parentId (chain ! Suc i) = mountId (chain ! i)"
    and "parentId (hd chain) \<notin> mountId ` set chain"
  shows "classifyMountEntries es mp what = classify_top (last chain) what"
proof -
  define xs where "xs = filter (\<lambda>e. entry_mountPoint e = cleanPath mp) es"
  define st where "st = List.enumerate 0 xs"
  have m: "mset xs = mset chain" using assms(1) by (simp add: xs_def)
  have d: "distinct (map mountId xs)" "set xs = set chain" "distinct xs"
    using m assms(3) by (metis distinct_map mset_eq_imp_distinct_iff mset_map set_mset_mset)+
  have at: "p \<in> set st \<longleftrightarrow> fst p < length xs \<and> snd p = xs ! fst p" for p
    by (cases p) (auto simp: st_def in_set_enumerate_eq)
  have inj: "x = y" if "x \<in> set chain" "y \<in> set chain" "mountId x = mountId y" for x y
    using that assms(3) by (auto simp: distinct_map inj_on_def)
  have top: "covered st p \<longleftrightarrow> snd p \<noteq> last chain" if p: "p \<in> set st" for p
  proof
    assume "covered st p"
    then obtain q where q: "q \<in> set st" "fst q \<noteq> fst p" "parentId (snd q) = mountId (snd p)"
      by (auto simp: covered_def)
    then obtain j where j: "j < length chain" "snd q = chain ! j"
      using at d(2) by (metis in_set_conv_nth)
    have pin: "snd p \<in> set chain" using p at d(2) by (metis nth_mem)
    show "snd p \<noteq> last chain"
    proof (cases j)
      case 0
      then show ?thesis using j q(3) assms(2,5) pin by (metis hd_conv_nth imageI)
    next
      case (Suc i)
      then have "mountId (chain ! i) = mountId (snd p)" using assms(4) j q(3) by simp
      then have "snd p = chain ! i" using inj [of "chain ! i" "snd p"] pin j(1) Suc by simp
      moreover have "chain ! i \<noteq> last chain"
        using j(1) Suc assms(3) by (simp add: last_conv_nth distinct_map nth_eq_iff_index_eq assms(2))
      ultimately show ?thesis by simp
    qed
  next
    assume ne: "snd p \<noteq> last chain"
    obtain i where i: "i < length chain" "snd p = chain ! i"
      using p at d(2) by (metis in_set_conv_nth nth_mem)
    then have "Suc i < length chain" using ne by (metis Suc_lessI diff_Suc_1 last_conv_nth assms(2))
    moreover from this obtain k where k: "k < length xs" "xs ! k = chain ! Suc i"
      using d(2) by (metis in_set_conv_nth nth_mem)
    moreover have "k \<noteq> fst p"
      using k i p at assms(3) calculation(1) by (metis distinct_map n_not_Suc_n nth_eq_iff_index_eq)
    ultimately show "covered st p"
      unfolding covered_def using at [of "(k, xs ! k)"] assms(4) i by (intro bexI [of _ "(k, xs ! k)"]) auto
  qed
  obtain k where k: "k < length xs" "xs ! k = last chain"
    using d(2) assms(2) by (metis in_set_conv_nth last_in_set)
  have "filter (\<lambda>c. \<not> covered st c) st = filter (\<lambda>c. snd c = last chain) st"
    by (rule filter_cong) (use top in auto)
  also have "\<dots> = [(k, last chain)]"
  proof (rule short_mset_eq [symmetric])
    have u: "a < length xs \<Longrightarrow> xs ! a = last chain \<Longrightarrow> a = k" for a
      using nth_eq_iff_index_eq [OF d(3), of a k] k by simp
    have "p \<in> set st \<and> snd p = last chain \<longleftrightarrow> p = (k, last chain)" for p
    proof
      assume "p = (k, last chain)"
      then show "p \<in> set st \<and> snd p = last chain" using k at [of p] by simp
    next
      assume "p \<in> set st \<and> snd p = last chain"
      then show "p = (k, last chain)" using at [of p] u [of "fst p"] by (cases p) auto
    qed
    then have "set (filter (\<lambda>c. snd c = last chain) st) = {(k, last chain)}"
      by (simp add: set_eq_iff)
    moreover have "distinct (filter (\<lambda>c. snd c = last chain) st)" by (simp add: st_def)
    ultimately show "mset [(k, last chain)] = mset (filter (\<lambda>c. snd c = last chain) st)"
      by (metis distinct.simps distinct_singleton list.set(1,2) set_eq_iff_mset_eq_distinct)
  qed simp
  finally have "filter (\<lambda>c. \<not> covered st c) st = [(k, last chain)]" .
  moreover have "st \<noteq> []" using k at [of "(k, xs ! k)"] by auto
  ultimately show ?thesis by (simp add: classifyMountEntries_def Let_def st_def xs_def)
qed

section \<open>The mount table is read back\<close>

text \<open>
  The kernel's side of \<open>mountinfo\<close>, as proc(5) documents it: a row of fields separated by blanks, with
  blanks, tabs, newlines and backslashes of a path written as octal escapes.
\<close>

definition octal_code :: "char \<Rightarrow> qstring" where
  "octal_code c = (if c = CHR '' '' then ''040'' else if c = CHR 0x09 then ''011''
     else if c = CHR 0x0A then ''012'' else ''134'')"

definition escape_with :: "char set \<Rightarrow> qstring \<Rightarrow> qstring" where
  "escape_with S s = concat (map (\<lambda>c. if c \<in> S then CHR 0x5C # octal_code c else [c]) s)"

abbreviation escaped_chars :: "char set" where
  "escaped_chars \<equiv> {CHR '' '', CHR 0x09, CHR 0x0A, CHR 0x5C}"

lemma escape_with_simps [simp]:
  "escape_with S [] = []"
  "escape_with S (c # s) = (if c \<in> S then CHR 0x5C # octal_code c else [c]) @ escape_with S s"
  by (simp_all add: escape_with_def)

lemma octal_code_props: "length (octal_code c) = 3" "CHR 0x5C \<notin> set (octal_code c)"
  "set (octal_code c) \<inter> escaped_chars = {}"
  by (auto simp: octal_code_def)

lemma octal_code_inject:
  "c \<in> escaped_chars \<Longrightarrow> d \<in> escaped_chars \<Longrightarrow> octal_code c = octal_code d \<Longrightarrow> c = d"
  by (auto simp: octal_code_def split: if_splits)

lemma replace_all_skip:
  "CHR 0x5C \<notin> set xs \<Longrightarrow> replace_all (CHR 0x5C # q) r (xs @ ys) = xs @ replace_all (CHR 0x5C # q) r ys"
  by (induction xs) (simp_all add: replace_all_Cons)

lemma replace_all_code:
  assumes "length q = length q'" "CHR 0x5C \<notin> set q'"
  shows "replace_all (CHR 0x5C # q) r (CHR 0x5C # q' @ ys) =
    (if q = q' then r @ replace_all (CHR 0x5C # q) r ys else CHR 0x5C # q' @ replace_all (CHR 0x5C # q) r ys)"
proof (cases "q = q'")
  case True
  then show ?thesis by (simp add: replace_all_Cons)
next
  case False
  then have "\<not> prefix q (q' @ ys)" using assms(1) by (auto simp: prefix_def append_eq_append_conv_if)
  then show ?thesis using False replace_all_skip [OF assms(2)] by (simp add: replace_all_Cons)
qed

lemma unescape_step:
  assumes "S \<subseteq> escaped_chars" "CHR 0x5C \<in> S" "a \<in> S" "a = CHR 0x5C \<longrightarrow> S = {a}"
  shows "replace_all (CHR 0x5C # octal_code a) [a] (escape_with S s) = escape_with (S - {a}) s"
proof (induction s)
  case (Cons c s)
  show ?case
  proof (cases "c \<in> S")
    case True
    then have eq: "octal_code a = octal_code c \<longleftrightarrow> a = c"
      using octal_code_inject [OF subsetD [OF assms(1,3)] subsetD [OF assms(1) True]] by blast
    have len: "length (octal_code a) = length (octal_code c)" by (simp only: octal_code_props(1))
    have "replace_all (CHR 0x5C # octal_code a) [a] (escape_with S (c # s)) =
        (if a = c then [a] @ escape_with (S - {a}) s else CHR 0x5C # octal_code c @ escape_with (S - {a}) s)"
      unfolding Cons [symmetric]
      using True replace_all_code [OF len octal_code_props(2), of "[a]" "escape_with S s"] eq by simp
    then show ?thesis using True by simp
  next
    case False
    then have "CHR 0x5C \<notin> set [c]" using assms(2) by auto
    from replace_all_skip [OF this] show ?thesis using Cons False by simp
  qed
qed simp

lemma unescape_escape: "unescapeMountinfoField (escape_with escaped_chars s) = s"
proof -
  have codes: "octal_code CHR '' '' = ''040''" "octal_code CHR 0x09 = ''011''"
    "octal_code CHR 0x0A = ''012''" "octal_code CHR 0x5C = ''134''"
    by (simp_all add: octal_code_def)
  have sets: "escaped_chars - {CHR '' ''} = {CHR 0x09, CHR 0x0A, CHR 0x5C}"
    "{CHR 0x09, CHR 0x0A, CHR 0x5C} - {CHR 0x09} = {CHR 0x0A, CHR 0x5C}"
    "{CHR 0x0A, CHR 0x5C} - {CHR 0x0A} = {CHR 0x5C}" "{CHR 0x5C} - {CHR 0x5C} = ({} :: char set)"
    by auto
  have "escape_with {} s = s" by (induction s) auto
  then show ?thesis
    unfolding unescapeMountinfoField_def
    using unescape_step [of escaped_chars "CHR '' ''" s] unescape_step [of "{CHR 0x09, CHR 0x0A, CHR 0x5C}" "CHR 0x09" s]
      unescape_step [of "{CHR 0x0A, CHR 0x5C}" "CHR 0x0A" s] unescape_step [of "{CHR 0x5C}" "CHR 0x5C" s]
    by (simp add: codes sets)
qed

lemma escape_plain: "c \<in> set (escape_with escaped_chars s) \<Longrightarrow> c \<notin> {CHR '' '', CHR 0x0A}"
proof (induction s)
  case (Cons d s)
  then show ?case using octal_code_props(3) [of d] by (auto split: if_splits)
qed simp

lemma escape_Nil [simp]: "escape_with S s = [] \<longleftrightarrow> s = []"
  by (cases s) auto

record mount_row =
  row_id :: nat
  row_parent :: nat
  row_device :: qstring
  row_root :: qstring
  row_point :: qstring
  row_options :: qstring
  row_tags :: "qstring list"
  row_type :: qstring
  row_source :: qstring
  row_super :: qstring

definition row_fields :: "mount_row \<Rightarrow> qstring list" where
  "row_fields r = [decimal (row_id r), decimal (row_parent r), row_device r, row_root r,
     escape_with escaped_chars (row_point r), row_options r] @ row_tags r @
     [''-'', row_type r, escape_with escaped_chars (row_source r), row_super r]"

definition row_text :: "mount_row \<Rightarrow> qstring" where
  "row_text r = join_with '' '' (row_fields r)"

definition plain_field :: "qstring \<Rightarrow> bool" where
  "plain_field f \<longleftrightarrow> f \<noteq> [] \<and> CHR '' '' \<notin> set f \<and> CHR 0x0A \<notin> set f"

definition row_ok :: "mount_row \<Rightarrow> bool" where
  "row_ok r \<longleftrightarrow> row_id r < 2 ^ 63 \<and> row_parent r < 2 ^ 63 \<and> row_point r \<noteq> [] \<and> row_source r \<noteq> [] \<and>
     ''-'' \<notin> set (row_tags r) \<and>
     list_all plain_field (row_tags r @ [row_device r, row_root r, row_options r, row_type r, row_super r])"

definition row_entry :: "mount_row \<Rightarrow> mount_entry" where
  "row_entry r = \<lparr>mountId = int (row_id r), parentId = int (row_parent r), entry_mountPoint = row_point r,
     filesystemType = row_type r, mountSource = row_source r\<rparr>"

lemma to_llong_decimal: "n < 2 ^ 63 \<Longrightarrow> to_llong (decimal n) = Some (int n)"
proof -
  assume n: "n < 2 ^ 63"
  have "\<not> prefix ''-'' (decimal n)" "\<not> prefix ''+'' (decimal n)"
    using decimal_avoids [of "CHR ''-''" n] decimal_avoids [of "CHR ''+''" n]
    by (cases "decimal n"; simp add: char_class_defs)+
  moreover have "int n < 9223372036854775808" using n by simp
  ultimately show ?thesis by (simp add: to_llong_def)
qed

lemma row_fields_plain: "row_ok r \<Longrightarrow> list_all plain_field (row_fields r)"
  using escape_plain [of _ "row_point r"] escape_plain [of _ "row_source r"]
  by (auto simp: row_ok_def row_fields_def plain_field_def)

lemma split_skip_join:
  assumes "list_all (\<lambda>p. p \<noteq> [] \<and> c \<notin> set p) ps" "ps \<noteq> []"
  shows "split_skip_empty c (join_with [c] ps) = ps"
  using assms split_join [of ps c] by (simp add: split_skip_empty_def list_all_iff filter_id_conv)

lemma parse_row:
  assumes "row_ok r"
  shows "parse_mount_line (row_text r) = Some (row_entry r)"
proof -
  have "split_skip_empty CHR '' '' (row_text r) = row_fields r"
    unfolding row_text_def using row_fields_plain [OF assms]
    by (intro split_skip_join) (auto simp: plain_field_def list_all_iff row_fields_def)
  moreover have "takeWhile (\<lambda>f. f \<noteq> ''-'') (row_tags r @ ''-'' # xs) = row_tags r" for xs
    using assms by (subst takeWhile_append2) (auto simp: row_ok_def)
  ultimately show ?thesis
    using assms to_llong_decimal unescape_escape
    by (simp add: parse_mount_line_def separator_index_def row_fields_def row_entry_def row_ok_def nth_append)
qed

lemma row_text_line: "row_ok r \<Longrightarrow> row_text r \<noteq> [] \<and> CHR 0x0A \<notin> set (row_text r)"
proof -
  assume r: "row_ok r"
  have h: "CHR 0x0A \<notin> set (join_with '' '' fs)" if "list_all plain_field fs" for fs
    using that by (induction "'' ''" fs rule: join_with.induct) (auto simp: plain_field_def)
  have "row_text r \<noteq> []" by (simp add: row_text_def row_fields_def)
  then show ?thesis using h [OF row_fields_plain [OF r]] by (simp add: row_text_def)
qed


section \<open>The runtime verdict fails closed\<close>

lemma readRecordedAutomountId_reads:
  assumes "readRecordedAutomountId name w = (i, w')"
  shows "reads 0 w w'"
proof -
  obtain r1 w1 where 1: "open_path_nofollow (''/run/nasmount-ids/'' @ name) w = (r1, w1)" by fastforce
  show ?thesis
  proof (cases r1)
    case (Inl e)
    then show ?thesis using assms open_path_nofollow_result [OF 1]
      by (auto simp: readRecordedAutomountId_def 1 [simplified])
  next
    case (Inr fd)
    then have o: "reads 1 w w1" using open_path_nofollow_result [OF 1] by simp
    obtain r2 w2 where 2: "fstat fd w1 = (r2, w2)" by fastforce
    have s: "reads 0 w1 w2" using fstat_result [OF 2] by simp
    define w3 where "w3 = snd (read_all fd (length (idata (projr r2))) [] w2)"
    have s3: "reads 0 w1 w3"
      using reads_0_trans [OF s] read_all_reads [OF prod.collapse [symmetric]] unfolding w3_def by blast
    have "w' = close_fd w2 \<or> w' = close_fd w3"
      using assms Inr by (cases r2)
        (auto simp: readRecordedAutomountId_def 1 [simplified] 2 w3_def split: if_splits prod.splits)
    then show ?thesis using reads_and_close [OF o s] reads_and_close [OF o s3] by blast
  qed
qed

lemma classify_VerMatch:
  assumes "classifyMountEntries es mp what = (m, VerMatch)"
  shows "m = MountPresent \<and> (\<exists>e \<in> set es. entry_mountPoint e = cleanPath mp \<and>
    filesystemType e = ''cifs'' \<and> mountSource e = what)"
proof -
  define st where "st = List.enumerate 0 (filter (\<lambda>e. entry_mountPoint e = cleanPath mp) es)"
  obtain c where c: "filter (\<lambda>c. \<not> covered st c) st = [c]" "classify_top (snd c) what = (m, VerMatch)"
    using assms by (auto simp: classifyMountEntries_def Let_def st_def [symmetric] split: if_splits list.splits)
  then have "c \<in> set (filter (\<lambda>c. \<not> covered st c) st)" by simp
  then have "c \<in> set st" by simp
  then have "snd c \<in> set (filter (\<lambda>e. entry_mountPoint e = cleanPath mp) es)"
    unfolding st_def in_set_enumerate_eq using nth_mem by (metis add_0_right diff_zero)
  then show ?thesis using c(2) by (auto simp: classify_top_def split: if_splits)
qed

lemma cross_check_known:
  "fst (cross_check c r) \<noteq> MountIndeterminate \<Longrightarrow>
   cross_check c r = c \<and> (\<exists>s. r = Some s \<and> (s = ''active'' \<longleftrightarrow> fst c = MountPresent) \<and>
     s \<in> {''active'', ''inactive'', ''failed''})"
  by (auto simp: cross_check_def split: option.splits if_splits)

lemma cross_check_match:
  "snd (cross_check c r) = VerMatch \<Longrightarrow> cross_check c r = c \<and> snd c = VerMatch"
  by (auto simp: cross_check_def split: option.splits if_splits)

lemma inspectRuntime_facts:
  assumes "inspectRuntime P name mp what w = (snap, w')"
  shows "reads 0 w w' \<and>
    (snap_mount snap \<noteq> MountIndeterminate \<longrightarrow>
       (\<exists>text s. mountinfo P (services w) = Some text \<and>
          fst (classifyMountEntries (parseMountinfo text) mp what) = snap_mount snap \<and>
          systemctlShow P w (name @ ''.mount'') ''ActiveState'' = Some s \<and>
          (s = ''active'' \<longleftrightarrow> snap_mount snap = MountPresent))) \<and>
    (snap_verification snap = VerMatch \<longrightarrow>
       snap_mount snap = MountPresent \<and>
       (\<exists>text. mountinfo P (services w) = Some text \<and>
          (\<exists>e \<in> set (parseMountinfo text). entry_mountPoint e = cleanPath mp \<and>
             filesystemType e = ''cifs'' \<and> mountSource e = what))) \<and>
    (snap_trust snap = Trusted \<longrightarrow>
       systemctlShow P w (name @ ''.automount'') ''ActiveState'' = Some ''active'' \<and>
       fst (readRecordedAutomountId name w) \<noteq> 0 \<and>
       uniqueMountId P w mp = fst (readRecordedAutomountId name w))"
proof -
  let ?r = "readRecordedAutomountId name w"
  let ?axes = "mount_axes P w name mp what"
  let ?auto = "automount_state (systemctlShow P w (name @ ''.automount'') ''ActiveState'')"
  have rd: "reads 0 w (snd ?r)" using readRecordedAutomountId_reads [OF prod.collapse [symmetric]] .
  have sn: "snap_mount snap = fst ?axes" "snap_verification snap = snd ?axes" "w' = w \<or> w' = snd ?r"
    "snap_trust snap = Trusted \<Longrightarrow> ?auto = AutoActive \<and> fst ?r \<noteq> 0 \<and> uniqueMountId P (snd ?r) mp = fst ?r"
    using assms by (auto simp: inspectRuntime_def Let_def split: if_splits prod.splits)
  have auto_active: "?auto = AutoActive \<Longrightarrow> systemctlShow P w (name @ ''.automount'') ''ActiveState'' = Some ''active''"
    by (auto simp: automount_state_def split: option.splits if_splits)
  have same: "uniqueMountId P (snd ?r) mp = uniqueMountId P w mp"
    using reads_fields(8) [OF rd] by (simp add: uniqueMountId_def)
  have known: "\<exists>text s. mountinfo P (services w) = Some text \<and>
          fst (classifyMountEntries (parseMountinfo text) mp what) = fst ?axes \<and>
          systemctlShow P w (name @ ''.mount'') ''ActiveState'' = Some s \<and>
          (s = ''active'' \<longleftrightarrow> fst ?axes = MountPresent)" if k: "fst ?axes \<noteq> MountIndeterminate"
  proof (cases "mountinfo P (services w)")
    case (Some rows)
    let ?c = "classifyMountEntries (parseMountinfo rows) mp what"
    let ?s = "systemctlShow P w (name @ ''.mount'') ''ActiveState''"
    have ax: "?axes = cross_check ?c ?s" using Some by (simp add: mount_axes_def)
    from cross_check_known [of ?c ?s] k ax
    have "?axes = ?c" "\<exists>s. ?s = Some s \<and> (s = ''active'' \<longleftrightarrow> fst ?c = MountPresent)" by auto
    then show ?thesis using Some by auto
  qed (use k in \<open>simp add: mount_axes_def\<close>)
  have matched: "fst ?axes = MountPresent \<and> (\<exists>text. mountinfo P (services w) = Some text \<and>
          (\<exists>e \<in> set (parseMountinfo text). entry_mountPoint e = cleanPath mp \<and>
             filesystemType e = ''cifs'' \<and> mountSource e = what))" if v: "snd ?axes = VerMatch"
  proof (cases "mountinfo P (services w)")
    case (Some rows)
    let ?c = "classifyMountEntries (parseMountinfo rows) mp what"
    have "?axes = ?c" "snd ?c = VerMatch"
      using cross_check_match v Some by (auto simp: mount_axes_def)
    then show ?thesis using classify_VerMatch [of "parseMountinfo rows" mp what "fst ?c"] Some
      by (metis prod.collapse)
  qed (use v in \<open>simp add: mount_axes_def\<close>)
  show ?thesis using sn rd auto_active same known matched reads_refl by metis
qed



section \<open>The theorems on concrete inputs\<close>

text \<open>The golden pair installed in the unit directory.\<close>

definition golden_automount_unit :: qstring where
  "golden_automount_unit = unlines
     [''# Managed by nasmount '' @ [CHR 0xE2, CHR 0x80, CHR 0x94] @
        '' do not edit by hand; use the KCM or the dialog.'',
      ''# X-Nasmount-Managed=1'',
      ''# X-Nasmount-Owner-Uid=1000'',
      ''# X-Nasmount-Owner-Gid=1000'',
      ''# X-Nasmount-Id=00112233445566778899aabbccddeeff'',
      ''# X-Nasmount-Mode=system'',
      ''# X-Nasmount-Authentication=credentials'',
      ''# X-Nasmount-Access=readonly'',
      ''[Unit]'',
      ''Description=nasmount automount: /home/tester/mnt/archive'',
      ''ConditionPathIsDirectory=/home/tester/mnt/archive'',
      [],
      ''[Automount]'',
      ''Where=/home/tester/mnt/archive'',
      ''TimeoutIdleSec=60'',
      ''DirectoryMode=0700'']"

definition unit_world :: "unit world" where
  "unit_world = \<lparr>inodes = [1 \<mapsto> dir_inode 0 [(''a.mount'', 2), (''a.automount'', 3)],
       2 \<mapsto> file_inode 420 golden_mount_unit, 3 \<mapsto> file_inode 420 golden_automount_unit],
     absolute = [''/etc/systemd/system'' \<mapsto> 1], next_ino = 4, umask = 18, sched = [], rng = (\<lambda>_. 0),
     rng_pos = 0, open_fds = 0, events = [], services = ()\<rparr>"

definition unit_world_paths :: unit_paths where
  "unit_world_paths = \<lparr>unitName = ''a'', mountUnitPath = ''/etc/systemd/system/a.mount'',
     automountUnitPath = ''/etc/systemd/system/a.automount''\<rparr>"

lemma unit_world_generated:
  "isValidShareId (marker_id golden_marker)"
  "validateUnc ''//nas.example.org/archive'' = Inr ''//nas.example.org/archive''"
  "buildMountUnitContent golden_marker ''//nas.example.org/archive'' ''/home/tester/mnt/archive'' = Inr golden_mount_unit"
  "buildAutomountUnitContent golden_marker ''/home/tester/mnt/archive'' = Inr golden_automount_unit"
  by code_simp+

lemma unit_world_files:
  "sched unit_world = []"
  "file_at_path unit_world (mountUnitPath unit_world_paths) = Some (file_inode 420 golden_mount_unit)"
  "safe_unit_file (file_inode 420 golden_mount_unit)" "idata (file_inode 420 golden_mount_unit) = golden_mount_unit"
  "file_at_path unit_world (automountUnitPath unit_world_paths) = Some (file_inode 420 golden_automount_unit)"
  "safe_unit_file (file_inode 420 golden_automount_unit)" "idata (file_inode 420 golden_automount_unit) = golden_automount_unit"
  "file_at_path unit_world (mountUnitPath unit_world_paths @ ''.d'') = None"
  "file_at_path unit_world (automountUnitPath unit_world_paths @ ''.d'') = None"
  by (simp_all add: file_at_path_def file_at_def entry_def unit_world_def unit_world_paths_def resolve_dir_def dir_part_def
      base_part_def dir_inode_def safe_unit_file_def file_inode_def)

lemma golden_uid: "ownerUid golden_marker = 1000" by (simp add: golden_marker_def)


text \<open>The files of that world are those the generator emits.\<close>
theorem generated_pair_inspects_witness:
  "\<exists>chk. inspectDefinition unit_world_paths 1000 ''/home/tester/mnt/archive'' unit_world = (chk, unit_world) \<and>
     def_state chk = DefPair \<and> def_what chk = ''//nas.example.org/archive''"
  using generated_pair_inspects [OF unit_world_generated unit_world_files, unfolded golden_uid] by blast

definition two_halves :: "scanned_half list" where
  "two_halves =
     [\<lparr>half_base = ''b'', half_mount = True, half_marker = golden_marker, half_where = ''/mnt/b'', half_what = ''//n/b''\<rparr>,
      \<lparr>half_base = ''a'', half_mount = False, half_marker = golden_marker, half_where = ''/mnt/a'', half_what = ''''\<rparr>]"

text \<open>Two units that claim one share id: neither is trusted.\<close>
theorem pairScannedHalves_sound_witness:
  "map own_unitName (pairScannedHalves two_halves) = [''a'', ''b''] \<and>
   filter trusted (pairScannedHalves two_halves) = []"
proof -
  have "sort (remdups (map half_base two_halves)) = [''a'', ''b'']" by code_simp
  moreover have "filter trusted (pairScannedHalves two_halves) = []" by code_simp
  ultimately show ?thesis using pairScannedHalves_sound [of two_halves] by simp
qed

text \<open>Found in the other order.\<close>
theorem pairScannedHalves_order_witness:
  "pairScannedHalves two_halves = pairScannedHalves (rev two_halves)"
  by (rule pairScannedHalves_order) (simp_all add: two_halves_def)

definition stack_entry :: "int \<Rightarrow> int \<Rightarrow> qstring \<Rightarrow> qstring \<Rightarrow> mount_entry" where
  "stack_entry i p t s = \<lparr>mountId = i, parentId = p, entry_mountPoint = ''/mnt/a'', filesystemType = t, mountSource = s\<rparr>"

text \<open>A share mounted over its automount, listed the wrong way round.\<close>
theorem classifyMountEntries_stack_witness:
  "classifyMountEntries [stack_entry 40 30 ''cifs'' ''//n/a'', stack_entry 30 1 ''autofs'' ''systemd-1''] ''/mnt/a/'' ''//n/a'' =
     (MountPresent, VerMatch)"
proof -
  let ?es = "[stack_entry 40 30 ''cifs'' ''//n/a'', stack_entry 30 1 ''autofs'' ''systemd-1'']"
  have "cleanPath ''/mnt/a/'' = ''/mnt/a''" by code_simp
  then have "classifyMountEntries ?es ''/mnt/a/'' ''//n/a'' = classify_top (last (rev ?es)) ''//n/a''"
    by (intro classifyMountEntries_stack) (auto simp: stack_entry_def)
  then show ?thesis by (simp add: classify_top_def stack_entry_def)
qed


definition live_platform :: "unit platform" where
  "live_platform = \<lparr>run_command = (\<lambda>args s. ((0, ''''), s)),
     ctl_show = (\<lambda>s u p. Some ''active''),
     mountinfo = (\<lambda>s. Some ''40 30 0:45 / /mnt/a rw - cifs //n/a rw''),
     unique_mount_id = (\<lambda>s p. 77), systemd_escape = (\<lambda>s. Some (0, ''a'', '''')), passwd = (\<lambda>u. None)\<rparr>"

definition live_world :: "unit world" where
  "live_world = unit_world\<lparr>inodes := (inodes unit_world)(10 \<mapsto> dir_inode 0 [(''a'', 11)], 11 \<mapsto> file_inode 420 ''77''),
     absolute := [''/run/nasmount-ids'' \<mapsto> 10]\<rparr>"


end
