(* ===== verification/RootStores.thy ===== *)
theory RootStores
  imports Verify
begin

text \<open>
  Model of the small root-side modules on top of the durable primitives: the credential store
  (\<open>credentialstore.cpp\<close>), the records of automount instances (\<open>runtimefiles.cpp\<close>), the lock of the
  helper (\<open>rootlock.cpp\<close>), the systemctl calls (\<open>systemdops.cpp\<close>) and the inventory
  (\<open>inventory.cpp\<close>).  The second half states what each of them may change, in terms of the six
  directories of the host they work in.
\<close>

section \<open>The credential store\<close>

datatype store_error =
  StInvalidShareId | StControlChars | StFieldTooLong nat | StPasswordRequired | StFileTooLong nat
| StDurable durable_error | StCredentialMissing | StCannotOpenCredential errno
| StCredentialUnverified verify_error

text \<open>\<open>UnitSpec::MaxCredentialFieldBytes\<close> and \<open>MaxCredentialFileBytes\<close>.\<close>

definition MaxCredentialFieldBytes :: nat where "MaxCredentialFieldBytes = 4096"
definition MaxCredentialFileBytes :: nat where "MaxCredentialFileBytes = 3 * MaxCredentialFieldBytes + 256"

text \<open>Create if needed and open a private directory of a system directory.\<close>

definition open_private_dir ::
    "qstring \<Rightarrow> qstring \<Rightarrow> ArtifactKind \<Rightarrow> 's world \<Rightarrow> (durable_error + nat) \<times> 's world" where
  "open_private_dir parent name kind w =
     (case openSystemRoot parent w of
        (Inl e, w1) \<Rightarrow> (Inl e, w1)
      | (Inr rootFd, w1) \<Rightarrow>
     (case createAndVerifyDir rootFd name kind w1 of
        (r, w2) \<Rightarrow> (r, close_fd w2)))"

definition openCredentialDir :: "'s world \<Rightarrow> (durable_error + nat) \<times> 's world" where
  "openCredentialDir = open_private_dir ''/etc'' ''nasmount'' DirectoryKind"

definition fileNameFor :: "qstring \<Rightarrow> qstring" where
  "fileNameFor shareId = shareId @ ''.cred''"

definition validateFields :: "qstring \<Rightarrow> qstring \<Rightarrow> qstring \<Rightarrow> store_error + unit" where
  "validateFields username domain password =
     (if hasControlChars username \<or> hasControlChars domain \<or> hasControlChars password then Inl StControlChars
      else if MaxCredentialFieldBytes < length username \<or> MaxCredentialFieldBytes < length domain \<or>
              MaxCredentialFieldBytes < length password
      then Inl (StFieldTooLong MaxCredentialFieldBytes)
      else if username \<noteq> [] \<and> password = [] then Inl StPasswordRequired
      else Inr ())"

definition credential_content :: "qstring \<Rightarrow> qstring \<Rightarrow> qstring \<Rightarrow> qstring" where
  "credential_content username domain password =
     ''username='' @ username @ [CHR 0x0A] @
     (if password = [] then [] else ''password='' @ password @ [CHR 0x0A]) @
     (if domain = [] then [] else ''domain='' @ domain @ [CHR 0x0A])"

definition write_credential ::
    "qstring \<Rightarrow> qstring \<Rightarrow> qstring \<Rightarrow> qstring \<Rightarrow> 's world \<Rightarrow> (store_error + unit) \<times> 's world" where
  "write_credential shareId username domain password w =
     (if \<not> isValidShareId shareId then (Inl StInvalidShareId, w)
      else case validateFields username domain password of
        Inl e \<Rightarrow> (Inl e, w)
      | Inr _ \<Rightarrow>
     (let content = credential_content username domain password in
      if MaxCredentialFileBytes < length content then (Inl (StFileTooLong MaxCredentialFileBytes), w)
      else
     (case openCredentialDir w of
        (Inl e, w1) \<Rightarrow> (Inl (StDurable e), w1)
      | (Inr dirFd, w1) \<Rightarrow>
     (case durableReplace dirFd (fileNameFor shareId) content SensitiveFile w1 of
        (Inl e, w2) \<Rightarrow> (Inl (StDurable e), close_fd w2)
      | (Inr _, w2) \<Rightarrow> (Inr (), close_fd w2)))))"

definition remove_credential :: "qstring \<Rightarrow> bool \<Rightarrow> 's world \<Rightarrow> (store_error + unit) \<times> 's world" where
  "remove_credential shareId allowMissing w =
     (if \<not> isValidShareId shareId then (Inl StInvalidShareId, w)
      else
     (case openCredentialDir w of
        (Inl e, w1) \<Rightarrow> (Inl (StDurable e), w1)
      | (Inr dirFd, w1) \<Rightarrow>
     (case durableUnlink dirFd (fileNameFor shareId) allowMissing w1 of
        (Inl e, w2) \<Rightarrow> (Inl (StDurable e), close_fd w2)
      | (Inr _, w2) \<Rightarrow> (Inr (), close_fd w2))))"

definition credential_healthy :: "qstring \<Rightarrow> 's world \<Rightarrow> (store_error + unit) \<times> 's world" where
  "credential_healthy shareId w =
     (if \<not> isValidShareId shareId then (Inl StInvalidShareId, w)
      else
     (case openCredentialDir w of
        (Inl e, w1) \<Rightarrow> (Inl (StDurable e), w1)
      | (Inr dirFd, w1) \<Rightarrow>
     (case openat_file dirFd (fileNameFor shareId) w1 of
        (Inl e, w2) \<Rightarrow>
          (Inl (if e = ENOENT then StCredentialMissing else StCannotOpenCredential e), close_fd w2)
      | (Inr fd, w2) \<Rightarrow>
     (case verifyDescriptor fd Regular 0 (modeFor SensitiveFile) (close_fd w2) of
        (Inl v, w3) \<Rightarrow> (Inl (StCredentialUnverified v), close_fd w3)
      | (Inr _, w3) \<Rightarrow> (Inr (), close_fd w3)))))"

text \<open>The error string stays empty when the file exists or cannot be opened.\<close>

definition assertAbsent :: "qstring \<Rightarrow> 's world \<Rightarrow> (store_error option + unit) \<times> 's world" where
  "assertAbsent shareId w =
     (if \<not> isValidShareId shareId then (Inl (Some StInvalidShareId), w)
      else
     (case openCredentialDir w of
        (Inl e, w1) \<Rightarrow> (Inl (Some (StDurable e)), w1)
      | (Inr dirFd, w1) \<Rightarrow>
     (case openat_file dirFd (fileNameFor shareId) w1 of
        (Inl e, w2) \<Rightarrow> (if e = ENOENT then Inr () else Inl None, close_fd w2)
      | (Inr fd, w2) \<Rightarrow> (Inl None, close_fd (close_fd w2)))))"

section \<open>The records of automount instances\<close>

definition openIdDir :: "'s world \<Rightarrow> (durable_error + nat) \<times> 's world" where
  "openIdDir = open_private_dir ''/run'' ''nasmount-ids'' PublicDirectory"

definition writeAutomountId :: "qstring \<Rightarrow> 64 word \<Rightarrow> 's world \<Rightarrow> (durable_error + unit) \<times> 's world" where
  "writeAutomountId name i w =
     (case openIdDir w of
        (Inl e, w1) \<Rightarrow> (Inl e, w1)
      | (Inr dirFd, w1) \<Rightarrow>
     (case durableReplace dirFd name (decimal (unat i)) PublicRecord w1 of
        (r, w2) \<Rightarrow> (r, close_fd w2)))"

definition removeAutomountId :: "qstring \<Rightarrow> 's world \<Rightarrow> (durable_error + unit) \<times> 's world" where
  "removeAutomountId name w =
     (case openIdDir w of
        (Inl e, w1) \<Rightarrow> (Inl e, w1)
      | (Inr dirFd, w1) \<Rightarrow>
     (case durableUnlink dirFd name True w1 of
        (r, w2) \<Rightarrow> (r, close_fd w2)))"

section \<open>The lock of the helper\<close>

datatype lock_error =
  LockDurable durable_error | LockCannotOpen errno | LockUnverified verify_error | LockCannotAcquire errno

text \<open>\<open>flock(fd, LOCK_EX)\<close>, which waits until no other process holds the lock.\<close>

definition flock_ex :: "nat \<Rightarrow> 's world \<Rightarrow> (errno + unit) \<times> 's world" where
  "flock_ex fd w = attempt w (\<lambda>w. (Inr (), w))"

definition acquire :: "'s world \<Rightarrow> (lock_error + nat) \<times> 's world" where
  "acquire w =
     (case open_private_dir ''/run'' ''nasmount'' DirectoryKind w of
        (Inl e, w1) \<Rightarrow> (Inl (LockDurable e), w1)
      | (Inr dirFd, w1) \<Rightarrow>
     (case openat_create dirFd ''helper.lock'' 384 w1 of
        (Inl e, w2) \<Rightarrow> (Inl (LockCannotOpen e), close_fd w2)
      | (Inr fd, w2) \<Rightarrow>
     (case verifyDescriptor fd Regular 0 384 (close_fd w2) of
        (Inl v, w3) \<Rightarrow> (Inl (LockUnverified v), close_fd w3)
      | (Inr _, w3) \<Rightarrow>
     (case flock_ex fd w3 of
        (Inl e, w4) \<Rightarrow> (Inl (LockCannotAcquire e), close_fd w4)
      | (Inr _, w4) \<Rightarrow> (Inr fd, w4)))))"

text \<open>The destructor unlocks and closes the descriptor.\<close>

definition release_lock :: "'s world \<Rightarrow> 's world" where
  "release_lock w = close_fd w"

section \<open>systemctl\<close>

datatype command_error = ReloadFailed qstring | StartFailed qstring qstring | StopFailed qstring qstring

definition daemonReload :: "'s platform \<Rightarrow> 's world \<Rightarrow> (command_error + unit) \<times> 's world" where
  "daemonReload P w =
     (case run P [''systemctl'', ''daemon-reload''] w of
        ((code, out), w1) \<Rightarrow> (if code \<noteq> 0 then Inl (ReloadFailed out) else Inr (), w1))"

definition start_unit :: "'s platform \<Rightarrow> qstring \<Rightarrow> 's world \<Rightarrow> (command_error + unit) \<times> 's world" where
  "start_unit P name w =
     (case run P [''systemctl'', ''start'', name] w of
        ((code, out), w1) \<Rightarrow> (if code \<noteq> 0 then Inl (StartFailed name out) else Inr (), w1))"

definition stop_unit :: "'s platform \<Rightarrow> qstring \<Rightarrow> 's world \<Rightarrow> (command_error + unit) \<times> 's world" where
  "stop_unit P name w =
     (case run P [''systemctl'', ''stop'', name] w of
        ((code, out), w1) \<Rightarrow> (if code \<noteq> 0 then Inl (StopFailed name out) else Inr (), w1))"

section \<open>The inventory\<close>

record share_record =
  rec_id :: qstring
  credentialApplicable :: bool
  credentialHealthy :: bool

fun inventory_records :: "owned_unit list \<Rightarrow> 's world \<Rightarrow> share_record list \<times> 's world" where
  "inventory_records [] w = ([], w)"
| "inventory_records (u # us) w =
     (if own_id u = [] \<or> own_state u = DefTampered \<or> own_authentication u \<noteq> Credentials
      then inventory_records us w
      else case credential_healthy (own_id u) w of
        (r, w1) \<Rightarrow>
     (case inventory_records us w1 of
        (recs, w2) \<Rightarrow>
          (\<lparr>rec_id = own_id u, credentialApplicable = True, credentialHealthy = \<not> isl r\<rparr> # recs, w2)))"

definition buildFor :: "uid \<Rightarrow> 's world \<Rightarrow> share_record list \<times> 's world" where
  "buildFor u w = (case enumerateOwnedUnits u w of (us, w1) \<Rightarrow> inventory_records us w1)"

text \<open>A JSON string as Qt writes it.\<close>

definition json_char :: "char \<Rightarrow> qstring" where
  "json_char c =
     (if c = CHR 0x22 then [CHR 0x5C, CHR 0x22]
      else if c = CHR 0x5C then [CHR 0x5C, CHR 0x5C]
      else if c = CHR 0x08 then [CHR 0x5C, CHR ''b'']
      else if c = CHR 0x0C then [CHR 0x5C, CHR ''f'']
      else if c = CHR 0x0A then [CHR 0x5C, CHR ''n'']
      else if c = CHR 0x0D then [CHR 0x5C, CHR ''r'']
      else if c = CHR 0x09 then [CHR 0x5C, CHR ''t'']
      else if c < CHR 0x20 then CHR 0x5C # CHR ''u'' # hex_digits 4 (of_char c)
      else [c])"

definition json_string :: "qstring \<Rightarrow> qstring" where
  "json_string s = [CHR 0x22] @ concat (map json_char s) @ [CHR 0x22]"

definition json_bool :: "bool \<Rightarrow> qstring" where
  "json_bool b = (if b then ''true'' else ''false'')"

text \<open>A \<open>QJsonObject\<close> keeps its keys sorted.\<close>

definition record_json :: "share_record \<Rightarrow> qstring" where
  "record_json r =
     ''{'' @ json_string ''credentialApplicable'' @ '':'' @ json_bool (credentialApplicable r) @ '','' @
     json_string ''credentialHealthy'' @ '':'' @ json_bool (credentialHealthy r) @ '','' @
     json_string ''id'' @ '':'' @ json_string (rec_id r) @ ''}''"

definition toJson :: "share_record list \<Rightarrow> qstring" where
  "toJson records = ''['' @ join_with '','' (map record_json records) @ '']''"


section \<open>The directories of the host\<close>

text \<open>
  The three system directories and the three private ones below them.  A slot is a name in one of
  them; it is what the claims about the stores speak of.
\<close>

datatype place = EtcDir | RunDir | UnitsDir | CredDir | IdDir | LockDir

definition child :: "'s world \<Rightarrow> qstring \<Rightarrow> qstring \<Rightarrow> nat option" where
  "child w p name = (case absolute w p of None \<Rightarrow> None | Some d \<Rightarrow> entry w d name)"

fun dir_of :: "'s world \<Rightarrow> place \<Rightarrow> nat option" where
  "dir_of w EtcDir = absolute w ''/etc''"
| "dir_of w RunDir = absolute w ''/run''"
| "dir_of w UnitsDir = absolute w units_dir"
| "dir_of w CredDir = child w ''/etc'' ''nasmount''"
| "dir_of w IdDir = child w ''/run'' ''nasmount-ids''"
| "dir_of w LockDir = child w ''/run'' ''nasmount''"

definition system_place :: "place \<Rightarrow> bool" where
  "system_place p \<longleftrightarrow> p \<in> {EtcDir, RunDir}"

lemma system_place_simps [simp]:
  "system_place EtcDir" "system_place RunDir" "\<not> system_place UnitsDir" "\<not> system_place CredDir"
  "\<not> system_place IdDir" "\<not> system_place LockDir"
  by (simp_all add: system_place_def)

definition slot_at :: "'s world \<Rightarrow> place \<Rightarrow> qstring \<Rightarrow> inode option" where
  "slot_at w p x = (case dir_of w p of None \<Rightarrow> None | Some d \<Rightarrow> file_at w d x)"

text \<open>
  What is assumed of the host: the directories are different ones, belong to root and have no
  dangling entries, no entry of a directory with slots leads to one of them, absolute paths lead
  to files that exist, and the private directory of the records is reached through its entry.  Every operation below keeps it.
\<close>

definition host_ok :: "'s world \<Rightarrow> bool" where
  "host_ok w \<longleftrightarrow> fresh_inodes w \<and> absolute w ''/run/nasmount-ids'' = None \<and> (\<forall>path i. absolute w path = Some i \<longrightarrow> inodes w i \<noteq> None) \<and>
     (\<forall>p q d. dir_of w p = Some d \<longrightarrow> dir_of w q = Some d \<longrightarrow> p = q) \<and>
     (\<forall>p d. dir_of w p = Some d \<longrightarrow> dir_ok w d \<and> (\<forall>n. inodes w d = Some n \<longrightarrow> iuid n = 0)) \<and>
     (\<forall>p d x j. \<not> system_place p \<longrightarrow> dir_of w p = Some d \<longrightarrow> entry w d x = Some j \<longrightarrow>
        (\<forall>q. dir_of w q \<noteq> Some j))"

text \<open>An inode that is none of the directories and no slot leads to.\<close>

definition apart :: "'s world \<Rightarrow> nat \<Rightarrow> bool" where
  "apart w i \<longleftrightarrow> inodes w i \<noteq> None \<and> (\<forall>p. dir_of w p \<noteq> Some i) \<and>
     (\<forall>p d x. \<not> system_place p \<longrightarrow> dir_of w p = Some d \<longrightarrow> entry w d x \<noteq> Some i)"

text \<open>A slot is empty afterwards if it was before, and a file of root in it is the same.\<close>

definition kept :: "'s world \<Rightarrow> 's world \<Rightarrow> place \<Rightarrow> qstring \<Rightarrow> bool" where
  "kept w w' p x \<longleftrightarrow>
     (case slot_at w p x of
        None \<Rightarrow> slot_at w' p x = None
      | Some n \<Rightarrow> \<exists>n'. slot_at w' p x = Some n' \<and> iuid n' = iuid n \<and> (iuid n = 0 \<longrightarrow> n' = n))"

text \<open>
  \<open>touches k S w w'\<close>: of the slots only those of \<open>S\<close> and temporary files may have changed, and \<open>k\<close>
  descriptors were opened.
\<close>

definition touches :: "int \<Rightarrow> (place \<times> qstring) set \<Rightarrow> 's world \<Rightarrow> 's world \<Rightarrow> bool" where
  "touches k S w w' \<longleftrightarrow> host_ok w' \<and> absolute w' = absolute w \<and> open_fds w' = open_fds w + k \<and>
     (\<forall>i n. inodes w i = Some n \<longrightarrow> (\<exists>n'. inodes w' i = Some n' \<and> ikind n' = ikind n)) \<and>
     (\<forall>i. apart w i \<longrightarrow> apart w' i) \<and>
     (\<forall>p x. \<not> system_place p \<longrightarrow> (p, x) \<notin> S \<longrightarrow> \<not> is_temp_name x \<longrightarrow> kept w w' p x)"

lemma kept_refl [simp]: "kept w w p x"
  by (simp add: kept_def split: option.split)

lemma kept_trans: "kept w w1 p x \<Longrightarrow> kept w1 w' p x \<Longrightarrow> kept w w' p x"
  by (cases "slot_at w p x"; cases "slot_at w1 p x"; cases "slot_at w' p x") (auto simp: kept_def)

lemma kept_eq: "slot_at w' p x = slot_at w p x \<Longrightarrow> kept w w' p x"
  by (simp add: kept_def split: option.split)

lemma touches_refl: "host_ok w \<Longrightarrow> touches 0 {} w w"
  unfolding touches_def
proof (intro conjI allI impI)
  fix i n assume "inodes w i = Some n"
  then show "\<exists>n'. inodes w i = Some n' \<and> ikind n' = ikind n" by blast
qed simp_all

lemma touches_trans:
  assumes "touches k S w w1" "touches l T w1 w'"
  shows "touches (k + l) (S \<union> T) w w'"
  unfolding touches_def
proof (intro conjI allI impI)
  fix i n assume "inodes w i = Some n"
  then show "\<exists>n'. inodes w' i = Some n' \<and> ikind n' = ikind n"
    using assms unfolding touches_def by metis
next
  fix p x assume "\<not> system_place p" "(p, x) \<notin> S \<union> T" "\<not> is_temp_name x"
  then show "kept w w' p x" using assms kept_trans unfolding touches_def by (metis UnCI)
qed (use assms in \<open>auto simp: touches_def\<close>)

lemma touches_mono: "touches k S w w' \<Longrightarrow> S \<subseteq> T \<Longrightarrow> touches k T w w'"
  unfolding touches_def by blast

lemma touches_host: "touches k S w w' \<Longrightarrow> host_ok w'"
  by (simp add: touches_def)

lemma touches_absolute: "touches k S w w' \<Longrightarrow> absolute w' = absolute w"
  by (simp add: touches_def)

lemma touches_step:
  "touches k S w w1 \<Longrightarrow> (host_ok w1 \<Longrightarrow> touches l T w1 w') \<Longrightarrow> k + l = m \<Longrightarrow> S \<union> T \<subseteq> U \<Longrightarrow> touches m U w w'"
  using touches_trans touches_mono touches_host by metis

lemma touches_kept:
  "touches k S w w' \<Longrightarrow> \<not> system_place p \<Longrightarrow> (p, x) \<notin> S \<Longrightarrow> \<not> is_temp_name x \<Longrightarrow> kept w w' p x"
  by (simp add: touches_def)


text \<open>Steps that change no inode.\<close>

lemma same_dirs:
  assumes "absolute w' = absolute w" "inodes w' = inodes w"
  shows "dir_of w' p = dir_of w p" "entry w' = entry w" "file_at w' = file_at w" "slot_at w' p x = slot_at w p x"
proof -
  show e: "entry w' = entry w" using assms(2) by (intro ext) (simp add: entry_def)
  show "dir_of w' p = dir_of w p" using assms e by (cases p) (simp_all add: child_def cong: option.case_cong)
  moreover show "file_at w' = file_at w" using assms(2) e
    by (intro ext) (simp add: file_at_def cong: option.case_cong)
  ultimately show "slot_at w' p x = slot_at w p x" by (simp add: slot_at_def cong: option.case_cong)
qed

lemma same_inodes_touches:
  assumes "host_ok w" "absolute w' = absolute w" "inodes w' = inodes w" "next_ino w' = next_ino w"
  shows "touches (open_fds w' - open_fds w) {} w w'"
proof -
  note s = same_dirs [OF assms(2,3)]
  have "host_ok w' = host_ok w"
    by (simp add: host_ok_def s assms fresh_inodes_def dir_ok_def)
  moreover have "apart w' i = apart w i" for i by (simp add: apart_def s assms)
  moreover have "\<exists>n'. inodes w' i = Some n' \<and> ikind n' = ikind n" if "inodes w i = Some n" for i n
    using that assms(3) by simp
  ultimately show ?thesis using assms(1,2) kept_eq [OF s(4)] unfolding touches_def
    by (intro conjI allI impI) simp_all
qed

lemma reads_touches: "host_ok w \<Longrightarrow> reads k w w' \<Longrightarrow> touches k {} w w'"
  using same_inodes_touches [of w w'] by (simp add: reads_fields)

lemma touches_close: "host_ok w \<Longrightarrow> touches (- 1) {} w (close_fd w)"
  using same_inodes_touches [of w "close_fd w"] by simp

lemma run_touches:
  assumes "host_ok w" "run P args w = (r, w')"
  shows "touches 0 {} w w'"
  using same_inodes_touches [of w w'] assms by (auto simp: run_def split: prod.splits)

text \<open>A change of the entries of one of the directories with slots.\<close>

definition dir_edit :: "nat \<Rightarrow> qstring set \<Rightarrow> 's world \<Rightarrow> 's world \<Rightarrow> bool" where
  "dir_edit d X w w' \<longleftrightarrow> absolute w' = absolute w \<and> fresh_inodes w' \<and>
     (\<forall>i m. i \<noteq> d \<longrightarrow> inodes w i = Some m \<longrightarrow> inodes w' i = Some m) \<and>
     (\<exists>n n'. inodes w d = Some n \<and> inodes w' d = Some n' \<and> ikind n' = ikind n \<and> iuid n' = iuid n \<and>
        (\<forall>x. x \<notin> X \<longrightarrow> map_of (ients n') x = map_of (ients n) x) \<and>
        (\<forall>x j. map_of (ients n') x = Some j \<longrightarrow>
           map_of (ients n) x = Some j \<or> inodes w j = None \<and> inodes w' j \<noteq> None))"

lemma dir_of_exists: "host_ok w \<Longrightarrow> dir_of w p = Some d \<Longrightarrow> \<exists>n. inodes w d = Some n \<and> iuid n = 0"
  unfolding host_ok_def dir_ok_def by metis

lemma dir_of_apart: "host_ok w \<Longrightarrow> dir_of w p = Some d \<Longrightarrow> dir_of w q = Some d \<Longrightarrow> p = q"
  unfolding host_ok_def by metis

lemma dir_of_ok: "host_ok w \<Longrightarrow> dir_of w p = Some d \<Longrightarrow> dir_ok w d"
  unfolding host_ok_def by metis

lemma host_ids_path: "host_ok w \<Longrightarrow> absolute w ''/run/nasmount-ids'' = None"
  unfolding host_ok_def by simp

lemma host_fresh: "host_ok w \<Longrightarrow> fresh_inodes w"
  unfolding host_ok_def by simp

lemma slot_entry_apart:
  "host_ok w \<Longrightarrow> \<not> system_place p \<Longrightarrow> dir_of w p = Some d \<Longrightarrow> entry w d x = Some j \<Longrightarrow> dir_of w q \<noteq> Some j"
  unfolding host_ok_def by metis

lemma child_eq:
  assumes "absolute w' = absolute w"
    "\<And>d. absolute w ''/etc'' = Some d \<or> absolute w ''/run'' = Some d \<Longrightarrow> entry w' d = entry w d"
  shows "dir_of w' p = dir_of w p"
  using assms by (cases p) (auto simp: child_def split: option.splits)


lemma dir_edit_slots:
  assumes h: "host_ok w" and p: "\<not> system_place p" "dir_of w p = Some d" and e: "dir_edit d X w w'"
  shows "host_ok w'" "\<forall>i. apart w i \<longrightarrow> apart w' i"
    "\<forall>i n. inodes w i = Some n \<longrightarrow> (\<exists>n'. inodes w' i = Some n' \<and> ikind n' = ikind n)"
    "\<And>q x. \<not> system_place q \<Longrightarrow> q \<noteq> p \<or> x \<notin> X \<Longrightarrow> slot_at w' q x = slot_at w q x"
    "dir_of w' q = dir_of w q"
proof -
  obtain n n' where n: "inodes w d = Some n" "inodes w' d = Some n'" "ikind n' = ikind n" "iuid n' = iuid n"
      "\<And>x. x \<notin> X \<Longrightarrow> map_of (ients n') x = map_of (ients n) x"
      "\<And>x j. map_of (ients n') x = Some j \<Longrightarrow>
         map_of (ients n) x = Some j \<or> inodes w j = None \<and> inodes w' j \<noteq> None"
    using e unfolding dir_edit_def by blast
  have o: "inodes w' i = Some m" if "i \<noteq> d" "inodes w i = Some m" for i m
    using e that unfolding dir_edit_def by blast
  have a: "absolute w' = absolute w" and f: "fresh_inodes w'" using e unfolding dir_edit_def by blast+
  have oe: "entry w' i = entry w i" if "i \<noteq> d" "inodes w i = Some m" for i m
    using o [OF that] that by (intro ext) (simp add: entry_def)
  have ne: "d' \<noteq> d" if "dir_of w q = Some d'" "q \<noteq> p" for d' q
    using dir_of_apart [OF h that(1)] p(2) that(2) by blast
  show D: "dir_of w' q = dir_of w q" for q
  proof (rule child_eq [OF a])
    fix d' assume d': "absolute w ''/etc'' = Some d' \<or> absolute w ''/run'' = Some d'"
    then obtain q where q: "dir_of w q = Some d'" "system_place q" by (metis dir_of.simps(1,2) system_place_simps(1,2))
    then have "d' \<noteq> d" using ne p(1) by metis
    then show "entry w' d' = entry w d'" using oe dir_of_exists [OF h q(1)] by blast
  qed
  show K: "\<forall>i n. inodes w i = Some n \<longrightarrow> (\<exists>n'. inodes w' i = Some n' \<and> ikind n' = ikind n)"
  proof (intro allI impI)
    fix i m assume m: "inodes w i = Some m"
    show "\<exists>n'. inodes w' i = Some n' \<and> ikind n' = ikind m"
    proof (cases "i = d")
      case True
      then show ?thesis using m n by auto
    next
      case False
      then show ?thesis using o [OF False m] by blast
    qed
  qed
  have sub: "entry w q x = Some j \<or> inodes w j = None \<and> inodes w' j \<noteq> None"
    if "dir_of w r = Some q" "entry w' q x = Some j" for q r x j
  proof (cases "q = d")
    case True
    then show ?thesis using that n(1,2) n(6) [of x j] by (simp add: entry_def)
  next
    case False
    then show ?thesis using that oe [OF False] dir_of_exists [OF h that(1)] by auto
  qed
  have there: "inodes w j \<noteq> None" if "dir_of w q = Some j" for q j
    using dir_of_exists [OF h that] by auto
  show "host_ok w'"
    unfolding host_ok_def
  proof (intro conjI allI impI)
    fix path i assume "absolute w' path = Some i"
    then have "inodes w i \<noteq> None" using h a unfolding host_ok_def by auto
    then show "inodes w' i \<noteq> None" using K by fastforce
  next
    fix q d' assume q: "dir_of w' q = Some d'"
    then have q': "dir_of w q = Some d'" by (simp add: D)
    obtain m where m: "inodes w' d' = Some m" "iuid m = 0"
      using dir_of_exists [OF h q'] o n by (cases "d' = d") auto
    show "dir_ok w' d'"
      unfolding dir_ok_def
    proof (intro exI conjI allI impI)
      show "inodes w' d' = Some m" using m by simp
      fix x j assume x: "map_of (ients m) x = Some j"
      then have e': "entry w' d' x = Some j" using m by (simp add: entry_def)
      have ok: "j \<noteq> d' \<and> inodes w j \<noteq> None" if "entry w d' x = Some j"
        using dir_of_ok [OF h q'] that unfolding dir_ok_def entry_def by fastforce
      from sub [OF q' e'] show "j \<noteq> d'" using ok there [OF q'] by blast
      from sub [OF q' e'] show "inodes w' j \<noteq> None"
      proof
        assume "entry w d' x = Some j"
        then have "inodes w j \<noteq> None" using ok by blast
        then show ?thesis using K by fastforce
      qed simp
    qed
    fix k assume "inodes w' d' = Some k"
    then show "iuid k = 0" using m by simp
  next
    fix q d' x j r
    assume "\<not> system_place q" "dir_of w' q = Some d'" "entry w' d' x = Some j"
    then show "dir_of w' r \<noteq> Some j"
      using sub slot_entry_apart [OF h] there unfolding D by metis
  qed (use f dir_of_apart [OF h] host_ids_path [OF h] a in \<open>auto simp: D\<close>)
  show "\<forall>i. apart w i \<longrightarrow> apart w' i"
  proof (intro allI impI)
    fix i assume i: "apart w i"
    then have "inodes w' i \<noteq> None" using K unfolding apart_def by fastforce
    then show "apart w' i" using i sub unfolding apart_def D by metis
  qed
  show "slot_at w' q x = slot_at w q x" if q: "\<not> system_place q" "q \<noteq> p \<or> x \<notin> X" for q x
  proof (cases "dir_of w q")
    case (Some d')
    obtain m where m: "inodes w d' = Some m" using dir_of_exists [OF h Some] by blast
    have e': "entry w' d' x = entry w d' x"
    proof (cases "d' = d")
      case True
      then have "q = p" using ne Some by blast
      then show ?thesis using q True n(1,2) n(5) [of x] by (auto simp: entry_def)
    next
      case False
      then show ?thesis using oe m by metis
    qed
    have "file_at w' d' x = file_at w d' x"
    proof (cases "entry w d' x")
      case (Some j)
      have "j \<noteq> d" using slot_entry_apart [OF h q(1) \<open>dir_of w q = Some d'\<close> Some] p(2) by metis
      moreover have "inodes w j \<noteq> None" using dir_of_ok [OF h \<open>dir_of w q = Some d'\<close>] Some
        by (auto simp: dir_ok_def entry_def)
      ultimately show ?thesis using e' Some o by (auto simp: file_at_def)
    qed (use e' in \<open>simp add: file_at_def\<close>)
    then show ?thesis by (simp add: slot_at_def D Some)
  qed (simp add: slot_at_def D)
qed


text \<open>The durable primitives on a slot.\<close>

lemma tmp_dir_edit:
  assumes "fresh_inodes w" "inodes w d = Some n" "absolute w' = absolute w" "next_ino w' = next_ino w + 1"
    "inodes w' \<in> {tmp_left w d n m x, tmp_removed w d n m x, tmp_installed name w d n m x}"
  shows "dir_edit d ({name} \<union> {y. is_temp_name y}) w w'"
proof -
  have d: "d < next_ino w" using assms(1,2) by (metis fresh_inodes_def linorder_not_le option.distinct(1))
  have free: "inodes w (next_ino w) = None" using assms(1) by (simp add: fresh_inodes_def)
  have "fresh_inodes w'" using assms d
    by (auto simp: fresh_inodes_def tmp_left_def tmp_removed_def tmp_installed_def)
  moreover have "\<forall>i m. i \<noteq> d \<longrightarrow> inodes w i = Some m \<longrightarrow> inodes w' i = Some m"
    using tmp_inodes [OF assms(1,2,5)] by blast
  moreover have "\<exists>n'. inodes w' d = Some n' \<and> ikind n' = ikind n \<and> iuid n' = iuid n \<and>
      (\<forall>y. y \<notin> {name} \<union> {y. is_temp_name y} \<longrightarrow> map_of (ients n') y = map_of (ients n) y) \<and>
      (\<forall>y j. map_of (ients n') y = Some j \<longrightarrow> map_of (ients n) y = Some j \<or> inodes w j = None \<and> inodes w' j \<noteq> None)"
    using assms(5) d free
    by (auto simp: tmp_left_def tmp_removed_def tmp_installed_def)
  ultimately show ?thesis using assms(2,3) unfolding dir_edit_def by blast
qed

lemma dir_edit_touches:
  assumes "host_ok w" "\<not> system_place p" "dir_of w p = Some d" "dir_edit d ({x} \<union> {y. is_temp_name y}) w w'"
    "open_fds w' = open_fds w"
  shows "touches 0 {(p, x)} w w'"
proof -
  have "kept w w' q y" if "\<not> system_place q" "(q, y) \<notin> {(p, x)}" "\<not> is_temp_name y" for q y
    using dir_edit_slots(4) [OF assms(1-4) that(1), of y] that by (intro kept_eq) auto
  moreover have "absolute w' = absolute w" using assms(4) by (simp add: dir_edit_def)
  ultimately show ?thesis using dir_edit_slots(1,2,3) [OF assms(1-4)] assms(5) unfolding touches_def by simp
qed

lemma durableReplace_slot:
  assumes h: "host_ok w" and p: "\<not> system_place p" "dir_of w p = Some d"
    and r: "durableReplace d x content kind w = (r, w')" and x: "\<not> is_temp_name x"
  shows "touches 0 {(p, x)} w w' \<and> services w' = services w \<and>
    ((\<exists>e. r = Inl e) \<and> slot_at w' p x = slot_at w p x \<or>
     (\<exists>m. slot_at w' p x = Some m \<and> written m content kind))"
proof -
  note c = durableReplace_cases [OF r host_fresh [OF h]]
  have abs: "absolute w' = absolute w" "services w' = services w" "open_fds w' = open_fds w"
    using c by (simp_all add: same_env_def)
  have eff: "((\<exists>e. r = Inl e) \<and> file_at w' d x = file_at w d x \<or>
      (\<exists>m. file_at w' d x = Some m \<and> written m content kind))"
    using durableReplace_effect [OF r host_fresh [OF h] dir_of_ok [OF h p(2)] x] by blast
  from c consider (same) "inodes w' = inodes w" "next_ino w' = next_ino w"
    | (edit) n m y where "inodes w d = Some n" "next_ino w' = next_ino w + 1"
      "inodes w' \<in> {tmp_left w d n m y, tmp_removed w d n m y, tmp_installed x w d n m y}" by blast
  then have t: "touches 0 {(p, x)} w w' \<and> dir_of w' p = Some d"
  proof cases
    case same
    have "touches 0 {} w w'" using same_inodes_touches [OF h abs(1) same] abs(3) by simp
    then show ?thesis using touches_mono [OF _ empty_subsetI] same_dirs(1) [OF abs(1) same(1), of p] p(2) by auto
  next
    case edit
    note e = tmp_dir_edit [OF host_fresh [OF h] edit(1) abs(1) edit(2,3)]
    show ?thesis using dir_edit_touches [OF h p e abs(3)] dir_edit_slots(5) [OF h p e, of p] p(2) by simp
  qed
  then show ?thesis using eff abs p(2) by (auto simp: slot_at_def)
qed

lemma durableUnlink_slot:
  assumes h: "host_ok w" and p: "\<not> system_place p" "dir_of w p = Some d"
    and r: "durableUnlink d x True w = (r, w')"
  shows "touches 0 {(p, x)} w w' \<and> services w' = services w \<and>
    (if r = Inr () then slot_at w' p x = None else slot_at w' p x \<in> {None, slot_at w p x})"
proof -
  note c = durableUnlink_cases [OF r]
  have abs: "absolute w' = absolute w" "services w' = services w" "open_fds w' = open_fds w"
    "next_ino w' = next_ino w"
    using c by (simp_all add: same_env_def)
  have eff: "if r = Inr () then file_at w' d x = None else file_at w' d x \<in> {None, file_at w d x}"
    using durableUnlink_effect [OF r host_fresh [OF h] dir_of_ok [OF h p(2)]] by blast
  from c consider (same) "inodes w' = inodes w"
    | (edit) n where "inodes w d = Some n" "inodes w' = (inodes w)(d \<mapsto> remove_entry x n)" by blast
  then have t: "touches 0 {(p, x)} w w' \<and> dir_of w' p = Some d"
  proof cases
    case same
    have "touches 0 {} w w'" using same_inodes_touches [OF h abs(1) same abs(4)] abs(3) by simp
    then show ?thesis using touches_mono [OF _ empty_subsetI] same_dirs(1) [OF abs(1) same, of p] p(2) by auto
  next
    case edit
    have "fresh_inodes w'" using host_fresh [OF h] edit abs(4) by (auto simp: fresh_inodes_def)
    then have e: "dir_edit d ({x} \<union> {y. is_temp_name y}) w w'"
      using abs(1) edit unfolding dir_edit_def by simp
    show ?thesis using dir_edit_touches [OF h p e abs(3)] dir_edit_slots(5) [OF h p e, of p] p(2) by simp
  qed
  then show ?thesis using eff abs p(2) by (auto simp: slot_at_def)
qed


text \<open>Making one of the private directories.\<close>

fun private_path :: "place \<Rightarrow> (qstring \<times> qstring) option" where
  "private_path CredDir = Some (''/etc'', ''nasmount'')"
| "private_path IdDir = Some (''/run'', ''nasmount-ids'')"
| "private_path LockDir = Some (''/run'', ''nasmount'')"
| "private_path _ = None"

lemma private_pathD:
  assumes "private_path p = Some (parent, name)"
  shows "\<not> system_place p" "dir_of w p = child w parent name"
    "\<exists>s. system_place s \<and> (\<forall>v :: 's world. dir_of v s = absolute v parent)"
    "private_path q = Some (parent, name) \<Longrightarrow> q = p" "isSingleComponent name"
proof -
  show "\<exists>s. system_place s \<and> (\<forall>v :: 's world. dir_of v s = absolute v parent)"
    using assms by (cases p) (auto intro: exI [of _ EtcDir] exI [of _ RunDir])
  show "private_path q = Some (parent, name) \<Longrightarrow> q = p" using assms by (cases p; cases q) auto
qed (use assms in \<open>cases p; auto simp: isSingleComponent_def\<close>)+

lemma private_dir_added:
  fixes w w' :: "'s world"
  assumes h: "host_ok w" and p: "private_path p = Some (parent, name)"
    and d: "absolute w parent = Some d" "inodes w d = Some n" "map_of (ients n) name = None"
    and w': "inodes w' = (inodes w)(d \<mapsto> add_entry name (next_ino w) n, next_ino w \<mapsto> m)"
      "absolute w' = absolute w" "next_ino w' = next_ino w + 1"
    and m: "ients m = []" "iuid m = 0"
  shows "touches (open_fds w' - open_fds w) {} w w' \<and> dir_of w' p = Some (next_ino w)"
proof -
  let ?k = "next_ino w"
  obtain s where s: "system_place s" "\<And>v :: 's world. dir_of v s = absolute v parent" using private_pathD(3) [OF p] by metis
  have ds: "dir_of w s = Some d" using s(2) d(1) by simp
  have free: "inodes w ?k = None" using host_fresh [OF h] by (simp add: fresh_inodes_def)
  have dk: "d \<noteq> ?k" using d(2) free by auto
  have oe: "entry w' i = entry w i" if "i \<noteq> d" "i \<noteq> ?k" for i
    using that by (intro ext) (simp add: entry_def w')
  have ed: "entry w' d x = (if x = name then Some ?k else entry w d x)" for x
    using dk d(2) by (simp add: entry_def w')
  have ek: "entry w' ?k x = None" for x using m by (simp add: entry_def w')
  have nk: "e \<noteq> ?k" if "dir_of w q = Some e" for q e using dir_of_exists [OF h that] free by auto
  have sys: "absolute w parent' = Some e \<Longrightarrow> parent' \<in> {''/etc'', ''/run''} \<Longrightarrow> e = d \<longleftrightarrow> parent' = parent" for parent' e
    using dir_of_apart [OF h, of EtcDir d RunDir] p d(1) by (cases p) auto
  have D: "dir_of w' q = (if q = p then Some ?k else dir_of w q)" for q
  proof -
    have ch: "child w' par nm = (if par = parent \<and> nm = name then Some ?k else child w par nm)"
      if "par \<in> {''/etc'', ''/run''}" for par nm
    proof (cases "absolute w par")
      case (Some e)
      have "e \<noteq> ?k" using nk [of EtcDir e] nk [of RunDir e] that Some by auto
      then show ?thesis using Some sys [OF Some that] d(1) ed oe [of e] by (auto simp: child_def w')
    qed (use d(1) in \<open>auto simp: child_def w'\<close>)
    show ?thesis using ch p by (cases q; cases p) (auto simp: w')
  qed
  have none: "dir_of w p = None" using private_pathD(2) [OF p, of w] d by (simp add: child_def entry_def)
  have nsys: "\<not> system_place p" using private_pathD(1) [OF p] .
  have noted: "e \<noteq> d" if "\<not> system_place q" "dir_of w q = Some e" for q e
    using dir_of_apart [OF h that(2)] ds s(1) that(1) by metis
  have K: "\<exists>n'. inodes w' i = Some n' \<and> ikind n' = ikind l" if "inodes w i = Some l" for i l
    using that d(2) free by (cases "i = d"; cases "i = ?k") (auto simp: w')
  have uid: "iuid l = 0" if "dir_of w' q = Some e" "inodes w' e = Some l" for q e l
  proof (cases "q = p")
    case True
    then show ?thesis using that m D by (auto simp: w')
  next
    case False
    then have e: "dir_of w q = Some e" using that D by simp
    then show ?thesis using dir_of_exists [OF h e] that(2) nk [OF e] d(2) by (cases "e = d") (auto simp: w')
  qed
  have link: "j \<noteq> e \<and> inodes w' j \<noteq> None" if q: "dir_of w' q = Some e" and x: "entry w' e x = Some j" for q e x j
  proof (cases "q = p")
    case True
    then show ?thesis using q x D ek by auto
  next
    case False
    then have q': "dir_of w q = Some e" using q D by simp
    show ?thesis
    proof (cases "e = d \<and> x = name")
      case True
      then have "j = ?k" using x ed by simp
      then show ?thesis using True dk by (auto simp: w')
    next
      case False
      have "entry w e x = Some j" using x False ed oe nk [OF q'] by (cases "e = d") (auto split: if_splits)
      then have "j \<noteq> e \<and> inodes w j \<noteq> None"
        using dir_of_ok [OF h q'] unfolding dir_ok_def entry_def by fastforce
      then show ?thesis using K by fastforce
    qed
  qed
  have slot: "entry w' e x = entry w e x" if "\<not> system_place q" "q \<noteq> p" "dir_of w' q = Some e" for q e x
    using that D oe noted nk by metis
  have "host_ok w'"
    unfolding host_ok_def
  proof (intro conjI allI impI)
    show "fresh_inodes w'" using host_fresh [OF h] d(2) w'(3) dk
      by (auto simp: fresh_inodes_def w')
    fix path i assume "absolute w' path = Some i"
    then have "inodes w i \<noteq> None" using h w'(2) unfolding host_ok_def by auto
    then show "inodes w' i \<noteq> None" using K by fastforce
  next
    fix q r e assume "dir_of w' q = Some e" "dir_of w' r = Some e"
    then show "q = r" using D nk dir_of_apart [OF h] by (metis option.inject)
  next
    fix q e assume q: "dir_of w' q = Some e"
    have "\<exists>l. inodes w' e = Some l"
    proof (cases "q = p")
      case False
      then have "dir_of w q = Some e" using q D by simp
      then show ?thesis using dir_of_exists [OF h] K by blast
    qed (use q D in \<open>simp add: w'\<close>)
    then show "dir_ok w' e" using link [OF q] unfolding dir_ok_def entry_def by fastforce
    fix l assume "inodes w' e = Some l"
    then show "iuid l = 0" using uid [OF q] by simp
  next
    fix q e x j r assume q: "\<not> system_place q" "dir_of w' q = Some e" "entry w' e x = Some j"
    show "dir_of w' r \<noteq> Some j"
    proof (cases "q = p")
      case True
      then show ?thesis using q D ek by auto
    next
      case False
      then have "dir_of w q = Some e" "entry w e x = Some j" using q D slot by auto
      moreover from this have "inodes w j \<noteq> None"
        using dir_of_ok [OF h] unfolding dir_ok_def entry_def by fastforce
      ultimately show ?thesis using slot_entry_apart [OF h q(1)] free D by (cases "r = p") auto
    qed
  qed (use host_ids_path [OF h] w'(2) in simp)
  moreover have "apart w' i" if i: "apart w i" for i
  proof -
    have "i \<noteq> ?k" using i free unfolding apart_def by auto
    moreover have "inodes w' i \<noteq> None" using i K unfolding apart_def by fastforce
    ultimately show ?thesis using i D ek slot unfolding apart_def by (metis option.distinct(1) option.inject)
  qed
  moreover have "kept w w' q x" if q: "\<not> system_place q" for q x
  proof (rule kept_eq)
    show "slot_at w' q x = slot_at w q x"
    proof (cases "dir_of w q")
      case None
      then show ?thesis using D ek by (auto simp: slot_at_def file_at_def)
    next
      case (Some e)
      then have qp: "q \<noteq> p" using none by auto
      then have e': "dir_of w' q = Some e" "entry w' e x = entry w e x" using Some D slot [OF q] by auto
      have "inodes w' j = inodes w j" if "entry w e x = Some j" for j
      proof -
        have "j \<noteq> d" using slot_entry_apart [OF h q Some that, of s] ds by simp
        moreover have "inodes w j \<noteq> None"
          using dir_of_ok [OF h Some] that unfolding dir_ok_def entry_def by fastforce
        ultimately show ?thesis using free by (auto simp: w')
      qed
      then show ?thesis using e' Some by (simp add: slot_at_def file_at_def split: option.split)
    qed
  qed
  ultimately show ?thesis using K w'(2) D unfolding touches_def by auto
qed


lemma openSystemRoot_result:
  assumes "openSystemRoot path w = (r, w')"
  shows "case r of Inl _ \<Rightarrow> reads 0 w w' | Inr fd \<Rightarrow> reads 1 w w' \<and> absolute w path = Some fd"
proof -
  obtain r1 w1 where 1: "open_abs_dir False path w = (r1, w1)" by fastforce
  note o = open_abs_dir_result [OF 1]
  show ?thesis
  proof (cases r1)
    case (Inl e)
    then show ?thesis using assms o by (auto simp: openSystemRoot_def 1)
  next
    case (Inr fd)
    obtain r2 w2 where 2: "fstat fd w1 = (r2, w2)" by fastforce
    have "reads 0 w1 w2" using fstat_result [OF 2] by simp
    then have "reads 1 w w2" using reads_trans [of 1 w w1 0 w2] o Inr by simp
    moreover from this have "reads 0 w (close_fd w2)"
      using reads_trans [of 1 w w2 "- 1" "close_fd w2"] by simp
    ultimately show ?thesis using assms o Inr
      by (auto simp: openSystemRoot_def 1 2 split: sum.splits if_splits)
  qed
qed

lemma openVerifiedDir_result:
  assumes "openVerifiedDir parent name kind w = (r, w')"
  shows "case r of Inl _ \<Rightarrow> reads 0 w w' | Inr fd \<Rightarrow> reads 1 w w' \<and> entry w parent name = Some fd"
proof (cases "isSingleComponent name")
  case True
  obtain r1 w1 where 1: "openat_dir parent name w = (r1, w1)" by fastforce
  note o = openat_dir_result [OF 1]
  show ?thesis
  proof (cases r1)
    case (Inl e)
    then show ?thesis using assms o True by (auto simp: openVerifiedDir_def 1)
  next
    case (Inr fd)
    obtain r2 w2 where 2: "verifyDescriptor fd Directory 0 (modeFor kind) w1 = (r2, w2)" by fastforce
    have "reads 0 w1 w2" using verifyDescriptor_result [OF 2] by simp
    then have "reads 1 w w2" using reads_trans [of 1 w w1 0 w2] o Inr by simp
    moreover from this have "reads 0 w (close_fd w2)"
      using reads_trans [of 1 w w2 "- 1" "close_fd w2"] by simp
    ultimately show ?thesis using assms o Inr True
      by (auto simp: openVerifiedDir_def 1 2 split: sum.splits)
  qed
qed (use assms in \<open>auto simp: openVerifiedDir_def\<close>)

lemma private_mkdirat:
  assumes h: "host_ok w" and p: "private_path p = Some (parent, name)" and d: "absolute w parent = Some d"
    and m: "mkdirat d name mode w = (made, w')"
  shows "touches 0 {} w w' \<and> services w' = services w"
proof (cases made)
  case (Inl e)
  then show ?thesis using mkdirat_result [OF m] reads_touches [OF h] by (simp add: reads_fields)
next
  case (Inr z)
  then obtain n where "inodes w d = Some n" "map_of (ients n) name = None"
      "inodes w' = (inodes w)(d \<mapsto> add_entry name (next_ino w) n,
          next_ino w \<mapsto> new_inode DirectoryFile (masked mode w) n)"
      "absolute w' = absolute w" "next_ino w' = next_ino w + 1" "open_fds w' = open_fds w" "services w' = services w"
    using mkdirat_result [OF m] by auto
  then show ?thesis
    using private_dir_added [OF h p d, of n w' "new_inode DirectoryFile (masked mode w) n"] by (simp add: new_inode_def)
qed

lemma open_private_dir_result:
  assumes h: "host_ok w" and p: "private_path p = Some (parent, name)"
    and r: "open_private_dir parent name kind w = (r, w')"
  shows "services w' = services w \<and>
    (case r of Inl _ \<Rightarrow> touches 0 {} w w' | Inr fd \<Rightarrow> touches 1 {} w w' \<and> dir_of w' p = Some fd)"
proof -
  obtain r1 w1 where 1: "openSystemRoot parent w = (r1, w1)" by fastforce
  note o = openSystemRoot_result [OF 1]
  show ?thesis
  proof (cases r1)
    case (Inl e)
    then show ?thesis using r o reads_touches [OF h] by (auto simp: open_private_dir_def 1 reads_fields)
  next
    case (Inr d)
    have t1: "touches 1 {} w w1" "absolute w1 parent = Some d" "services w1 = services w"
      using o Inr reads_touches [OF h] by (auto simp: reads_fields)
    note h1 = touches_host [OF t1(1)]
    obtain made w2 where 2: "mkdirat d name (modeFor kind) w1 = (made, w2)" by fastforce
    have t2: "touches 0 {} w1 w2" "services w2 = services w1" using private_mkdirat [OF h1 p t1(2) 2] by simp_all
    obtain r3 w3 where 3: "(if made = Inr () then fsync d w2 else (Inr (), w2)) = (r3, w3)" by fastforce
    have rd3: "reads 0 w2 w3" using 3 fsync_reads by (auto split: if_splits)
    have t3: "touches 1 {} w w3" "services w3 = services w" "absolute w3 parent = Some d"
      using touches_trans [OF t1(1) touches_trans [OF t2(1) reads_touches [OF touches_host [OF t2(1)] rd3]]]
        t1(2,3) t2(2) touches_absolute [OF t2(1)] reads_fields(2,8) [OF rd3]
      by simp_all
    note h3 = touches_host [OF t3(1)]
    have cl: "touches 0 {} w (close_fd v)" if "touches 0 {} w3 v" for v
    proof -
      have "touches 1 {} w v" using touches_step [OF t3(1) that] by simp
      then show ?thesis using touches_step [OF _ touches_close, of 1 "{}" w v 0 "{}"] by simp
    qed
    show ?thesis
    proof (cases "made_failed made \<or> (\<exists>e. r3 = Inl e)")
      case True
      have "touches 0 {} w (close_fd w2)"
        using touches_step [OF touches_step [OF t1(1) t2(1)] touches_close] by simp
      then show ?thesis using True r Inr cl [OF touches_refl [OF h3]] t1(3) t2(2) t3(2) private_pathD(5) [OF p]
        by (auto simp: open_private_dir_def createAndVerifyDir_def 1 2 3 simp del: made_failed_iff split: if_splits sum.splits)
    next
      case False
      obtain r4 w4 where 4: "openVerifiedDir d name kind w3 = (r4, w4)" by fastforce
      note v = openVerifiedDir_result [OF 4]
      have res: "(r, w') = (case r4 of Inl err \<Rightarrow> Inl (if err = DurAbsent then DurCannotOpenCreated name else err)
          | Inr fd \<Rightarrow> Inr fd, close_fd w4)"
        using False r Inr private_pathD(5) [OF p]
        by (cases r3; cases r4) (auto simp: open_private_dir_def createAndVerifyDir_def 1 2 3 4 simp del: made_failed_iff)
      show ?thesis
      proof (cases r4)
        case (Inl e)
        then show ?thesis using res v cl [OF reads_touches [OF h3]] t3(2) by (auto simp: reads_fields)
      next
        case (Inr fd)
        have v': "reads 1 w3 w4" "entry w3 d name = Some fd" using v Inr by simp_all
        have "touches 1 {} w (close_fd w4)"
          using touches_step [OF touches_step [OF t3(1) reads_touches [OF h3 v'(1)]] touches_close] by simp
        moreover have "dir_of (close_fd w4) p = Some fd"
          using v'(2) t3(3) private_pathD(2) [OF p, of "close_fd w4"]
          by (simp add: child_def reads_fields [OF v'(1)] reads_entry [OF v'(1)])
        ultimately show ?thesis using res Inr v t3(2) by (auto simp: reads_fields)
      qed
    qed
  qed
qed


section \<open>What the stores do\<close>

lemma valid_id_not_temp: "isValidShareId i \<Longrightarrow> \<not> is_temp_name (fileNameFor i)"
  by (cases i) (auto simp: isValidShareId_def is_temp_name_def temp_prefix_def fileNameFor_def char_class_defs)

lemma openat_file_missing:
  assumes "openat_file d name w = (Inl ENOENT, w')" "dir_ok w d"
  shows "entry w d name = None"
  using assms(1) unfolding openat_file_def
proof (cases rule: attempt_cases)
  case (works w1)
  show ?thesis
  proof (cases "entry w d name")
    case (Some i)
    then obtain n where "inodes w i = Some n" using assms(2) by (fastforce simp: dir_ok_def entry_def)
    then show ?thesis using works(2) Some reads_entry [OF works(1)] reads_fields(1) [OF works(1)]
      by (auto simp: opened_def split: file_kind.splits)
  qed simp
qed auto

lemma cred_path: "private_path CredDir = Some (''/etc'', ''nasmount'')"
  and id_path: "private_path IdDir = Some (''/run'', ''nasmount-ids'')"
  and lock_path: "private_path LockDir = Some (''/run'', ''nasmount'')"
  by simp_all

lemma close_slot [simp]: "slot_at (close_fd w) p x = slot_at w p x"
  by (rule same_dirs(4)) simp_all

lemma close_kept [simp]: "kept w (close_fd w') p x = kept w w' p x"
  by (simp add: kept_def cong: option.case_cong)

lemma kept_host_close [simp]: "host_ok (close_fd w) = host_ok w"
  by (simp add: host_ok_def same_dirs [of "close_fd w" w] fresh_inodes_def dir_ok_def)

text \<open>A replacement or a removal in a private directory, opened and closed around it.\<close>

lemma private_replace:
  assumes h: "host_ok w" and p: "private_path p = Some (parent, name)" and x: "\<not> is_temp_name x"
    and o: "open_private_dir parent name kind w = (Inr d, w1)"
    and r: "durableReplace d x content k w1 = (r, w2)"
  shows "touches 0 {(p, x)} w (close_fd w2) \<and> services w2 = services w \<and>
    ((\<exists>e. r = Inl e) \<and> kept w w2 p x \<or> (\<exists>m. slot_at w2 p x = Some m \<and> written m content k))"
proof -
  have t1: "touches 1 {} w w1" "dir_of w1 p = Some d" "services w1 = services w"
    using open_private_dir_result [OF h p o] by simp_all
  note h1 = touches_host [OF t1(1)]
  note e = durableReplace_slot [OF h1 private_pathD(1) [OF p] t1(2) r x]
  have t2: "touches 0 {(p, x)} w1 w2" using e by simp
  have "touches 0 {(p, x)} w (close_fd w2)"
    using touches_trans [OF touches_trans [OF t1(1) t2] touches_close [OF touches_host [OF t2]]] by simp
  moreover have "kept w w2 p x" if "slot_at w2 p x = slot_at w1 p x"
    using touches_kept [OF t1(1) private_pathD(1) [OF p] _ x] kept_trans kept_eq [OF that] by blast
  ultimately show ?thesis using e t1(3) by auto
qed

lemma private_unlink:
  assumes h: "host_ok w" and p: "private_path p = Some (parent, name)" and x: "\<not> is_temp_name x"
    and o: "open_private_dir parent name kind w = (Inr d, w1)"
    and r: "durableUnlink d x True w1 = (r, w2)"
  shows "touches 0 {(p, x)} w (close_fd w2) \<and> services w2 = services w \<and>
    (r = Inr () \<longrightarrow> slot_at w2 p x = None) \<and> (slot_at w2 p x = None \<or> kept w w2 p x)"
proof -
  have t1: "touches 1 {} w w1" "dir_of w1 p = Some d" "services w1 = services w"
    using open_private_dir_result [OF h p o] by simp_all
  note h1 = touches_host [OF t1(1)]
  note e = durableUnlink_slot [OF h1 private_pathD(1) [OF p] t1(2) r]
  have t2: "touches 0 {(p, x)} w1 w2" using e by simp
  have "touches 0 {(p, x)} w (close_fd w2)"
    using touches_trans [OF touches_trans [OF t1(1) t2] touches_close [OF touches_host [OF t2]]] by simp
  moreover have "kept w w2 p x" if "slot_at w2 p x = slot_at w1 p x"
    using touches_kept [OF t1(1) private_pathD(1) [OF p] _ x] kept_trans kept_eq [OF that] by blast
  ultimately show ?thesis using e t1(3) by (auto split: if_splits)
qed

lemma write_credential_cases:
  "(\<exists>e. write_credential i user domain password w = (Inl e, w)) \<or>
   isValidShareId i \<and> validateFields user domain password = Inr () \<and>
   write_credential i user domain password w =
     (case openCredentialDir w of
        (Inl e, w1) \<Rightarrow> (Inl (StDurable e), w1)
      | (Inr dirFd, w1) \<Rightarrow>
     (case durableReplace dirFd (fileNameFor i) (credential_content user domain password) SensitiveFile w1 of
        (Inl e, w2) \<Rightarrow> (Inl (StDurable e), close_fd w2)
      | (Inr _, w2) \<Rightarrow> (Inr (), close_fd w2)))"
  by (cases "isValidShareId i"; cases "validateFields user domain password";
      cases "MaxCredentialFileBytes < length (credential_content user domain password)")
    (simp_all add: write_credential_def)

lemma write_credential_effect:
  assumes h: "host_ok w" and r: "write_credential i user domain password w = (r, w')"
  shows "touches 0 {(CredDir, fileNameFor i)} w w' \<and> services w' = services w \<and>
    ((\<exists>e. r = Inl e) \<and> kept w w' CredDir (fileNameFor i) \<or>
     (\<exists>m. slot_at w' CredDir (fileNameFor i) = Some m \<and>
        written m (credential_content user domain password) SensitiveFile))"
  using write_credential_cases [of i user domain password w]
proof (elim disjE conjE exE)
  fix e assume "write_credential i user domain password w = (Inl e, w)"
  then show ?thesis using r touches_mono [OF touches_refl [OF h] empty_subsetI] by auto
next
  assume v: "isValidShareId i" and u: "write_credential i user domain password w =
     (case openCredentialDir w of
        (Inl e, w1) \<Rightarrow> (Inl (StDurable e), w1)
      | (Inr dirFd, w1) \<Rightarrow>
     (case durableReplace dirFd (fileNameFor i) (credential_content user domain password) SensitiveFile w1 of
        (Inl e, w2) \<Rightarrow> (Inl (StDurable e), close_fd w2)
      | (Inr _, w2) \<Rightarrow> (Inr (), close_fd w2)))"
  note x = valid_id_not_temp [OF v]
  obtain r1 w1 where 1: "openCredentialDir w = (r1, w1)" by fastforce
  show ?thesis
  proof (cases r1)
    case (Inl e)
    have t: "touches 0 {} w w1" "services w1 = services w"
      using open_private_dir_result [OF h cred_path 1 [unfolded openCredentialDir_def]] Inl by simp_all
    moreover have "kept w w1 CredDir (fileNameFor i)" using touches_kept [OF t(1) _ _ x] by simp
    moreover have "r = Inl (StDurable e)" "w' = w1" using r u 1 Inl by simp_all
    ultimately show ?thesis using touches_mono [OF t(1) empty_subsetI] by auto
  next
    case (Inr d)
    obtain r2 w2 where 2: "durableReplace d (fileNameFor i) (credential_content user domain password) SensitiveFile w1 = (r2, w2)"
      by fastforce
    have "w' = close_fd w2" "(\<exists>e. r2 = Inl e) \<longleftrightarrow> (\<exists>e. r = Inl e)" using r u 1 2 Inr
      by (auto split: sum.splits)
    then show ?thesis using private_replace [OF h cred_path x 1 [unfolded openCredentialDir_def Inr] 2] by auto
  qed
qed

lemma remove_credential_effect:
  assumes h: "host_ok w" and r: "remove_credential i True w = (r, w')"
  shows "touches 0 {(CredDir, fileNameFor i)} w w' \<and> services w' = services w \<and>
    (r = Inr () \<longrightarrow> slot_at w' CredDir (fileNameFor i) = None) \<and>
    (slot_at w' CredDir (fileNameFor i) = None \<or> kept w w' CredDir (fileNameFor i))"
proof (cases "isValidShareId i")
  case False
  then show ?thesis using r touches_mono [OF touches_refl [OF h] empty_subsetI] by (auto simp: remove_credential_def)
next
  case v: True
  note x = valid_id_not_temp [OF v]
  obtain r1 w1 where 1: "openCredentialDir w = (r1, w1)" by fastforce
  show ?thesis
  proof (cases r1)
    case (Inl e)
    have t: "touches 0 {} w w1" "services w1 = services w"
      using open_private_dir_result [OF h cred_path 1 [unfolded openCredentialDir_def]] Inl by simp_all
    moreover have "kept w w1 CredDir (fileNameFor i)" using touches_kept [OF t(1) _ _ x] by simp
    moreover have "r = Inl (StDurable e)" "w' = w1" using r v 1 Inl by (auto simp: remove_credential_def)
    ultimately show ?thesis using touches_mono [OF t(1) empty_subsetI] by auto
  next
    case (Inr d)
    obtain r2 w2 where 2: "durableUnlink d (fileNameFor i) True w1 = (r2, w2)" by fastforce
    have "w' = close_fd w2" "r = Inr () \<longrightarrow> r2 = Inr ()" using r v 1 2 Inr
      by (auto simp: remove_credential_def split: sum.splits)
    then show ?thesis using private_unlink [OF h cred_path x 1 [unfolded openCredentialDir_def Inr] 2] by auto
  qed
qed

lemma credential_healthy_effect:
  assumes h: "host_ok w" and r: "credential_healthy i w = (r, w')"
  shows "touches 0 {} w w' \<and> services w' = services w \<and>
    (r = Inr () \<longrightarrow> (\<exists>n. slot_at w' CredDir (fileNameFor i) = Some n \<and>
       ikind n = RegularFile \<and> iuid n = 0 \<and> imode n = modeFor SensitiveFile))"
proof (cases "isValidShareId i")
  case False
  then show ?thesis using r touches_refl [OF h] by (auto simp: credential_healthy_def)
next
  case v: True
  obtain r1 w1 where 1: "openCredentialDir w = (r1, w1)" by fastforce
  show ?thesis
  proof (cases r1)
    case (Inl e)
    then show ?thesis using open_private_dir_result [OF h cred_path 1 [unfolded openCredentialDir_def]] r v 1
      by (auto simp: credential_healthy_def)
  next
    case (Inr d)
    have t1: "touches 1 {} w w1" "dir_of w1 CredDir = Some d" "services w1 = services w"
      using open_private_dir_result [OF h cred_path 1 [unfolded openCredentialDir_def]] Inr by simp_all
    note h1 = touches_host [OF t1(1)]
    obtain r2 w2 where 2: "openat_file d (fileNameFor i) w1 = (r2, w2)" by fastforce
    note o = openat_file_result [OF 2]
    show ?thesis
    proof (cases r2)
      case (Inl e)
      then have "reads (- 1) w1 (close_fd w2)" using reads_trans [of 0 w1 w2 "- 1"] o by simp
      then have "touches 0 {} w (close_fd w2)" using touches_trans [OF t1(1) reads_touches [OF h1]] by fastforce
      then show ?thesis using r v 1 2 Inl \<open>r1 = Inr d\<close> o t1(3) by (auto simp: credential_healthy_def reads_fields)
    next
      case (Inr fd)
      obtain r3 w3 where 3: "verifyDescriptor fd Regular 0 (modeFor SensitiveFile) (close_fd w2) = (r3, w3)" by fastforce
      note vr = verifyDescriptor_result [OF 3]
      have rd: "reads 1 w1 w2" "reads 0 (close_fd w2) w3" using o Inr vr by simp_all
      have "reads 0 w1 w3" using reads_trans [OF reads_trans [OF rd(1) reads_close] rd(2)] by simp
      then have r3: "reads (- 1) w1 (close_fd w3)" using reads_trans [OF _ reads_close] by fastforce
      have t: "touches 0 {} w (close_fd w3)" using touches_trans [OF t1(1) reads_touches [OF h1 r3]] by simp
      have w': "w' = close_fd w3" "r = Inr () \<longrightarrow> r3 = Inr ()" using r v 1 2 3 Inr \<open>r1 = Inr d\<close>
        by (auto simp: credential_healthy_def split: sum.splits)
      have "slot_at w' CredDir (fileNameFor i) = inodes w1 fd"
        using same_dirs(4) [of "close_fd w3" w1 CredDir "fileNameFor i"] reads_fields(1,2) [OF r3] t1(2) o Inr w'(1)
        by (simp add: slot_at_def file_at_def)
      then show ?thesis using t w' vr t1(3) reads_fields(8) [OF r3] reads_fields(1) [OF rd(1)] by auto
    qed
  qed
qed

lemma assertAbsent_effect:
  assumes h: "host_ok w" and r: "assertAbsent i w = (r, w')"
  shows "touches 0 {} w w' \<and> services w' = services w \<and>
    (r = Inr () \<longrightarrow> isValidShareId i \<and> slot_at w' CredDir (fileNameFor i) = None)"
proof (cases "isValidShareId i")
  case False
  then show ?thesis using r touches_refl [OF h] by (auto simp: assertAbsent_def)
next
  case v: True
  obtain r1 w1 where 1: "openCredentialDir w = (r1, w1)" by fastforce
  show ?thesis
  proof (cases r1)
    case (Inl e)
    then show ?thesis using open_private_dir_result [OF h cred_path 1 [unfolded openCredentialDir_def]] r v 1
      by (auto simp: assertAbsent_def)
  next
    case (Inr d)
    have t1: "touches 1 {} w w1" "dir_of w1 CredDir = Some d" "services w1 = services w"
      using open_private_dir_result [OF h cred_path 1 [unfolded openCredentialDir_def]] Inr by simp_all
    note h1 = touches_host [OF t1(1)]
    obtain r2 w2 where 2: "openat_file d (fileNameFor i) w1 = (r2, w2)" by fastforce
    note o = openat_file_result [OF 2]
    have rd: "reads (- 1) w1 w'"
    proof (cases r2)
      case (Inl e)
      then show ?thesis using r v 1 2 \<open>r1 = Inr d\<close> reads_trans [of 0 w1 w2 "- 1" "close_fd w2"] o
        by (auto simp: assertAbsent_def)
    next
      case (Inr fd)
      then have "reads 0 w1 (close_fd w2)" using reads_trans [of 1 w1 w2 "- 1"] o by simp
      then have "reads (- 1) w1 (close_fd (close_fd w2))" using reads_trans [OF _ reads_close] by fastforce
      then show ?thesis using r v 1 2 Inr \<open>r1 = Inr d\<close> by (auto simp: assertAbsent_def)
    qed
    have "slot_at w' CredDir (fileNameFor i) = None" if "r = Inr ()"
    proof -
      have "r2 = Inl ENOENT" using r v 1 2 Inr that by (auto simp: assertAbsent_def split: sum.splits if_splits)
      then have "entry w1 d (fileNameFor i) = None"
        using openat_file_missing [of d "fileNameFor i" w1 w2] 2 dir_of_ok [OF h1 t1(2)] by simp
      then show ?thesis using same_dirs(4) [of w' w1 CredDir "fileNameFor i"] reads_fields(1,2) [OF rd] t1(2)
        by (simp add: slot_at_def file_at_def)
    qed
    then show ?thesis using touches_trans [OF t1(1) reads_touches [OF h1 rd]] t1(3) v by (simp add: reads_fields(8) [OF rd])
  qed
qed


lemma private_op_failed:
  assumes h: "host_ok w" and p: "private_path p = Some (parent, name)" and x: "\<not> is_temp_name x"
    and o: "open_private_dir parent name kind w = (Inl e, w1)"
  shows "touches 0 {(p, x)} w w1 \<and> services w1 = services w \<and> kept w w1 p x"
proof -
  have t: "touches 0 {} w w1" "services w1 = services w" using open_private_dir_result [OF h p o] by simp_all
  then show ?thesis using touches_mono [OF t(1) empty_subsetI] touches_kept [OF t(1) private_pathD(1) [OF p] _ x]
    by simp
qed

lemma writeAutomountId_effect:
  assumes h: "host_ok w" and r: "writeAutomountId name i w = (r, w')" and x: "\<not> is_temp_name name"
  shows "touches 0 {(IdDir, name)} w w' \<and> services w' = services w \<and>
    ((\<exists>e. r = Inl e) \<and> kept w w' IdDir name \<or>
     (\<exists>m. slot_at w' IdDir name = Some m \<and> written m (decimal (unat i)) PublicRecord))"
proof -
  obtain r1 w1 where 1: "openIdDir w = (r1, w1)" by fastforce
  show ?thesis
  proof (cases r1)
    case (Inl e)
    then show ?thesis using private_op_failed [OF h id_path x, of PublicDirectory e w1] 1 r
      by (auto simp: writeAutomountId_def openIdDir_def)
  next
    case (Inr d)
    obtain r2 w2 where 2: "durableReplace d name (decimal (unat i)) PublicRecord w1 = (r2, w2)" by fastforce
    show ?thesis using private_replace [OF h id_path x 1 [unfolded openIdDir_def Inr] 2] r 1 2 Inr
      by (auto simp: writeAutomountId_def)
  qed
qed

lemma removeAutomountId_effect:
  assumes h: "host_ok w" and r: "removeAutomountId name w = (r, w')" and x: "\<not> is_temp_name name"
  shows "touches 0 {(IdDir, name)} w w' \<and> services w' = services w \<and>
    (r = Inr () \<longrightarrow> slot_at w' IdDir name = None) \<and> (slot_at w' IdDir name = None \<or> kept w w' IdDir name)"
proof -
  obtain r1 w1 where 1: "openIdDir w = (r1, w1)" by fastforce
  show ?thesis
  proof (cases r1)
    case (Inl e)
    then show ?thesis using private_op_failed [OF h id_path x, of PublicDirectory e w1] 1 r
      by (auto simp: removeAutomountId_def openIdDir_def)
  next
    case (Inr d)
    obtain r2 w2 where 2: "durableUnlink d name True w1 = (r2, w2)" by fastforce
    show ?thesis using private_unlink [OF h id_path x 1 [unfolded openIdDir_def Inr] 2] r 1 2 Inr
      by (auto simp: removeAutomountId_def)
  qed
qed

text \<open>Enumeration only reads.\<close>

lemma enumerate_reads:
  "enumerateOwnedUnits u w = (us, w') \<Longrightarrow> reads 0 w w'"
  "enumerateManagedUnits w = (us, w') \<Longrightarrow> reads 0 w w'"
  by (auto simp: enumerateOwnedUnits_def enumerateManagedUnits_def scanManagedHalves_def
      dest!: scan_files_reads split: prod.splits)

definition healthy_credential :: "'s world \<Rightarrow> qstring \<Rightarrow> bool" where
  "healthy_credential w i \<longleftrightarrow>
     (\<exists>n. slot_at w CredDir (fileNameFor i) = Some n \<and> ikind n = RegularFile \<and> iuid n = 0 \<and>
        imode n = modeFor SensitiveFile)"

lemma healthy_credential_kept:
  "kept w w' CredDir (fileNameFor i) \<Longrightarrow> healthy_credential w i \<Longrightarrow> healthy_credential w' i"
  by (auto simp: kept_def healthy_credential_def)

lemma credential_healthy_sound:
  "host_ok w \<Longrightarrow> credential_healthy i w = (Inr (), w') \<Longrightarrow> healthy_credential w' i"
  using credential_healthy_effect unfolding healthy_credential_def by blast

lemma inventory_records_sound:
  assumes "inventory_records us w = (recs, w')" "host_ok w"
  shows "touches 0 {} w w' \<and> services w' = services w \<and>
    map rec_id recs = map own_id (filter (\<lambda>u. own_id u \<noteq> [] \<and> own_state u \<noteq> DefTampered \<and> own_authentication u = Credentials) us) \<and>
    (\<forall>r \<in> set recs. credentialApplicable r \<and> (credentialHealthy r \<longrightarrow> healthy_credential w' (rec_id r)))"
  using assms
proof (induction us arbitrary: w w' recs)
  case Nil
  then show ?case by (auto simp: touches_refl)
next
  case (Cons u us)
  show ?case
  proof (cases "own_id u = [] \<or> own_state u = DefTampered \<or> own_authentication u \<noteq> Credentials")
    case True
    then show ?thesis using Cons by auto
  next
    case False
    obtain r1 w1 where 1: "credential_healthy (own_id u) w = (r1, w1)" by fastforce
    obtain recs2 w2 where 2: "inventory_records us w1 = (recs2, w2)" by fastforce
    have t1: "touches 0 {} w w1" "services w1 = services w" using credential_healthy_effect [OF Cons.prems(2) 1] by simp_all
    note ih = Cons.IH [OF 2 touches_host [OF t1(1)]]
    have res: "recs = \<lparr>rec_id = own_id u, credentialApplicable = True, credentialHealthy = \<not> isl r1\<rparr> # recs2" "w' = w2"
      using Cons.prems(1) False by (auto simp: 1 2)
    have "healthy_credential w' (own_id u)" if "\<not> isl r1"
    proof -
      have r1: "r1 = Inr ()" using that by (cases r1) auto
      have "isValidShareId (own_id u)" using 1 r1 by (auto simp: credential_healthy_def split: if_splits)
      then have "kept w1 w2 CredDir (fileNameFor (own_id u))"
        using touches_kept [of 0 "{}" w1 w2] ih valid_id_not_temp by simp
      moreover have "healthy_credential w1 (own_id u)" using credential_healthy_sound [OF Cons.prems(2)] 1 r1 by simp
      ultimately show ?thesis using healthy_credential_kept res(2) by blast
    qed
    moreover have "touches 0 {} w w2" using touches_trans [OF t1(1)] ih by fastforce
    ultimately show ?thesis using False ih t1(2) res by auto
  qed
qed


section \<open>Theorems\<close>

text \<open>The records of automount instances as a durable store: what a reader makes of one.\<close>

definition id_record :: "'s world \<Rightarrow> qstring \<Rightarrow> (64 word) option" where
  "id_record w name =
     (case slot_at w IdDir name of
        None \<Rightarrow> None
      | Some n \<Rightarrow> if safe_unit_file n \<and> length (idata n) \<le> 32 then to_ulong64 (bytes_trimmed (idata n)) else None)"

definition put_id :: "qstring \<Rightarrow> 64 word \<Rightarrow> 's world \<Rightarrow> bool \<times> 's world" where
  "put_id name i w = (case writeAutomountId name i w of (r, w') \<Rightarrow> (\<not> isl r, w'))"

definition del_id :: "qstring \<Rightarrow> 's world \<Rightarrow> bool \<times> 's world" where
  "del_id name w = (case removeAutomountId name w of (r, w') \<Rightarrow> (\<not> isl r, w'))"

lemma id_record_kept: "kept w w' IdDir name \<Longrightarrow> id_record w' name = id_record w name"
  by (auto simp: kept_def id_record_def safe_unit_file_def split: option.splits)

lemma length_decimal: "n < 10 ^ k \<Longrightarrow> 0 < k \<Longrightarrow> length (decimal n) \<le> k"
proof (induction k arbitrary: n)
  case (Suc k)
  show ?case
  proof (cases "n < 10")
    case True
    then show ?thesis by (subst decimal.simps) simp
  next
    case False
    then have "0 < k" using Suc.prems by (cases k) auto
    moreover have "n div 10 < 10 ^ k" using Suc.prems by (simp add: less_mult_imp_div_less mult.commute)
    ultimately have "length (decimal (n div 10)) \<le> k" using Suc.IH by blast
    then show ?thesis using False by (subst decimal.simps) simp
  qed
qed simp

lemma length_decimal_64: "length (decimal (unat (i :: 64 word))) \<le> 32"
proof -
  have "unat i < 10 ^ 32" using unsigned_less [of i] by (rule less_le_trans) simp
  then show ?thesis by (rule length_decimal) simp
qed

lemma to_ulong64_decimal: "to_ulong64 (decimal (unat (i :: 64 word))) = Some i"
proof -
  have "\<not> prefix ''+'' (decimal (unat i))"
    using decimal_avoids [of "CHR ''+''" "unat i"] by (cases "decimal (unat i)") (simp_all add: char_class_defs)
  then show ?thesis using unsigned_less [of i] by (simp add: to_ulong64_def)
qed

lemma digits_no_space:
  assumes "s \<noteq> []" "list_all is_digit s"
  shows "lead_space ascii_space s = 0"
proof (rule lead_space_drop_id)
  fix w assume "w \<in> set ascii_space"
  then show "\<not> prefix w s" using assms by (cases s) (auto simp: ascii_space_def char_class_defs)
qed (simp add: ascii_space_def)

lemma map_rev_ascii_space: "map rev ascii_space = ascii_space"
  by (simp add: ascii_space_def)

lemma bytes_trimmed_decimal: "bytes_trimmed (decimal n) = decimal n"
proof -
  have "list_all is_digit (rev (decimal n))" using decimal_digits [of n] by (simp add: list_all_iff)
  then show ?thesis
    by (simp add: bytes_trimmed_def strip_right_def map_rev_ascii_space strip_left_id digits_no_space)
qed


lemma written_id_record:
  "slot_at w IdDir name = Some m \<Longrightarrow> written m (decimal (unat (i :: 64 word))) PublicRecord \<Longrightarrow> id_record w name = Some i"
  using length_decimal_64 [of i]
  by (simp add: id_record_def written_def safe_unit_file_def bytes_trimmed_decimal to_ulong64_decimal)

interpretation id_records: file_store id_record put_id del_id host_ok "\<lambda>k. \<not> is_temp_name k"
proof unfold_locales
  fix w w' :: "'s world" and k i b
  assume h: "host_ok w" and k: "\<not> is_temp_name k" and r: "put_id k i w = (b, w')"
  then obtain r1 where r1: "writeAutomountId k i w = (r1, w')" "b = (\<not> isl r1)"
    by (auto simp: put_id_def split: prod.splits)
  note e = writeAutomountId_effect [OF h r1(1) k]
  show "host_ok w'" using e touches_host by blast
  show "id_record w' k = Some i \<or> \<not> b \<and> id_record w' k = id_record w k"
    using e r1(2) written_id_record id_record_kept by fastforce
  fix j assume "\<not> is_temp_name j" "j \<noteq> k"
  then show "id_record w' j = id_record w j"
    using touches_kept [of 0 "{(IdDir, k)}" w w'] e by (intro id_record_kept) simp
next
  fix w w' :: "'s world" and k b
  assume h: "host_ok w" and k: "\<not> is_temp_name k" and r: "del_id k w = (b, w')"
  then obtain r1 where r1: "removeAutomountId k w = (r1, w')" "b = (\<not> isl r1)"
    by (auto simp: del_id_def split: prod.splits)
  note e = removeAutomountId_effect [OF h r1(1) k]
  show "host_ok w'" using e touches_host by blast
  show "id_record w' k = None \<or> \<not> b \<and> id_record w' k = id_record w k"
  proof (cases "slot_at w' IdDir k = None")
    case False
    then have "r1 \<noteq> Inr ()" "kept w w' IdDir k" using e by auto
    then show ?thesis using r1(2) id_record_kept by (cases r1) auto
  qed (simp add: id_record_def)
  fix j assume "\<not> is_temp_name j" "j \<noteq> k"
  then show "id_record w' j = id_record w j"
    using touches_kept [of 0 "{(IdDir, k)}" w w'] e by (intro id_record_kept) simp
qed

lemma dir_part_append: "CHR ''/'' \<notin> set n \<Longrightarrow> dir_part (d @ CHR ''/'' # n) = d"
  by (simp add: dir_part_def dropWhile_append)

lemma base_part_append: "CHR ''/'' \<notin> set n \<Longrightarrow> base_part (d @ CHR ''/'' # n) = n"
  by (simp add: base_part_def takeWhile_append)

lemma record_path:
  assumes "host_ok w" "CHR ''/'' \<notin> set name"
  shows "resolve_dir w (dir_part (''/run/nasmount-ids/'' @ name)) = dir_of w IdDir"
    "base_part (''/run/nasmount-ids/'' @ name) = name"
proof -
  show "base_part (''/run/nasmount-ids/'' @ name) = name" using base_part_append [OF assms(2), of "''/run/nasmount-ids''"] by simp
  have "dir_part (''/run/nasmount-ids/'' @ name) = ''/run/nasmount-ids''" using dir_part_append [OF assms(2), of "''/run/nasmount-ids''"] by simp
  then show "resolve_dir w (dir_part (''/run/nasmount-ids/'' @ name)) = dir_of w IdDir"
    using host_ids_path [OF assms(1)]
    by (simp add: resolve_dir_def child_def dir_part_def base_part_def cong: option.case_cong)
qed


lemma readRecorded_works:
  assumes h: "host_ok w" and n: "CHR ''/'' \<notin> set name" and s: "sched w = []"
    and r: "id_record w name = Some i"
  shows "readRecordedAutomountId name w = (i, w)"
proof -
  obtain m where m: "slot_at w IdDir name = Some m" "safe_unit_file m" "length (idata m) \<le> 32"
      "to_ulong64 (bytes_trimmed (idata m)) = Some i"
    using r by (auto simp: id_record_def split: option.splits if_splits)
  obtain d fd where d: "dir_of w IdDir = Some d" "entry w d name = Some fd" "inodes w fd = Some m"
    using m(1) by (auto simp: slot_at_def file_at_def split: option.splits)
  let ?w = "w\<lparr>open_fds := open_fds w + 1\<rparr>"
  have "open_path_nofollow (''/run/nasmount-ids/'' @ name) w = (Inr fd, ?w)"
    using d m(2) s unfolding open_path_nofollow_def record_path [OF h n]
    by (simp add: openat_file_def opened_def safe_unit_file_def)
  moreover have "fstat fd ?w = (Inr m, ?w)" using d s by (simp add: fstat_def)
  moreover have "read_all fd (length (idata m)) [] ?w = (idata m, ?w)"
    using d s by (intro read_all_works) simp_all
  ultimately show ?thesis using m by (simp add: readRecordedAutomountId_def)
qed

text \<open>C18. The records of the automount instances refine a durable store of 64-bit ids: after any sequence
  of writes and removals that succeeded, whatever calls were short on the way, the reader of
  \<open>core/verify\<close> finds for every unit the id written last; and when the sequence fails half way, every
  record is what it was or what one of the operations on it makes of it.\<close>
theorem automount_records:
  assumes "run_script put_id del_id ops w = (b, w')" and "host_ok w"
    and "\<forall>x \<in> set ops. \<not> is_temp_name (op_key x)" "\<not> is_temp_name name" "CHR ''/'' \<notin> set name"
  shows "host_ok w' \<and> id_record w' name \<in> insert (id_record w name) (op_value ` {x \<in> set ops. op_key x = name}) \<and>
    (b \<longrightarrow> sched w' = [] \<longrightarrow> (\<forall>i. script_value ops name (id_record w name) = Some i \<longrightarrow>
       readRecordedAutomountId name w' = (i, w')))"
proof -
  note a = id_records.script_atomic [OF assms(2,3,1,4)]
  have "readRecordedAutomountId name w' = (i, w')"
    if "b" "sched w' = []" "script_value ops name (id_record w name) = Some i" for i
    using readRecorded_works [OF _ assms(5) that(2)] a that(1,3) id_records.script_success [OF assms(2,3) _ assms(4)] assms(1)
    by simp
  then show ?thesis using a by blast
qed

lemma credential_lines:
  assumes "validateFields user domain password = Inr ()"
  shows "split_on CHR 0x0A (credential_content user domain password) =
    [''username='' @ user] @ (if password = [] then [] else [''password='' @ password]) @
    (if domain = [] then [] else [''domain='' @ domain]) @ [[]]"
    "length (credential_content user domain password) \<le> MaxCredentialFileBytes"
proof -
  have nl: "CHR 0x0A \<notin> set user" "CHR 0x0A \<notin> set domain" "CHR 0x0A \<notin> set password"
    using assms hasControlChars_newline by (auto simp: validateFields_def split: if_splits)
  have line: "split_on CHR 0x0A (key @ v @ CHR 0x0A # rest) = (key @ v) # split_on CHR 0x0A rest"
    if "CHR 0x0A \<notin> set v" "CHR 0x0A \<notin> set key" for key v rest :: qstring
    using split_on_append_sep [of "CHR 0x0A" "key @ v" rest] that by simp
  show "split_on CHR 0x0A (credential_content user domain password) =
    [''username='' @ user] @ (if password = [] then [] else [''password='' @ password]) @
    (if domain = [] then [] else [''domain='' @ domain]) @ [[]]"
    using line [OF nl(1), of "''username=''"] line [OF nl(2), of "''domain=''"] line [OF nl(3), of "''password=''"]
    by (auto simp: credential_content_def)
  show "length (credential_content user domain password) \<le> MaxCredentialFileBytes"
    using assms by (auto simp: validateFields_def credential_content_def MaxCredentialFileBytes_def
        MaxCredentialFieldBytes_def split: if_splits)
qed

text \<open>C19. Writing a credential touches no other slot of the host and leaks no descriptor.  If it succeeds,
  the file belongs to root, has mode 0600 and consists of the lines for the given fields and nothing
  else; if it fails, the old file is still there or the complete new one is.\<close>
theorem write_credential_exact:
  assumes "write_credential i user domain password w = (r, w')" and "host_ok w"
  shows "touches 0 {(CredDir, fileNameFor i)} w w' \<and>
    (kept w w' CredDir (fileNameFor i) \<or> healthy_credential w' i) \<and>
    (r = Inr () \<longrightarrow> healthy_credential w' i \<and>
       (\<exists>n. slot_at w' CredDir (fileNameFor i) = Some n \<and>
          split_on CHR 0x0A (idata n) =
            [''username='' @ user] @ (if password = [] then [] else [''password='' @ password]) @
            (if domain = [] then [] else [''domain='' @ domain]) @ [[]]))"
proof -
  note e = write_credential_effect [OF assms(2,1)]
  have healthy: "healthy_credential w' i"
    if "slot_at w' CredDir (fileNameFor i) = Some m" "written m c SensitiveFile" for m c
    using that by (simp add: healthy_credential_def written_def)
  have "validateFields user domain password = Inr ()" if "r = Inr ()"
    using assms(1) that write_credential_cases [of i user domain password w] by auto
  then show ?thesis using e healthy credential_lines(1) unfolding written_def by fastforce
qed

text \<open>The fields the check accepts always fit into a credential file: the second size check of
  \<open>write\<close> never refuses them.\<close>
theorem validated_credential_fits:
  assumes "validateFields user domain password = Inr ()"
  shows "length (credential_content user domain password) \<le> MaxCredentialFileBytes"
  by (rule credential_lines(2) [OF assms])

text \<open>C20. The inventory changes nothing but the private directory it may have to create, lists exactly the
  owned, untampered shares with credentials, in order, and calls a credential healthy only when the
  file is there, belongs to root and has mode 0600.\<close>
theorem inventory_sound:
  assumes "buildFor u w = (recs, w')" and "host_ok w"
  shows "touches 0 {} w w' \<and> services w' = services w \<and>
    map rec_id recs = map own_id (filter (\<lambda>v. own_id v \<noteq> [] \<and> own_state v \<noteq> DefTampered \<and>
      own_authentication v = Credentials) (fst (enumerateOwnedUnits u w))) \<and>
    (\<forall>r \<in> set recs. credentialHealthy r \<longrightarrow> healthy_credential w' (rec_id r))"
proof -
  obtain us w1 where 1: "enumerateOwnedUnits u w = (us, w1)" by fastforce
  have t: "touches 0 {} w w1" "services w1 = services w"
    using reads_touches [OF assms(2) enumerate_reads(1) [OF 1]] reads_fields(8) [OF enumerate_reads(1) [OF 1]] by simp_all
  have "inventory_records us w1 = (recs, w')" using assms(1) by (simp add: buildFor_def 1)
  from inventory_records_sound [OF this touches_host [OF t(1)]] show ?thesis
    using touches_trans [OF t(1), of 0 "{}" w'] t(2) by (simp add: 1)
qed


section \<open>The lock\<close>

lemma openat_create_result:
  assumes h: "host_ok w" and p: "\<not> system_place p" "dir_of w p = Some d" and x: "\<not> is_temp_name x"
    and r: "openat_create d x mode w = (r, w')"
  shows "services w' = services w \<and>
    (case r of Inl _ \<Rightarrow> touches 0 {(p, x)} w w' | Inr fd \<Rightarrow> touches 1 {(p, x)} w w')"
  using r unfolding openat_create_def
proof (cases rule: attempt_cases)
  case (fails e)
  then show ?thesis using touches_mono [OF reads_touches [OF h fails(2)] empty_subsetI] by (auto simp: reads_fields)
next
  case (works w1)
  have t1: "touches 0 {} w w1" "services w1 = services w"
    using reads_touches [OF h works(1)] reads_fields(8) [OF works(1)] by simp_all
  note h1 = touches_host [OF t1(1)]
  have d1: "dir_of w1 p = Some d" using same_dirs(1) [of w1 w p] reads_fields(1,2) [OF works(1)] p(2) by simp
  have join: "touches k {(p, x)} w v" if "touches k {(p, x)} w1 v" for k v
    using touches_trans [OF t1(1) that] by simp
  have open_one: "touches 1 {(p, x)} w (w1\<lparr>open_fds := open_fds w1 + 1\<rparr>)"
    using join touches_mono [OF reads_touches [OF h1 reads_opened] empty_subsetI] by blast
  show ?thesis
  proof (cases "entry w1 d x")
    case (Some i)
    then show ?thesis using works(2) t1(2) open_one touches_mono [OF t1(1) empty_subsetI]
      by (auto simp: opened_def split: option.splits file_kind.splits)
  next
    case None
    obtain r2 w2 where 2: "create_in d x RegularFile mode (Ev_Create d x) w1 = (r2, w2)" by fastforce
    note c = create_in_result [OF 2]
    show ?thesis
    proof (cases r2)
      case (Inl e)
      then show ?thesis using works(2) None 2 c t1 touches_mono [OF t1(1) empty_subsetI] by auto
    next
      case (Inr i)
      then obtain n where n: "inodes w1 d = Some n" "map_of (ients n) x = None" "i = next_ino w1"
          "inodes w2 = (inodes w1)(d \<mapsto> add_entry x i n, i \<mapsto> new_inode RegularFile (masked mode w1) n)"
          "absolute w2 = absolute w1" "next_ino w2 = next_ino w1 + 1" "open_fds w2 = open_fds w1" "services w2 = services w1"
        using c by auto
      have free: "inodes w1 i = None" using host_fresh [OF h1] n(3) by (simp add: fresh_inodes_def)
      then have di: "d \<noteq> i" using n(1) by auto
      have "fresh_inodes w2" using host_fresh [OF h1] n(1,3,4,6) di by (auto simp: fresh_inodes_def)
      then have "dir_edit d ({x} \<union> {y. is_temp_name y}) w1 w2"
        using n free di unfolding dir_edit_def by auto
      then have "touches 0 {(p, x)} w1 w2" using dir_edit_touches [OF h1 p(1) d1] n(7) by blast
      then have t2: "touches 0 {(p, x)} w w2" using join by blast
      have "touches 1 {(p, x)} w (w2\<lparr>open_fds := open_fds w2 + 1\<rparr>)"
        using touches_trans [OF t2 reads_touches [OF touches_host [OF t2] reads_opened]] by simp
      then show ?thesis using works(2) None 2 Inr n(8) t1(2) by (auto simp: opened_def)
    qed
  qed
qed

lemma acquire_effect:
  assumes h: "host_ok w" and r: "acquire w = (r, w')"
  shows "services w' = services w \<and>
    (case r of Inl _ \<Rightarrow> touches 0 {(LockDir, ''helper.lock'')} w w' | Inr fd \<Rightarrow> touches 1 {(LockDir, ''helper.lock'')} w w')"
proof -
  let ?S = "{(LockDir, ''helper.lock'')}"
  obtain r1 w1 where 1: "open_private_dir ''/run'' ''nasmount'' DirectoryKind w = (r1, w1)" by fastforce
  note o = open_private_dir_result [OF h lock_path 1]
  show ?thesis
  proof (cases r1)
    case (Inl e)
    then have "touches 0 {} w w1" "w' = w1" "\<exists>e. r = Inl e" "services w1 = services w"
      using o r by (auto simp: acquire_def 1)
    then show ?thesis using touches_mono [OF _ empty_subsetI] by auto
  next
    case (Inr d)
    have t1: "touches 1 {} w w1" "dir_of w1 LockDir = Some d" "services w1 = services w" using o Inr by simp_all
    obtain r2 w2 where 2: "openat_create d ''helper.lock'' 384 w1 = (r2, w2)" by fastforce
    have "\<not> is_temp_name ''helper.lock''" by (simp add: is_temp_name_def temp_prefix_def)
    note c = openat_create_result [OF touches_host [OF t1(1)] _ t1(2) this 2]
    have cl: "touches (k - 1) ?S w (close_fd v)" if "touches k ?S w v" for k v
      using touches_trans [OF that touches_close [OF touches_host [OF that]]] by simp
    have add: "touches k ?S w v'" if "touches k ?S w v" "reads 0 v v'" for k v v'
      using touches_trans [OF that(1) reads_touches [OF touches_host [OF that(1)] that(2)]] by simp
    show ?thesis
    proof (cases r2)
      case (Inl e)
      then have "touches 1 ?S w w2" using c touches_trans [OF t1(1)] by fastforce
      then show ?thesis using cl [of 1 w2] Inl \<open>r1 = Inr d\<close> r c t1(3) by (auto simp: acquire_def 1 2)
    next
      case (Inr fd)
      then have "touches 2 ?S w w2" using c touches_trans [OF t1(1)] by fastforce
      then have t2: "touches 1 ?S w (close_fd w2)" using cl by fastforce
      obtain r3 w3 where 3: "verifyDescriptor fd Regular 0 384 (close_fd w2) = (r3, w3)" by fastforce
      have rd3: "reads 0 (close_fd w2) w3" using verifyDescriptor_result [OF 3] by simp
      obtain r4 w4 where 4: "flock_ex fd w3 = (r4, w4)" by fastforce
      have rd4: "reads 0 w3 w4" using 4 by (auto simp: flock_ex_def elim!: attempt_cases)
      have t3: "touches 1 ?S w w3" "touches 1 ?S w w4" using add [OF t2 rd3] add [OF add [OF t2 rd3] rd4] by simp_all
      have s: "services w3 = services w" "services w4 = services w"
        using c t1(3) Inr reads_fields(8) [OF rd3] reads_fields(8) [OF rd4] by simp_all
      show ?thesis using r Inr \<open>r1 = Inr d\<close> t3 s cl [OF t3(1)] cl [OF t3(2)]
        by (cases r3; cases r4) (auto simp: acquire_def 1 2 3 4)
    qed
  qed
qed

section \<open>The theorems on concrete inputs\<close>

abbreviation lock_slot :: "place \<times> qstring" where
  "lock_slot \<equiv> (LockDir, ''helper.lock'')"

lemma locked_touches:
  assumes "touches 1 {lock_slot} w w1" "touches 0 S w1 w2"
  shows "touches 0 (insert lock_slot S) w (close_fd w2)"
proof -
  have "touches 1 (insert lock_slot S) w w2" using touches_trans [OF assms] by simp
  from touches_trans [OF this touches_close [OF touches_host [OF this]]] show ?thesis by simp
qed

text \<open>A host with two unit files, a credential, its record and the home directory of the user.\<close>

definition golden_cred :: qstring where
  "golden_cred = ''00112233445566778899aabbccddeeff.cred''"

definition host_world :: "qstring \<Rightarrow> qstring \<Rightarrow> outcome list \<Rightarrow> 's \<Rightarrow> 's world" where
  "host_world mc ac faults s = \<lparr>inodes = [1 \<mapsto> dir_inode 0 [(''nasmount'', 4)], 2 \<mapsto> dir_inode 0 [(''nasmount-ids'', 5)],
       3 \<mapsto> dir_inode 0 [(''a.mount'', 6), (''a.automount'', 7)],
       4 \<mapsto> (dir_inode 0 [(golden_cred, 8)])\<lparr>imode := 448\<rparr>, 5 \<mapsto> dir_inode 0 [(''a'', 9)],
       6 \<mapsto> file_inode 420 mc, 7 \<mapsto> file_inode 420 ac,
       8 \<mapsto> file_inode 384 ''secret'', 9 \<mapsto> file_inode 420 ''77'', 10 \<mapsto> dir_inode 1000 []],
     absolute = [''/etc'' \<mapsto> 1, ''/run'' \<mapsto> 2, ''/etc/systemd/system'' \<mapsto> 3, ''/home/u'' \<mapsto> 10],
     next_ino = 11, umask = 18, sched = faults, rng = (\<lambda>_. 0), rng_pos = 0,
     open_fds = 0, events = [], services = s\<rparr>"

lemma host_world_dirs:
  "dir_of (host_world mc ac fs s) EtcDir = Some 1" "dir_of (host_world mc ac fs s) RunDir = Some 2"
  "dir_of (host_world mc ac fs s) UnitsDir = Some 3" "dir_of (host_world mc ac fs s) CredDir = Some 4"
  "dir_of (host_world mc ac fs s) IdDir = Some 5" "dir_of (host_world mc ac fs s) LockDir = None"
  by (simp_all add: host_world_def child_def entry_def dir_inode_def units_dir_def)

lemma host_world_dir_of: "dir_of (host_world mc ac fs s) p = Some d \<longleftrightarrow>
   (p, d) \<in> {(EtcDir, 1), (RunDir, 2), (UnitsDir, 3), (CredDir, 4), (IdDir, 5)}"
  by (cases p) (auto simp: host_world_dirs simp del: dir_of.simps)

lemma host_world_entries:
  assumes "entry (host_world mc ac fs s) d x = Some j"
  shows "j \<noteq> d" "inodes (host_world mc ac fs s) j \<noteq> None" "d \<in> {3, 4, 5} \<Longrightarrow> 5 < j"
proof -
  have "(d, j) \<in> {(1, 4), (2, 5), (3, 6), (3, 7), (4, 8), (5, 9)}"
    using assms by (auto simp: entry_def host_world_def dir_inode_def file_inode_def split: if_splits)
  then show "j \<noteq> d" "inodes (host_world mc ac fs s) j \<noteq> None" "d \<in> {3, 4, 5} \<Longrightarrow> 5 < j"
    by (auto simp: host_world_def)
qed

lemma host_world_ok: "host_ok (host_world mc ac fs s)"
  unfolding host_ok_def host_world_dir_of
proof (intro conjI allI impI)
  show "fresh_inodes (host_world mc ac fs s)" by (simp add: fresh_inodes_def host_world_def)
  show "absolute (host_world mc ac fs s) ''/run/nasmount-ids'' = None" by (simp add: host_world_def)
  fix path i assume "absolute (host_world mc ac fs s) path = Some i"
  then show "inodes (host_world mc ac fs s) i \<noteq> None" by (auto simp: host_world_def split: if_splits)
next
  fix p d assume d: "(p, d) \<in> {(EtcDir, 1), (RunDir, 2), (UnitsDir, 3), (CredDir, 4), (IdDir, 5 :: nat)}"
  then have "d \<in> {1, 2, 3, 4, 5}" by auto
  then have "\<exists>n. inodes (host_world mc ac fs s) d = Some n" by (auto simp: host_world_def)
  then show "dir_ok (host_world mc ac fs s) d"
    using host_world_entries [of mc ac fs s d] unfolding dir_ok_def entry_def by fastforce
  fix n assume "inodes (host_world mc ac fs s) d = Some n"
  then show "iuid n = 0" using \<open>d \<in> {1, 2, 3, 4, 5}\<close> by (auto simp: host_world_def dir_inode_def)
next
  fix p d x j q
  assume "\<not> system_place p" "(p, d) \<in> {(EtcDir, 1), (RunDir, 2), (UnitsDir, 3), (CredDir, 4), (IdDir, 5)}"
    "entry (host_world mc ac fs s) d x = Some j"
  then have "5 < j" using host_world_entries(3) [of mc ac fs s d x j] by auto
  then show "(q, j) \<notin> {(EtcDir, 1), (RunDir, 2), (UnitsDir, 3), (CredDir, 4), (IdDir, 5)}" by auto
qed auto


text \<open>The record of unit \<open>a\<close> is replaced and that of \<open>b\<close> removed.\<close>
theorem automount_records_witness:
  "readRecordedAutomountId ''a'' (snd (run_script put_id del_id [Put ''a'' 99, Del ''b''] (host_world '''' '''' [Works] ()))) =
     (99, snd (run_script put_id del_id [Put ''a'' 99, Del ''b''] (host_world '''' '''' [Works] ())))"
proof -
  let ?r = "run_script put_id del_id [Put ''a'' (99 :: 64 word), Del ''b''] (host_world '''' '''' [Works] ())"
  have f: "fst ?r" "sched (snd ?r) = []" by code_simp+
  have n: "\<forall>x \<in> set [Put ''a'' (99 :: 64 word), Del ''b'']. \<not> is_temp_name (op_key x)" "\<not> is_temp_name ''a''" "CHR ''/'' \<notin> set ''a''"
    by (simp_all add: is_temp_name_def temp_prefix_def)
  have v: "script_value [Put ''a'' (99 :: 64 word), Del ''b''] ''a'' (id_record (host_world '''' '''' [Works] ()) ''a'') = Some 99"
    by (simp add: script_value_def)
  show ?thesis
    using automount_records [OF prod.collapse [symmetric, of ?r] host_world_ok n] f v by blast
qed

text \<open>The credential of the golden share is replaced, with a first write that is short.\<close>
theorem write_credential_exact_witness:
  "\<exists>n. slot_at (snd (write_credential (marker_id golden_marker) ''u'' ''''  ''p'' (host_world '''' '''' [] ()))) CredDir golden_cred = Some n \<and>
     split_on CHR 0x0A (idata n) = [''username=u'', ''password=p'', []]"
proof -
  let ?r = "write_credential (marker_id golden_marker) ''u'' '''' ''p'' (host_world '''' '''' [] ())"
  have f: "fst ?r = Inr ()" by code_simp
  have n: "fileNameFor (marker_id golden_marker) = golden_cred"
    by (simp add: fileNameFor_def golden_cred_def golden_marker_def)
  show ?thesis
    using write_credential_exact [OF prod.collapse [symmetric, of ?r] host_world_ok] f unfolding n by auto
qed

text \<open>Fields of a plain account.\<close>
theorem validated_credential_fits_witness:
  "length (credential_content ''u'' ''d'' ''p'') \<le> MaxCredentialFileBytes"
proof -
  have "validateFields ''u'' ''d'' ''p'' = Inr ()" by code_simp
  then show ?thesis by (rule validated_credential_fits)
qed

text \<open>An inventory of that host.\<close>
theorem inventory_sound_witness:
  "touches 0 {} (host_world [] [] [] ()) (snd (buildFor 1000 (host_world [] [] [] ()))) \<and>
   map rec_id (fst (buildFor 1000 (host_world [] [] [] ()))) = []"
proof -
  let ?w = "host_world [] [] [] ()"
  have "fst (enumerateOwnedUnits 1000 ?w) = []" by code_simp
  then show ?thesis
    using inventory_sound [OF prod.collapse [symmetric, of "buildFor 1000 ?w"] host_world_ok] by simp
qed

end
