(* ===== verification/Arming.thy ===== *)
theory Arming
  imports RootStores
begin

text \<open>
  Model of \<open>src/root/arming.cpp\<close>: the decisions on a runtime snapshot, the checked stop of a share
  and the arming of one share with its compensation.  Error strings are constructors; the suffix
  \<open>compensation failed\<close> of a message is the second component of an \<open>arm_message\<close>.
\<close>

section \<open>Stopping\<close>

datatype StopResult = Stopped | AlreadyInactive | Busy | CorrelationMismatch | StopIndeterminate
datatype StopPrecheck = ShouldStop | PreAlreadyInactive | PreCorrelationMismatch | PreIndeterminate

datatype stop_error =
  StopRuntimeUnknown | StopMountMismatch | StopAutomountNotRecorded | StopCommand command_error

definition evaluateStopPrecheck :: "runtime_snapshot \<Rightarrow> StopPrecheck \<times> stop_error option" where
  "evaluateStopPrecheck snap =
     (if snap_mount snap = MountIndeterminate \<or> snap_automount snap = AutoIndeterminate
      then (PreIndeterminate, Some StopRuntimeUnknown)
      else if snap_mount snap = MountPresent then
        if snap_verification snap \<noteq> VerMatch then (PreCorrelationMismatch, Some StopMountMismatch)
        else (ShouldStop, None)
      else if snap_automount snap = AutoActive then
        if snap_trust snap \<noteq> Trusted then (PreCorrelationMismatch, Some StopAutomountNotRecorded)
        else (ShouldStop, None)
      else (PreAlreadyInactive, None))"

definition safeStop ::
    "'s platform \<Rightarrow> qstring \<Rightarrow> qstring \<Rightarrow> qstring \<Rightarrow> 's world \<Rightarrow> (StopResult \<times> stop_error option) \<times> 's world" where
  "safeStop P name mountPoint expectedWhat w =
     (case inspectRuntime P name mountPoint expectedWhat w of
        (snap, w1) \<Rightarrow>
     (case evaluateStopPrecheck snap of
        (PreIndeterminate, e) \<Rightarrow> ((StopIndeterminate, e), w1)
      | (PreCorrelationMismatch, e) \<Rightarrow> ((CorrelationMismatch, e), w1)
      | (PreAlreadyInactive, e) \<Rightarrow> ((AlreadyInactive, e), w1)
      | (ShouldStop, e) \<Rightarrow>
     (case stop_unit P (name @ ''.mount'') w1 of
        (r1, w2) \<Rightarrow>
     (case stop_unit P (name @ ''.automount'') w2 of
        (r2, w3) \<Rightarrow>
          (case (r1, r2) of
             (Inl e1, _) \<Rightarrow> ((Busy, Some (StopCommand e1)), w3)
           | (Inr _, Inl e2) \<Rightarrow> ((Busy, Some (StopCommand e2)), w3)
           | (Inr _, Inr _) \<Rightarrow> ((Stopped, None), w3))))))"

section \<open>Arming\<close>

datatype PathPolicy = InteractiveCreate | BootNoCreate
datatype ArmPrecheck = ReadyToArm | PreAlreadyArmed | Blocked
datatype ArmShareOutcome = Armed | AlreadyArmed | NeedsAttention

datatype arm_error =
  ArmRuntimeUnknown | ArmLiveMount | ArmUntrusted
| ArmCredential store_error | ArmGuestArtifact
| ArmWalk walk_error | ArmStart command_error
| ArmNoInstanceId | ArmRecord durable_error

datatype comp_error =
  CompNotIdentified | CompInstanceChanged | CompStop command_error | CompRecordCleanup durable_error

type_synonym arm_message = "arm_error \<times> comp_error option"

definition evaluateArmPrecheck :: "runtime_snapshot \<Rightarrow> ArmPrecheck \<times> arm_error option" where
  "evaluateArmPrecheck snap =
     (if snap_mount snap = MountIndeterminate \<or> snap_automount snap = AutoIndeterminate
      then (Blocked, Some ArmRuntimeUnknown)
      else if snap_mount snap = MountPresent then (Blocked, Some ArmLiveMount)
      else if snap_automount snap = AutoActive then
        if snap_trust snap = Trusted then (PreAlreadyArmed, None) else (Blocked, Some ArmUntrusted)
      else (ReadyToArm, None))"

record arm_request =
  req_ownerUid :: uid
  req_ownerGid :: gid
  req_shareId :: qstring
  req_authentication :: AuthenticationKind
  req_plan :: mountpoint_plan
  req_unitName :: qstring
  req_what :: qstring
  req_pathPolicy :: PathPolicy

record arm_result =
  arm_outcome :: ArmShareOutcome
  arm_message :: "arm_message option"
  definitionCleanupSafe :: bool

text \<open>Whether the trigger was stopped, and the error string it may set in either case.\<close>

definition stopStartedAutomount ::
    "'s platform \<Rightarrow> qstring \<Rightarrow> qstring \<Rightarrow> qstring \<Rightarrow> 64 word \<Rightarrow> 's world \<Rightarrow>
     (bool \<times> comp_error option) \<times> 's world" where
  "stopStartedAutomount P automountUnit name mountPoint startedId w =
     (if startedId = 0 then ((False, Some CompNotIdentified), w)
      else let currentId = uniqueMountId P w mountPoint in
      if currentId = 0 \<or> currentId \<noteq> startedId then ((False, Some CompInstanceChanged), w)
      else (case stop_unit P automountUnit w of
        (Inl e, w1) \<Rightarrow> ((False, Some (CompStop e)), w1)
      | (Inr _, w1) \<Rightarrow>
     (case removeAutomountId name w1 of
        (Inl e, w2) \<Rightarrow> ((True, Some (CompRecordCleanup e)), w2)
      | (Inr _, w2) \<Rightarrow> ((True, None), w2))))"

text \<open>The closure \<open>fail\<close>: \<open>started\<close> is None unless \<open>startedByUs\<close>, \<open>safe\<close> is the flag set so far.\<close>

definition arm_fail ::
    "'s platform \<Rightarrow> arm_request \<Rightarrow> 64 word option \<Rightarrow> bool \<Rightarrow> arm_error \<Rightarrow> 's world \<Rightarrow> arm_result \<times> 's world" where
  "arm_fail P req started safe message w =
     (case started of
        None \<Rightarrow> (\<lparr>arm_outcome = NeedsAttention, arm_message = Some (message, None), definitionCleanupSafe = safe\<rparr>, w)
      | Some startedId \<Rightarrow>
     (case stopStartedAutomount P (req_unitName req @ ''.automount'') (req_unitName req)
             (plan_path (req_plan req)) startedId w of
        ((stopped, e), w1) \<Rightarrow>
          (\<lparr>arm_outcome = NeedsAttention, arm_message = Some (message, e),
            definitionCleanupSafe = (safe \<and> stopped)\<rparr>, w1)))"

text \<open>Credential health: an error of the check, or the absence of what must be absent.\<close>

definition check_credential :: "arm_request \<Rightarrow> 's world \<Rightarrow> (arm_error + unit) \<times> 's world" where
  "check_credential req w =
     (if req_authentication req = Credentials then
        (case credential_healthy (req_shareId req) w of
           (Inl e, w1) \<Rightarrow> (Inl (ArmCredential e), w1)
         | (Inr _, w1) \<Rightarrow> (Inr (), w1))
      else
        (case assertAbsent (req_shareId req) w of
           (Inl None, w1) \<Rightarrow> (Inl ArmGuestArtifact, w1)
         | (Inl (Some e), w1) \<Rightarrow> (Inl (ArmCredential e), w1)
         | (Inr _, w1) \<Rightarrow> (Inr (), w1)))"

definition arm_walk :: "arm_request \<Rightarrow> 's world \<Rightarrow> (walk_error + nat) \<times> 's world" where
  "arm_walk req w =
     (if req_pathPolicy req = InteractiveCreate
      then openMountpointNoFollow (req_plan req) (req_ownerUid req) (req_ownerGid req) w
      else openMountpointNoCreate (req_plan req) (req_ownerUid req) (req_ownerGid req) w)"

text \<open>A failed start: what a second look at the runtime allows.\<close>

definition start_failed ::
    "'s platform \<Rightarrow> arm_request \<Rightarrow> command_error \<Rightarrow> 's world \<Rightarrow> arm_result \<times> 's world" where
  "start_failed P req e w =
     (case inspectRuntime P (req_unitName req) (plan_path (req_plan req)) (req_what req) w of
        (after, w1) \<Rightarrow>
          if snap_automount after = AutoActive \<and> snap_mount after = MountAbsent
          then arm_fail P req (Some (uniqueMountId P w1 (plan_path (req_plan req)))) True (ArmStart e) w1
          else if snap_automount after \<noteq> AutoInactive \<or> snap_mount after \<noteq> MountAbsent
          then arm_fail P req None False (ArmStart e) w1
          else arm_fail P req None True (ArmStart e) w1)"

text \<open>The automount was started: record the instance.\<close>

definition record_instance :: "'s platform \<Rightarrow> arm_request \<Rightarrow> 's world \<Rightarrow> arm_result \<times> 's world" where
  "record_instance P req w =
     (let i = uniqueMountId P w (plan_path (req_plan req)) in
      if i = 0 then arm_fail P req (Some i) True ArmNoInstanceId w
      else (case writeAutomountId (req_unitName req) i w of
        (Inl e, w1) \<Rightarrow> arm_fail P req (Some i) True (ArmRecord e) w1
      | (Inr _, w1) \<Rightarrow>
          (\<lparr>arm_outcome = Armed, arm_message = None, definitionCleanupSafe = True\<rparr>, w1)))"

definition armShare :: "'s platform \<Rightarrow> arm_request \<Rightarrow> 's world \<Rightarrow> arm_result \<times> 's world" where
  "armShare P req w =
     (case inspectRuntime P (req_unitName req) (plan_path (req_plan req)) (req_what req) w of
        (snapshot, w1) \<Rightarrow>
     (case evaluateArmPrecheck snapshot of
        (Blocked, e) \<Rightarrow> arm_fail P req None True (the e) w1
      | (PreAlreadyArmed, e) \<Rightarrow>
          (\<lparr>arm_outcome = AlreadyArmed, arm_message = None, definitionCleanupSafe = True\<rparr>, w1)
      | (ReadyToArm, e) \<Rightarrow>
     (case check_credential req w1 of
        (Inl e, w2) \<Rightarrow> arm_fail P req None True e w2
      | (Inr _, w2) \<Rightarrow>
     (case arm_walk req w2 of
        (Inl e, w3) \<Rightarrow> arm_fail P req None True (ArmWalk e) w3
      | (Inr fd, w3) \<Rightarrow>
     (case start_unit P (req_unitName req @ ''.automount'') (close_fd w3) of
        (Inl e, w4) \<Rightarrow> start_failed P req e w4
      | (Inr _, w4) \<Rightarrow> record_instance P req w4)))))"

section \<open>Stopping only what is proved to be ours\<close>

lemma stop_unit_result:
  assumes "stop_unit P name w = (r, w')"
  shows "inodes w' = inodes w" "absolute w' = absolute w" "next_ino w' = next_ino w" "open_fds w' = open_fds w"
    "events w' = events w @ [Ev_Command [''systemctl'', ''stop'', name]]"
    "r = Inr () \<Longrightarrow> \<exists>out. run_command P [''systemctl'', ''stop'', name] (services w) = ((0, out), services w')"
  using assms by (auto simp: stop_unit_def run_def split: prod.splits if_splits)

text \<open>C21. \<open>safeStop\<close> stops a share only when it is proved to be the one this tool runs: before the two
  stop commands are given, either the mount table shows a CIFS mount of the expected share at the
  mount point, or systemd has the automount active and the kernel's id of the mount is the recorded
  one.  In every other case nothing at all changes; and a share reported as stopped had both
  commands succeed.  No file is touched.\<close>
theorem safeStop_gated:
  assumes "safeStop P name mp what w = ((r, e), w')"
  shows "if r \<in> {Stopped, Busy} then
      events w' = events w @ [Ev_Command [''systemctl'', ''stop'', name @ ''.mount''],
        Ev_Command [''systemctl'', ''stop'', name @ ''.automount'']] \<and> inodes w' = inodes w \<and>
      ((\<exists>rows. mountinfo P (services w) = Some rows \<and>
          (\<exists>m \<in> set (parseMountinfo rows). entry_mountPoint m = cleanPath mp \<and>
             filesystemType m = ''cifs'' \<and> mountSource m = what)) \<or>
       systemctlShow P w (name @ ''.automount'') ''ActiveState'' = Some ''active'' \<and>
       fst (readRecordedAutomountId name w) \<noteq> 0 \<and>
       uniqueMountId P w mp = fst (readRecordedAutomountId name w)) \<and>
      (r = Stopped \<longleftrightarrow> e = None)
    else reads 0 w w'"
proof -
  obtain snap w1 where 1: "inspectRuntime P name mp what w = (snap, w1)" by fastforce
  note f = inspectRuntime_facts [OF 1]
  have rd: "reads 0 w w1" using f by blast
  show ?thesis
  proof (cases "fst (evaluateStopPrecheck snap)")
    case ShouldStop
    obtain r1 w2 where 2: "stop_unit P (name @ ''.mount'') w1 = (r1, w2)" by fastforce
    obtain r2 w3 where 3: "stop_unit P (name @ ''.automount'') w2 = (r2, w3)" by fastforce
    have res: "w' = w3" "r \<in> {Stopped, Busy}" "r = Stopped \<longleftrightarrow> e = None"
      using assms ShouldStop 1 2 3
      by (auto simp: safeStop_def split: prod.splits StopPrecheck.splits sum.splits)
    have "snap_verification snap = VerMatch \<or> snap_trust snap = Trusted"
      using ShouldStop by (auto simp: evaluateStopPrecheck_def split: if_splits)
    then show ?thesis
      using f res stop_unit_result [OF 2] stop_unit_result [OF 3] reads_fields [OF rd] by auto
  qed (use assms 1 rd in \<open>auto simp: safeStop_def split: prod.splits\<close>)
qed


section \<open>What arming may change\<close>

lemma walked_touches:
  assumes h: "host_ok w" and k: "walked (next_ino w) root u w w'" "fresh_inodes w'"
    and u: "u \<noteq> 0" and root: "apart w root"
  shows "touches (open_fds w' - open_fds w) {} w w' \<and> services w' = services w"
proof -
  have a: "absolute w' = absolute w" "services w' = services w" using k(1) by (simp_all add: walked_def)
  have keep: "\<exists>n'. inodes w' i = Some n' \<and> kept_inode (next_ino w) root u i n n'" if "inodes w i = Some n" for i n
    using k(1) that by (simp add: walked_def)
  have low: "i < next_ino w" if "inodes w i = Some n" for i n
    using host_fresh [OF h] that by (metis fresh_inodes_def linorder_not_le option.distinct(1))
  have same: "inodes w' i = Some n" if n: "inodes w i = Some n" and "iuid n \<noteq> u" "i \<noteq> root" for i n
  proof -
    obtain n' where n': "inodes w' i = Some n'" "kept_inode (next_ino w) root u i n n'" using keep [OF n] by blast
    have "n' = n" using n'(2) low [OF n] that by (auto simp: kept_inode_def)
    then show ?thesis using n'(1) by simp
  qed
  have dir: "inodes w' d = inodes w d" if "dir_of w p = Some d" for p d
  proof -
    obtain n where n: "inodes w d = Some n" "iuid n = 0" using dir_of_exists [OF h \<open>dir_of w p = Some d\<close>] by blast
    moreover have "d \<noteq> root" using root that unfolding apart_def by blast
    ultimately show ?thesis using same u by auto
  qed
  have ent: "entry w' d = entry w d" if "dir_of w p = Some d" for p d
    using dir [OF that] by (intro ext) (simp add: entry_def)
  have D: "dir_of w' p = dir_of w p" for p
    using ent by (intro child_eq [OF a(1)]) (metis dir_of.simps(1,2))
  have there: "inodes w' j \<noteq> None" if "inodes w j \<noteq> None" for j using keep that by fastforce
  have "host_ok w'"
    unfolding host_ok_def D
  proof (intro conjI allI impI)
    show "fresh_inodes w'" by (rule k(2))
    show "absolute w' ''/run/nasmount-ids'' = None" using host_ids_path [OF h] a by simp
    fix path i assume "absolute w' path = Some i"
    then show "inodes w' i \<noteq> None" using h a there unfolding host_ok_def by simp
  next
    fix p d assume p: "dir_of w p = Some d"
    obtain n where n: "inodes w d = Some n" "iuid n = 0" using dir_of_exists [OF h p] by blast
    show "dir_ok w' d" using dir_of_ok [OF h p] dir [OF p] there unfolding dir_ok_def by metis
    fix n' assume "inodes w' d = Some n'"
    then show "iuid n' = 0" using n dir [OF p] by simp
  next
    fix p d x j q assume "\<not> system_place p" "dir_of w p = Some d" "entry w' d x = Some j"
    then show "dir_of w q \<noteq> Some j" using slot_entry_apart [OF h] ent by metis
  qed (use dir_of_apart [OF h] in blast)
  moreover have "\<exists>n'. inodes w' i = Some n' \<and> ikind n' = ikind n" if "inodes w i = Some n" for i n
    using keep [OF that] by (auto simp: kept_inode_def)
  moreover have "apart w' i" if "apart w i" for i
    using that there ent unfolding apart_def D by metis
  moreover have "kept w w' p x" if p: "\<not> system_place p" for p x
  proof (cases "dir_of w p")
    case (Some d)
    show ?thesis
    proof (cases "entry w d x")
      case None
      then show ?thesis using Some ent [OF Some] by (simp add: kept_def slot_at_def file_at_def D)
    next
      case e: (Some j)
      have j: "j \<noteq> root" using root p Some e unfolding apart_def by metis
      obtain n where n: "inodes w j = Some n" using dir_of_ok [OF h Some] e by (fastforce simp: dir_ok_def entry_def)
      obtain n' where n': "inodes w' j = Some n'" "iuid n' = iuid n"
        using keep [OF n] low [OF n] by (auto simp: kept_inode_def)
      have "n' = n" if "iuid n = 0" using same [OF n _ j] that u n'(1) by auto
      then show ?thesis using Some e n n' ent [OF Some] by (simp add: kept_def slot_at_def file_at_def D)
    qed
  qed (simp add: kept_def slot_at_def D)
  ultimately show ?thesis using a unfolding touches_def by simp
qed

lemma touches_follow:
  assumes "host_ok w" "touches k S w w'"
  shows "follow_path w' path = follow_path w path"
proof (cases "absolute w path")
  case None
  then show ?thesis using touches_absolute [OF assms(2)] by (simp add: follow_path_def)
next
  case (Some i)
  obtain n where n: "inodes w i = Some n" using assms(1) Some unfolding host_ok_def by blast
  then obtain n' where "inodes w' i = Some n'" "ikind n' = ikind n" using assms(2) unfolding touches_def by blast
  then show ?thesis using Some n touches_absolute [OF assms(2)] by (simp add: follow_path_def)
qed

text \<open>The allowed root under which a request may create directories is none of the host's own.\<close>

definition root_apart :: "'s world \<Rightarrow> mountpoint_plan \<Rightarrow> bool" where
  "root_apart w plan \<longleftrightarrow> (\<forall>root. follow_path w (plan_root plan) = Some root \<longrightarrow> apart w root)"

lemma touches_root_apart:
  assumes "host_ok w" "touches k S w w'" "root_apart w plan"
  shows "root_apart w' plan"
  unfolding root_apart_def
proof (intro allI impI)
  fix root assume "follow_path w' (plan_root plan) = Some root"
  then have "apart w root" using assms touches_follow [OF assms(1,2)] by (simp add: root_apart_def)
  then show "apart w' root" using assms(2) by (simp add: touches_def)
qed

lemma openMountpointNoFollow_touches:
  assumes h: "host_ok w" and u: "u \<noteq> 0" and a: "root_apart w plan"
    and r: "openMountpointNoFollow plan u g w = (r, w')"
  shows "touches (case r of Inl _ \<Rightarrow> 0 | Inr _ \<Rightarrow> 1) {} w w' \<and> services w' = services w"
proof -
  obtain r1 w1 where 1: "open_abs_dir True (plan_root plan) w = (r1, w1)" by fastforce
  note o = open_abs_dir_result [OF 1]
  show ?thesis
  proof (cases "plan_suffix plan = [] \<or> (\<exists>e. r1 = Inl e)")
    case True
    then have "(\<exists>e. r = Inl e) \<and> reads 0 w w'" using r o by (auto simp: openMountpointNoFollow_def 1 split: if_splits)
    then show ?thesis using reads_touches [OF h] by (auto simp: reads_fields)
  next
    case False
    then obtain root where 2: "r1 = Inr root" "walk_create plan u g (plan_suffix plan) root w1 = (r, w')"
      using r 1 by (cases r1) (auto simp: openMountpointNoFollow_def)
    have o': "reads 1 w w1" "follow_path w (plan_root plan) = Some root" using o 2(1) by auto
    have t1: "touches 1 {} w w1" using reads_touches [OF h o'(1)] .
    note h1 = touches_host [OF t1]
    have ap: "apart w1 root" using a o'(2) t1 unfolding root_apart_def touches_def by blast
    have m: "walked (next_ino w1) root u w1 w'" "fresh_inodes w'"
      "open_fds w' = open_fds w1 + (case r of Inl _ \<Rightarrow> - 1 | Inr _ \<Rightarrow> 0)"
      using walk_create_result [OF 2(2) host_fresh [OF h1], of "next_ino w1" root] by (simp_all add: writable_def)
    have "touches (case r of Inl _ \<Rightarrow> - 1 | Inr _ \<Rightarrow> 0) {} w1 w'" "services w' = services w1"
      using walked_touches [OF h1 m(1,2) u ap] m(3) by simp_all
    then show ?thesis using touches_trans [OF t1] reads_fields(8) [OF o'(1)] by (cases r) fastforce+
  qed
qed

lemma arm_walk_touches:
  assumes h: "host_ok w" and a: "req_pathPolicy req = InteractiveCreate \<Longrightarrow> req_ownerUid req \<noteq> 0 \<and> root_apart w (req_plan req)"
    and r: "arm_walk req w = (r, w')"
  shows "touches (case r of Inl _ \<Rightarrow> 0 | Inr _ \<Rightarrow> 1) {} w w' \<and> services w' = services w"
proof (cases "req_pathPolicy req = InteractiveCreate")
  case True
  then show ?thesis using openMountpointNoFollow_touches [OF h conjunct1 [OF a] conjunct2 [OF a]] r by (simp add: arm_walk_def)
next
  case False
  then have rd: "reads (case r of Inl _ \<Rightarrow> 0 | Inr _ \<Rightarrow> 1) w w'"
    using openMountpointNoCreate_result r by (fastforce simp: arm_walk_def)
  then show ?thesis using reads_touches [OF h rd] by (simp add: reads_fields)
qed

lemma command_touches:
  "host_ok w \<Longrightarrow> stop_unit P name w = (r, w') \<Longrightarrow> touches 0 {} w w'"
  "host_ok w \<Longrightarrow> start_unit P name w = (r, w') \<Longrightarrow> touches 0 {} w w'"
  "host_ok w \<Longrightarrow> daemonReload P w = (r', w') \<Longrightarrow> touches 0 {} w w'"
  by (auto simp: stop_unit_def start_unit_def daemonReload_def dest: run_touches split: prod.splits)


section \<open>What arming guarantees\<close>

text \<open>Nothing is mounted at the mount point and its automount is inactive, for all that systemd and the
  mount table say.\<close>

definition quiet :: "'s platform \<Rightarrow> qstring \<Rightarrow> qstring \<Rightarrow> qstring \<Rightarrow> 's world \<Rightarrow> bool" where
  "quiet P name mp what w \<longleftrightarrow>
     automount_state (systemctlShow P w (name @ ''.automount'') ''ActiveState'') = AutoInactive \<and>
     fst (mount_axes P w name mp what) = MountAbsent"

text \<open>The services are as a successful stop of the unit left them.\<close>

definition stopped_by :: "'s platform \<Rightarrow> qstring \<Rightarrow> 's \<Rightarrow> bool" where
  "stopped_by P unit s' \<longleftrightarrow> (\<exists>s out. run_command P [''systemctl'', ''stop'', unit] s = ((0, out), s'))"

definition credential_ready :: "arm_request \<Rightarrow> 's world \<Rightarrow> bool" where
  "credential_ready req w \<longleftrightarrow>
     (if req_authentication req = Credentials then healthy_credential w (req_shareId req)
      else slot_at w CredDir (fileNameFor (req_shareId req)) = None)"

lemma inspectRuntime_axes:
  assumes "inspectRuntime P name mp what w = (snap, w')"
  shows "snap_automount snap = automount_state (systemctlShow P w (name @ ''.automount'') ''ActiveState'')"
    "snap_mount snap = fst (mount_axes P w name mp what)"
    "snap_automount snap = AutoInactive \<Longrightarrow> snap_mount snap = MountAbsent \<Longrightarrow> quiet P name mp what w"
  using assms by (auto simp: inspectRuntime_def quiet_def Let_def split: prod.splits)

lemma services_reads:
  assumes "services w' = services w"
  shows "systemctlShow P w' = systemctlShow P w" "mount_axes P w' = mount_axes P w"
    "uniqueMountId P w' = uniqueMountId P w" "quiet P name mp what w' = quiet P name mp what w"
proof -
  show s: "systemctlShow P w' = systemctlShow P w" by (intro ext) (simp add: systemctlShow_def assms)
  show m: "mount_axes P w' = mount_axes P w" by (intro ext) (simp add: mount_axes_def assms s cong: option.case_cong)
  show "uniqueMountId P w' = uniqueMountId P w" by (intro ext) (simp add: uniqueMountId_def assms)
  show "quiet P name mp what w' = quiet P name mp what w" by (simp add: quiet_def s m)
qed

lemma stopStartedAutomount_effect:
  assumes h: "host_ok w" and x: "\<not> is_temp_name name"
    and r: "stopStartedAutomount P au name mp i w = ((b, e), w')"
  shows "touches 0 {(IdDir, name)} w w' \<and> (b \<longrightarrow> stopped_by P au (services w'))"
proof (cases "i = 0 \<or> uniqueMountId P w mp = 0 \<or> uniqueMountId P w mp \<noteq> i")
  case True
  then show ?thesis using r touches_mono [OF touches_refl [OF h] empty_subsetI]
    by (auto simp: stopStartedAutomount_def Let_def split: if_splits)
next
  case False
  obtain r1 w1 where 1: "stop_unit P au w = (r1, w1)" by fastforce
  have t1: "touches 0 {} w w1" using command_touches(1) [OF h 1] .
  note h1 = touches_host [OF t1]
  show ?thesis
  proof (cases r1)
    case (Inl e)
    then show ?thesis using False r touches_mono [OF t1 empty_subsetI]
      by (auto simp: stopStartedAutomount_def 1)
  next
    case (Inr z)
    obtain r2 w2 where 2: "removeAutomountId name w1 = (r2, w2)" by fastforce
    note e2 = removeAutomountId_effect [OF h1 2 x]
    have "w' = w2" using False r Inr by (auto simp: stopStartedAutomount_def 1 2 split: sum.splits)
    moreover have "touches 0 {(IdDir, name)} w w2" using touches_trans [OF t1] e2 by fastforce
    moreover have "stopped_by P au (services w1)" using stop_unit_result(6) [OF 1] Inr by (auto simp: stopped_by_def)
    ultimately show ?thesis using e2 by simp
  qed
qed

lemma arm_fail_effect:
  assumes h: "host_ok w" and x: "\<not> is_temp_name (req_unitName req)"
    and r: "arm_fail P req started safe msg w = (res, w')"
  shows "arm_outcome res = NeedsAttention \<and> touches 0 {(IdDir, req_unitName req)} w w' \<and>
    (if started = None then w' = w \<and> definitionCleanupSafe res = safe
     else definitionCleanupSafe res \<longrightarrow> stopped_by P (req_unitName req @ ''.automount'') (services w'))"
proof (cases started)
  case None
  then show ?thesis using r touches_mono [OF touches_refl [OF h] empty_subsetI] by (auto simp: arm_fail_def)
next
  case (Some i)
  obtain b e w1 where 1: "stopStartedAutomount P (req_unitName req @ ''.automount'') (req_unitName req)
      (plan_path (req_plan req)) i w = ((b, e), w1)" by (metis prod.collapse)
  show ?thesis using stopStartedAutomount_effect [OF h x 1] r Some by (auto simp: arm_fail_def 1)
qed

lemma credential_ready_kept:
  assumes "isValidShareId (req_shareId req)" "touches k S w w'" "(CredDir, fileNameFor (req_shareId req)) \<notin> S"
    "credential_ready req w"
  shows "credential_ready req w'"
proof -
  have "kept w w' CredDir (fileNameFor (req_shareId req))"
    using touches_kept [OF assms(2) _ assms(3) valid_id_not_temp [OF assms(1)]] by simp
  then show ?thesis using assms(4) healthy_credential_kept [of w w']
    by (auto simp: credential_ready_def kept_def split: if_splits option.splits)
qed

lemma check_credential_effect:
  assumes h: "host_ok w" and r: "check_credential req w = (r, w')"
  shows "touches 0 {} w w' \<and> services w' = services w \<and>
    (r = Inr () \<longrightarrow> isValidShareId (req_shareId req) \<and> credential_ready req w')"
proof (cases "req_authentication req = Credentials")
  case True
  obtain r1 w1 where 1: "credential_healthy (req_shareId req) w = (r1, w1)" by fastforce
  have "isValidShareId (req_shareId req)" if "r1 = Inr ()"
    using 1 that by (auto simp: credential_healthy_def split: if_splits)
  then show ?thesis using credential_healthy_effect [OF h 1] credential_healthy_sound [OF h] 1 r True
    by (auto simp: check_credential_def credential_ready_def split: sum.splits)
next
  case False
  obtain r1 w1 where 1: "assertAbsent (req_shareId req) w = (r1, w1)" by fastforce
  show ?thesis using assertAbsent_effect [OF h 1] r False
    by (auto simp: check_credential_def credential_ready_def 1 split: sum.splits option.splits)
qed

lemma start_unit_services:
  "start_unit P name w = (r, w') \<Longrightarrow> services w' = snd (run_command P [''systemctl'', ''start'', name] (services w))"
  by (auto simp: start_unit_def run_def split: prod.splits if_splits)

lemma start_failed_effect:
  assumes h: "host_ok w" and x: "\<not> is_temp_name (req_unitName req)"
    and r: "start_failed P req e w = (res, w')"
  shows "arm_outcome res = NeedsAttention \<and> touches 0 {(IdDir, req_unitName req)} w w' \<and>
    (definitionCleanupSafe res \<longrightarrow>
       quiet P (req_unitName req) (plan_path (req_plan req)) (req_what req) w' \<or>
       stopped_by P (req_unitName req @ ''.automount'') (services w'))"
proof -
  obtain after w1 where 1: "inspectRuntime P (req_unitName req) (plan_path (req_plan req)) (req_what req) w = (after, w1)"
    by fastforce
  have rd: "reads 0 w w1" using inspectRuntime_facts [OF 1] by blast
  have t1: "touches 0 {} w w1" using reads_touches [OF h rd] .
  note f = arm_fail_effect [OF touches_host [OF t1] x]
  have q: "quiet P (req_unitName req) (plan_path (req_plan req)) (req_what req) w1"
    if "snap_automount after = AutoInactive" "snap_mount after = MountAbsent"
    using inspectRuntime_axes(3) [OF 1 that] services_reads(4) [OF reads_fields(8) [OF rd]] by blast
  consider (active) "arm_fail P req (Some (uniqueMountId P w1 (plan_path (req_plan req)))) True (ArmStart e) w1 = (res, w')"
    | (unknown) "arm_fail P req None False (ArmStart e) w1 = (res, w')"
    | (inactive) "arm_fail P req None True (ArmStart e) w1 = (res, w')" "snap_automount after = AutoInactive"
        "snap_mount after = MountAbsent"
    using r by (auto simp: start_failed_def 1 split: if_splits)
  then show ?thesis
  proof cases
    case active
    then show ?thesis using f [OF active] touches_trans [OF t1, of 0 "{(IdDir, req_unitName req)}" w'] by auto
  next
    case unknown
    then show ?thesis using f [OF unknown] touches_trans [OF t1, of 0 "{(IdDir, req_unitName req)}" w'] by auto
  next
    case inactive
    then show ?thesis using f [OF inactive(1)] touches_trans [OF t1, of 0 "{(IdDir, req_unitName req)}" w'] q by auto
  qed
qed

lemma record_instance_effect:
  assumes h: "host_ok w" and x: "\<not> is_temp_name (req_unitName req)"
    and r: "record_instance P req w = (res, w')"
  shows "touches 0 {(IdDir, req_unitName req)} w w' \<and> arm_outcome res \<in> {Armed, NeedsAttention} \<and>
    (arm_outcome res = Armed \<longrightarrow> services w' = services w \<and> uniqueMountId P w' (plan_path (req_plan req)) \<noteq> 0 \<and>
       id_record w' (req_unitName req) = Some (uniqueMountId P w' (plan_path (req_plan req)))) \<and>
    (arm_outcome res = NeedsAttention \<longrightarrow> definitionCleanupSafe res \<longrightarrow>
       stopped_by P (req_unitName req @ ''.automount'') (services w'))"
proof -
  let ?i = "uniqueMountId P w (plan_path (req_plan req))"
  show ?thesis
  proof (cases "?i = 0")
    case True
    then show ?thesis using arm_fail_effect [OF h x, of P "Some ?i" True ArmNoInstanceId res w'] r
      by (simp add: record_instance_def)
  next
    case False
    obtain r1 w1 where 1: "writeAutomountId (req_unitName req) ?i w = (r1, w1)" by fastforce
    note e1 = writeAutomountId_effect [OF h 1 x]
    have t1: "touches 0 {(IdDir, req_unitName req)} w w1" using e1 by simp
    show ?thesis
    proof (cases r1)
      case (Inl e)
      then have r': "arm_fail P req (Some ?i) True (ArmRecord e) w1 = (res, w')"
        using r False by (simp add: record_instance_def 1)
      show ?thesis using arm_fail_effect [OF touches_host [OF t1] x r']
          touches_trans [OF t1, of 0 "{(IdDir, req_unitName req)}" w'] by simp
    next
      case (Inr z)
      then have res: "w' = w1" "arm_outcome res = Armed" using r False by (auto simp: record_instance_def 1)
      have s: "services w1 = services w" using e1 by simp
      have "id_record w1 (req_unitName req) = Some ?i" using e1 Inr written_id_record by fastforce
      then show ?thesis using res t1 s False services_reads(3) [OF s] by simp
    qed
  qed
qed


lemma armShare_result:
  assumes h: "host_ok w" and a: "req_pathPolicy req = InteractiveCreate \<Longrightarrow> req_ownerUid req \<noteq> 0 \<and> root_apart w (req_plan req)"
    and x: "\<not> is_temp_name (req_unitName req)" and r: "armShare P req w = (res, w')"
  shows "touches 0 {(IdDir, req_unitName req)} w w' \<and>
    (arm_outcome res = Armed \<longrightarrow> quiet P (req_unitName req) (plan_path (req_plan req)) (req_what req) w \<and>
       credential_ready req w' \<and> uniqueMountId P w' (plan_path (req_plan req)) \<noteq> 0 \<and>
       id_record w' (req_unitName req) = Some (uniqueMountId P w' (plan_path (req_plan req)))) \<and>
    (arm_outcome res = AlreadyArmed \<longrightarrow> reads 0 w w') \<and>
    (arm_outcome res = NeedsAttention \<longrightarrow> definitionCleanupSafe res \<longrightarrow>
       services w' = services w \<or> quiet P (req_unitName req) (plan_path (req_plan req)) (req_what req) w' \<or>
       stopped_by P (req_unitName req @ ''.automount'') (services w'))"
proof -
  let ?S = "{(IdDir, req_unitName req)}"
  obtain snap w1 where 1: "inspectRuntime P (req_unitName req) (plan_path (req_plan req)) (req_what req) w = (snap, w1)"
    by fastforce
  have rd1: "reads 0 w w1" using inspectRuntime_facts [OF 1] by blast
  have t1: "touches 0 {} w w1" "services w1 = services w" using reads_touches [OF h rd1] reads_fields(8) [OF rd1] by simp_all
  have add: "touches 0 ?S w v" if "touches 0 {} w v'" "touches 0 ?S v' v" for v v'
    using touches_trans [OF that] by simp
  have failed: "touches 0 ?S w w' \<and> arm_outcome res = NeedsAttention \<and> services w' = services w"
    if "arm_fail P req None True e v = (res, w')" "touches 0 {} w v" "services v = services w" for e v
    using arm_fail_effect [OF touches_host [OF that(2)] x that(1)] add [OF that(2)] that(3) by auto
  show ?thesis
  proof (cases "fst (evaluateArmPrecheck snap)")
    case Blocked
    then have "arm_fail P req None True (the (snd (evaluateArmPrecheck snap))) w1 = (res, w')"
      using r 1 by (cases "evaluateArmPrecheck snap") (simp add: armShare_def)
    then show ?thesis using failed [OF _ t1] by auto
  next
    case PreAlreadyArmed
    then have "arm_outcome res = AlreadyArmed" "w' = w1"
      using r 1 by (cases "evaluateArmPrecheck snap"; auto simp: armShare_def)+
    then show ?thesis using rd1 touches_mono [OF t1(1) empty_subsetI] by simp
  next
    case ReadyToArm
    then have q: "quiet P (req_unitName req) (plan_path (req_plan req)) (req_what req) w"
      using inspectRuntime_axes(3) [OF 1] by (cases "snap_automount snap"; cases "snap_mount snap")
        (auto simp: evaluateArmPrecheck_def split: if_splits)
    obtain r2 w2 where 2: "check_credential req w1 = (r2, w2)" by fastforce
    note c = check_credential_effect [OF touches_host [OF t1(1)] 2]
    have t2: "touches 0 {} w w2" "services w2 = services w" using touches_trans [OF t1(1)] c t1(2) by fastforce+
    note h2 = touches_host [OF t2(1)]
    show ?thesis
    proof (cases r2)
      case (Inl e)
      then have "arm_fail P req None True e w2 = (res, w')"
        using r 1 2 ReadyToArm by (cases "evaluateArmPrecheck snap") (simp add: armShare_def)
      then show ?thesis using failed [OF _ t2] by auto
    next
      case (Inr z2)
      have c': "isValidShareId (req_shareId req)" "credential_ready req w2" using c Inr by simp_all
      obtain r3 w3 where 3: "arm_walk req w2 = (r3, w3)" by fastforce
      note k = arm_walk_touches [OF h2 conjI [OF conjunct1 [OF a] touches_root_apart [OF h t2(1) conjunct2 [OF a]]] 3]
      show ?thesis
      proof (cases r3)
        case (Inl e)
        then have r': "arm_fail P req None True (ArmWalk e) w3 = (res, w')"
          using r 1 2 3 ReadyToArm \<open>r2 = Inr z2\<close> by (cases "evaluateArmPrecheck snap") (simp add: armShare_def)
        have "touches 0 {} w w3" "services w3 = services w" using touches_trans [OF t2(1)] k Inl t2(2) by fastforce+
        then show ?thesis using failed [OF r'] by auto
      next
        case (Inr fd)
        have "touches 1 {} w w3" using touches_trans [OF t2(1)] k Inr by fastforce
        then have t3: "touches 0 {} w (close_fd w3)" using touches_trans [OF _ touches_close] touches_host by fastforce
        obtain r4 w4 where 4: "start_unit P (req_unitName req @ ''.automount'') (close_fd w3) = (r4, w4)" by fastforce
        have t4: "touches 0 {} w w4" using touches_trans [OF t3 command_touches(2) [OF touches_host [OF t3] 4]] by simp
        note h4 = touches_host [OF t4]
        have r': "(case r4 of Inl e \<Rightarrow> start_failed P req e w4 | Inr _ \<Rightarrow> record_instance P req w4) = (res, w')"
          using r 1 2 3 4 ReadyToArm \<open>r2 = Inr z2\<close> Inr by (cases "evaluateArmPrecheck snap"; cases r4) (simp_all add: armShare_def)
        show ?thesis
        proof (cases r4)
          case (Inl e)
          then show ?thesis using start_failed_effect [OF h4 x, of P e res w'] r' add [OF t4] by auto
        next
          case (Inr z4)
          then have r'': "record_instance P req w4 = (res, w')" using r' by simp
          note ri = record_instance_effect [OF h4 x r'']
          have "touches 1 {} w2 w3" using k \<open>r3 = Inr fd\<close> by simp
          then have "touches 0 {} w2 (close_fd w3)" using touches_trans [OF _ touches_close] touches_host by fastforce
          then have "touches 0 {} w2 w4" using touches_trans [OF _ command_touches(2) [OF touches_host [OF t3] 4]] by fastforce
          then have "touches 0 ?S w2 w'" using touches_trans [of 0 "{}" w2 w4 0 ?S w'] ri by simp
          then have "credential_ready req w'" using credential_ready_kept [OF c'(1) _ _ c'(2)] by simp
          then show ?thesis using ri add [OF t4] q by auto
        qed
      qed
    qed
  qed
qed

text \<open>C22. What arming one share leaves behind, on every path and whatever fails.  The only slot it writes
  is the record of this unit, and no descriptor stays open.  If it reports the share as armed, the
  runtime was quiet before, the credential is there (or, for a guest, is not), and the id recorded is
  the id the kernel has for the mount point.  If it reports a no-op, it changed nothing.  If it
  reports a failure after which the caller may clean the definition up, then no service was touched,
  or nothing is mounted and the automount is inactive, or the last thing done to the services was a
  successful stop of this automount.\<close>
theorem armShare_guarantees:
  assumes "armShare P req w = (res, w')" and "host_ok w" and "req_ownerUid req \<noteq> 0"
    and "root_apart w (req_plan req)" and "\<not> is_temp_name (req_unitName req)"
  shows "touches 0 {(IdDir, req_unitName req)} w w' \<and>
    (arm_outcome res = Armed \<longrightarrow> quiet P (req_unitName req) (plan_path (req_plan req)) (req_what req) w \<and>
       credential_ready req w' \<and> uniqueMountId P w' (plan_path (req_plan req)) \<noteq> 0 \<and>
       id_record w' (req_unitName req) = Some (uniqueMountId P w' (plan_path (req_plan req)))) \<and>
    (arm_outcome res = AlreadyArmed \<longrightarrow> reads 0 w w') \<and>
    (arm_outcome res = NeedsAttention \<longrightarrow> definitionCleanupSafe res \<longrightarrow>
       services w' = services w \<or> quiet P (req_unitName req) (plan_path (req_plan req)) (req_what req) w' \<or>
       stopped_by P (req_unitName req @ ''.automount'') (services w'))"
  using armShare_result [OF assms(2) conjI [OF assms(3,4)] assms(5,1)] .

text \<open>Arming is idempotent: after a share was armed, as long as the services stay as they are with
  the automount active and nothing mounted over it, and no call fails, arming it again reports the
  no-op and changes nothing.\<close>
theorem armShare_idempotent:
  assumes "armShare P req w = (res, w')" "arm_outcome res = Armed" and "host_ok w" and "req_ownerUid req \<noteq> 0"
    and "root_apart w (req_plan req)" and "\<not> is_temp_name (req_unitName req)" "CHR ''/'' \<notin> set (req_unitName req)"
    and "sched w' = []"
    and "systemctlShow P w' (req_unitName req @ ''.automount'') ''ActiveState'' = Some ''active''"
    and "fst (mount_axes P w' (req_unitName req) (plan_path (req_plan req)) (req_what req)) = MountAbsent"
  shows "\<exists>res'. armShare P req w' = (res', w') \<and> arm_outcome res' = AlreadyArmed"
proof -
  note g = armShare_result [OF assms(3) conjI [OF assms(4,5)] assms(6,1)]
  let ?i = "uniqueMountId P w' (plan_path (req_plan req))"
  have i: "?i \<noteq> 0" "id_record w' (req_unitName req) = Some ?i" "host_ok w'"
    using g assms(2) touches_host by blast+
  have rec: "readRecordedAutomountId (req_unitName req) w' = (?i, w')"
    using readRecorded_works [OF i(3) assms(7,8) i(2)] .
  have auto: "automount_state (Some ''active'') = AutoActive" by (simp add: automount_state_def)
  obtain snap where "inspectRuntime P (req_unitName req) (plan_path (req_plan req)) (req_what req) w' = (snap, w')"
      "snap_automount snap = AutoActive" "snap_mount snap = MountAbsent" "snap_trust snap = Trusted"
    using assms(9,10) rec i(1) by (simp add: inspectRuntime_def Let_def auto)
  then show ?thesis by (simp add: armShare_def evaluateArmPrecheck_def)
qed


section \<open>The theorems on concrete inputs\<close>

text \<open>A systemd whose only unit is the automount of \<open>/home/u/nas\<close>; its state is whether it is armed.\<close>

definition one_unit :: "bool platform" where
  "one_unit = \<lparr>run_command = (\<lambda>args s. ((0, ''''),
       case args of [_, ''start'', _] \<Rightarrow> True | [_, ''stop'', _] \<Rightarrow> False | _ \<Rightarrow> s)),
     ctl_show = (\<lambda>s u p. Some (if s \<and> suffix ''.automount'' u then ''active'' else ''inactive'')),
     mountinfo = (\<lambda>s. Some (if s then ''30 1 0:40 / /home/u/nas rw - autofs systemd-1 rw'' else [])),
     unique_mount_id = (\<lambda>s p. if s then 77 else 0), systemd_escape = (\<lambda>s. Some (0, ''b'', [])),
     passwd = (\<lambda>u. None)\<rparr>"

definition nas_request :: arm_request where
  "nas_request = \<lparr>req_ownerUid = 1000, req_ownerGid = 1000, req_shareId = marker_id golden_marker,
     req_authentication = Credentials,
     req_plan = \<lparr>plan_path = ''/home/u/nas'', plan_root = ''/home/u'', plan_suffix = [''nas'']\<rparr>,
     req_unitName = ''b'', req_what = ''//n/a'', req_pathPolicy = InteractiveCreate\<rparr>"

abbreviation nas_host :: "bool world" where
  "nas_host \<equiv> host_world [] [] [] False"

lemma nas_host_apart: "root_apart (host_world mc ac fs s) (req_plan nas_request)"
proof -
  have "apart (host_world mc ac fs s) 10"
    unfolding apart_def host_world_dir_of
  proof (intro conjI allI impI)
    fix p d x assume "\<not> system_place p" "(p, d) \<in> {(EtcDir, 1), (RunDir, 2), (UnitsDir, 3), (CredDir, 4), (IdDir, 5 :: nat)}"
    then show "entry (host_world mc ac fs s) d x \<noteq> Some 10"
      by (auto simp: entry_def host_world_def dir_inode_def split: if_splits)
  qed (auto simp: host_world_def)
  moreover have "follow_path (host_world mc ac fs s) ''/home/u'' = Some 10"
    by (simp add: follow_path_def host_world_def dir_inode_def)
  ultimately show ?thesis by (simp add: root_apart_def nas_request_def)
qed

lemma nas_request_ok:
  "req_ownerUid nas_request \<noteq> 0" "\<not> is_temp_name (req_unitName nas_request)" "CHR ''/'' \<notin> set (req_unitName nas_request)"
  by (simp_all add: nas_request_def is_temp_name_def temp_prefix_def)

text \<open>A mounted share is stopped.\<close>
theorem safeStop_gated_witness:
  "events (snd (safeStop live_platform ''a'' ''/mnt/a'' ''//n/a'' live_world)) =
     [Ev_Command [''systemctl'', ''stop'', ''a.mount''], Ev_Command [''systemctl'', ''stop'', ''a.automount'']]"
proof -
  let ?r = "safeStop live_platform ''a'' ''/mnt/a'' ''//n/a'' live_world"
  have r: "fst (fst ?r) = Stopped" by code_simp
  have e: "events live_world = []" by (simp add: live_world_def unit_world_def)
  obtain r1 e1 w1 where s: "?r = ((r1, e1), w1)" by (metis prod.collapse)
  show ?thesis using safeStop_gated [OF s] r e s by simp
qed

text \<open>The request is armed.\<close>
theorem armShare_guarantees_witness:
  "id_record (snd (armShare one_unit nas_request nas_host)) ''b'' =
     Some (uniqueMountId one_unit (snd (armShare one_unit nas_request nas_host)) ''/home/u/nas'')"
proof -
  let ?r = "armShare one_unit nas_request nas_host"
  have "arm_outcome (fst ?r) = Armed" by code_simp
  then show ?thesis
    using armShare_guarantees [OF prod.collapse [symmetric, of ?r] host_world_ok nas_request_ok(1) nas_host_apart nas_request_ok(2)]
    by (simp add: nas_request_def)
qed


text \<open>Armed a second time.\<close>
theorem armShare_idempotent_witness:
  "let w' = snd (armShare one_unit nas_request nas_host) in
   \<exists>res'. armShare one_unit nas_request w' = (res', w') \<and> arm_outcome res' = AlreadyArmed"
proof -
  let ?r = "armShare one_unit nas_request nas_host"
  have o: "arm_outcome (fst ?r) = Armed" and s: "sched (snd ?r) = []" and b: "services (snd ?r)" by code_simp+
  have a: "systemctlShow one_unit w (req_unitName nas_request @ ''.automount'') ''ActiveState'' = Some ''active''"
    if "services w" for w
    using that by (simp add: systemctlShow_def one_unit_def nas_request_def suffix_def trimmed_def) code_simp
  have m: "fst (mount_axes one_unit w (req_unitName nas_request) (plan_path (req_plan nas_request)) (req_what nas_request)) = MountAbsent"
    if "services w" for w
  proof -
    have "mountinfo one_unit True = Some ''30 1 0:40 / /home/u/nas rw - autofs systemd-1 rw''"
      "ctl_show one_unit True ''b.mount'' ''ActiveState'' = Some ''inactive''" "trimmed ''inactive'' = ''inactive''" by code_simp+
    moreover have "cross_check (classifyMountEntries (parseMountinfo ''30 1 0:40 / /home/u/nas rw - autofs systemd-1 rw'')
        ''/home/u/nas'' ''//n/a'') (Some ''inactive'') = (MountAbsent, VerNotApplicable)" by code_simp
    ultimately show ?thesis using that by (simp add: mount_axes_def systemctlShow_def nas_request_def)
  qed
  show ?thesis
    unfolding Let_def
    using armShare_idempotent [OF prod.collapse [symmetric, of ?r] o host_world_ok nas_request_ok(1) nas_host_apart
        nas_request_ok(2,3) s a [OF b] m [OF b]] .
qed

end
