(* ===== verification/Operations.thy ===== *)
theory Operations
  imports Arming
begin

text \<open>
  Model of \<open>src/root/operations.cpp\<close>: defining a share (unit files, credential, reload, arming, and
  the compensation of a failure), removing one, and purging all of a user.  The strings an error is
  put together from are a constructor and a list of notes.
\<close>

section \<open>Unit files\<close>

definition MaxUnitBytes :: nat where "MaxUnitBytes = 65536"

definition openUnitsDir :: "'s world \<Rightarrow> (durable_error + nat) \<times> 's world" where
  "openUnitsDir = openSystemRoot units_dir"

definition writeUnitFile :: "nat \<Rightarrow> qstring \<Rightarrow> qstring \<Rightarrow> 's world \<Rightarrow> (durable_error + unit) \<times> 's world" where
  "writeUnitFile dirFd fileName content = durableReplace dirFd fileName content UnitFile"

definition removeUnitFile :: "nat \<Rightarrow> qstring \<Rightarrow> 's world \<Rightarrow> (durable_error + unit) \<times> 's world" where
  "removeUnitFile dirFd fileName = durableUnlink dirFd fileName True"

definition readUnitFile :: "nat \<Rightarrow> qstring \<Rightarrow> 's world \<Rightarrow> (durable_error + qstring) \<times> 's world" where
  "readUnitFile dirFd fileName = readFileBounded dirFd fileName MaxUnitBytes UnitFile"

text \<open>\<open>QFile::open\<close> and \<open>readAll\<close> of a listed file, symbolic links followed; None when it cannot be opened.\<close>

definition open_follow :: "qstring \<Rightarrow> 's world \<Rightarrow> (errno + nat) \<times> 's world" where
  "open_follow name w =
     attempt w (\<lambda>w. case absolute w units_dir of
        None \<Rightarrow> (Inl ENOENT, w)
      | Some d \<Rightarrow>
     (case entry w d name of
        None \<Rightarrow> (Inl ENOENT, w)
      | Some i \<Rightarrow>
     (case inodes w i of
        None \<Rightarrow> (Inl ENOENT, w)
      | Some n \<Rightarrow>
     (case ikind n of
        SymbolicLink None \<Rightarrow> (Inl ENOENT, w)
      | SymbolicLink (Some j) \<Rightarrow> opened j w
      | _ \<Rightarrow> opened i w))))"

definition read_listed :: "qstring \<Rightarrow> 's world \<Rightarrow> qstring option \<times> 's world" where
  "read_listed name w =
     (case open_follow name w of
        (Inl e, w1) \<Rightarrow> (None, w1)
      | (Inr fd, w1) \<Rightarrow>
     (case read_all fd (case inodes w1 fd of None \<Rightarrow> 0 | Some n \<Rightarrow> length (idata n)) [] w1 of
        (content, w2) \<Rightarrow> (Some content, close_fd w2)))"

section \<open>Share ids\<close>

fun id_in_units :: "qstring \<Rightarrow> qstring list \<Rightarrow> 's world \<Rightarrow> bool \<times> 's world" where
  "id_in_units shareId [] w = (False, w)"
| "id_in_units shareId (name # names) w =
     (case read_listed name w of
        (None, w1) \<Rightarrow> id_in_units shareId names w1
      | (Some content, w1) \<Rightarrow>
          (case parseMarker content of
             Inr m \<Rightarrow> if marker_id m = shareId then (True, w1) else id_in_units shareId names w1
           | Inl e \<Rightarrow> id_in_units shareId names w1))"

definition shareIdInUse :: "qstring \<Rightarrow> 's world \<Rightarrow> bool \<times> 's world" where
  "shareIdInUse shareId w =
     (case assertAbsent shareId w of
        (Inl e, w1) \<Rightarrow> (True, w1)
      | (Inr _, w1) \<Rightarrow> id_in_units shareId (unit_files w1) w1)"

definition share_id_of :: "64 word \<Rightarrow> 64 word \<Rightarrow> qstring" where
  "share_id_of a b = hex_digits 16 (unat a) @ hex_digits 16 (unat b)"

text \<open>The guard keeps the evaluation of closed terms from unfolding the digits of unknown numbers.\<close>

lemma share_id_of_code [code]:
  "share_id_of a b =
     (if a \<le> 18446744073709551615 \<and> b \<le> 18446744073709551615
      then hex_digits 16 (unat a) @ hex_digits 16 (unat b) else [])"
proof -
  have "x \<le> 18446744073709551615" for x :: "64 word"
    using unsigned_less [of x, where 'a = nat] by (simp add: word_le_nat_alt)
  then show ?thesis by (simp add: share_id_of_def)
qed

fun try_share_ids :: "nat \<Rightarrow> 's world \<Rightarrow> qstring option \<times> 's world" where
  "try_share_ids 0 w = (None, w)"
| "try_share_ids (Suc attempts) w =
     (case generate64 w of (a, w1) \<Rightarrow>
     (case generate64 w1 of (b, w2) \<Rightarrow>
     (case shareIdInUse (share_id_of a b) w2 of
        (used, w3) \<Rightarrow> if \<not> used then (Some (share_id_of a b), w3) else try_share_ids attempts w3)))"

definition generateUniqueShareId :: "'s world \<Rightarrow> qstring option \<times> 's world" where
  "generateUniqueShareId = try_share_ids 8"

section \<open>Defining a share\<close>

record define_input =
  in_ownerUid :: uid
  in_ownerGid :: gid
  in_unc :: qstring
  in_mountPoint :: qstring
  in_unitName :: qstring
  in_username :: qstring
  in_access :: AccessMode
  in_domain :: qstring
  in_password :: qstring
  in_mountPlan :: mountpoint_plan

datatype define_error =
  DefNoUniqueId | DefUnitsDir durable_error | DefExists | DefEncode encode_error
| DefWriteUnit durable_error | DefCredential store_error | DefGuestArtifact
| DefReload command_error | DefArm "arm_message option"

datatype cleanup_note =
  NoteCredential store_error | NoteUnitsDir durable_error | NoteUnit durable_error
| NoteRecord durable_error | NoteReload command_error | NoteRetained

record define_output =
  out_ok :: bool
  out_shareId :: qstring
  out_error :: "(define_error \<times> cleanup_note list) option"
  out_activated :: bool

definition define_failed :: "define_error \<Rightarrow> cleanup_note list \<Rightarrow> define_output" where
  "define_failed e notes =
     \<lparr>out_ok = False, out_shareId = [], out_error = Some (e, notes), out_activated = False\<rparr>"

text \<open>
  The closure \<open>cleanup\<close>.  The unit files go, the \<open>.automount\<close> first, when the flags say that they may
  exist and the credential is certainly gone.
\<close>

definition cleanup_units :: "define_input \<Rightarrow> bool \<Rightarrow> bool \<Rightarrow> 's world \<Rightarrow> cleanup_note list \<times> 's world" where
  "cleanup_units input mountMayExist automountMayExist w =
     (case openUnitsDir w of
        (Inl e, w1) \<Rightarrow> ([NoteUnitsDir e], w1)
      | (Inr fd, w1) \<Rightarrow>
     (case (if automountMayExist then removeUnitFile fd (in_unitName input @ ''.automount'') w1 else (Inr (), w1)) of
        (r1, w2) \<Rightarrow>
     (case (if mountMayExist then removeUnitFile fd (in_unitName input @ ''.mount'') w2 else (Inr (), w2)) of
        (r2, w3) \<Rightarrow>
          ((case r1 of Inl e \<Rightarrow> [NoteUnit e] | Inr _ \<Rightarrow> []) @ (case r2 of Inl e \<Rightarrow> [NoteUnit e] | Inr _ \<Rightarrow> []),
           close_fd w3))))"

definition cleanup_define ::
    "'s platform \<Rightarrow> define_input \<Rightarrow> qstring \<Rightarrow> bool \<Rightarrow> bool \<Rightarrow> bool \<Rightarrow> define_error \<Rightarrow> 's world \<Rightarrow>
     define_output \<times> 's world" where
  "cleanup_define P input shareId mountMayExist automountMayExist credentialMayExist reason w =
     (case (if credentialMayExist then remove_credential shareId True w else (Inr (), w)) of
        (rc, w1) \<Rightarrow>
     (let mayRemoveUnits = \<not> isl rc; units = mayRemoveUnits \<and> (mountMayExist \<or> automountMayExist) in
      case (if units then cleanup_units input mountMayExist automountMayExist w1 else ([], w1)) of
        (notes1, w2) \<Rightarrow>
     (case removeAutomountId (in_unitName input) w2 of
        (ri, w3) \<Rightarrow>
     (case (if units then daemonReload P w3 else (Inr (), w3)) of
        (rr, w4) \<Rightarrow>
          (define_failed reason
             ((case rc of Inl e \<Rightarrow> [NoteCredential e] | Inr _ \<Rightarrow> []) @ notes1 @
              (case ri of Inl e \<Rightarrow> [NoteRecord e] | Inr _ \<Rightarrow> []) @
              (case rr of Inl e \<Rightarrow> [NoteReload e] | Inr _ \<Rightarrow> [])), w4)))))"

definition define_authentication :: "define_input \<Rightarrow> AuthenticationKind" where
  "define_authentication input = (if in_username input = [] then Guest else Credentials)"

definition define_marker :: "define_input \<Rightarrow> qstring \<Rightarrow> marker" where
  "define_marker input shareId =
     \<lparr>ownerUid = in_ownerUid input, ownerGid = in_ownerGid input, marker_id = shareId,
      authentication = define_authentication input, access = in_access input\<rparr>"

definition define_request :: "define_input \<Rightarrow> qstring \<Rightarrow> arm_request" where
  "define_request input shareId =
     \<lparr>req_ownerUid = in_ownerUid input, req_ownerGid = in_ownerGid input, req_shareId = shareId,
      req_authentication = define_authentication input, req_plan = in_mountPlan input,
      req_unitName = in_unitName input, req_what = in_unc input, req_pathPolicy = InteractiveCreate\<rparr>"

text \<open>The last step: arming.\<close>

definition define_arm :: "'s platform \<Rightarrow> define_input \<Rightarrow> qstring \<Rightarrow> bool \<Rightarrow> 's world \<Rightarrow> define_output \<times> 's world" where
  "define_arm P input shareId credentialMayExist w =
     (case armShare P (define_request input shareId) w of
        (res, w1) \<Rightarrow>
          if arm_outcome res = NeedsAttention then
            if \<not> definitionCleanupSafe res then (define_failed (DefArm (arm_message res)) [NoteRetained], w1)
            else cleanup_define P input shareId True True credentialMayExist (DefArm (arm_message res)) w1
          else (\<lparr>out_ok = True, out_shareId = shareId, out_error = None, out_activated = True\<rparr>, w1))"

text \<open>With both unit files in place: the credential, the reload, the arming.\<close>

definition define_finish :: "'s platform \<Rightarrow> define_input \<Rightarrow> qstring \<Rightarrow> 's world \<Rightarrow> define_output \<times> 's world" where
  "define_finish P input shareId w =
     (let credentialMayExist = (define_authentication input = Credentials) in
      case (if define_authentication input = Credentials then
              (case write_credential shareId (in_username input) (in_domain input) (in_password input) w of
                 (Inl e, w1) \<Rightarrow> (Inl (DefCredential e), w1) | (Inr _, w1) \<Rightarrow> (Inr (), w1))
            else
              (case assertAbsent shareId w of
                 (Inl None, w1) \<Rightarrow> (Inl DefGuestArtifact, w1)
               | (Inl (Some e), w1) \<Rightarrow> (Inl (DefCredential e), w1)
               | (Inr _, w1) \<Rightarrow> (Inr (), w1))) of
        (Inl e, w1) \<Rightarrow> cleanup_define P input shareId True True credentialMayExist e w1
      | (Inr _, w1) \<Rightarrow>
     (case daemonReload P w1 of
        (Inl e, w2) \<Rightarrow> cleanup_define P input shareId True True credentialMayExist (DefReload e) w2
      | (Inr _, w2) \<Rightarrow> define_arm P input shareId credentialMayExist w2))"

definition define_install ::
    "'s platform \<Rightarrow> define_input \<Rightarrow> qstring \<Rightarrow> qstring \<Rightarrow> qstring \<Rightarrow> nat \<Rightarrow> 's world \<Rightarrow> define_output \<times> 's world" where
  "define_install P input shareId mountContent automountContent sysFd w =
     (case writeUnitFile sysFd (in_unitName input @ ''.mount'') mountContent w of
        (Inl e, w1) \<Rightarrow> cleanup_define P input shareId True False False (DefWriteUnit e) (close_fd w1)
      | (Inr _, w1) \<Rightarrow>
     (case writeUnitFile sysFd (in_unitName input @ ''.automount'') automountContent w1 of
        (Inl e, w2) \<Rightarrow> cleanup_define P input shareId True True False (DefWriteUnit e) (close_fd w2)
      | (Inr _, w2) \<Rightarrow> define_finish P input shareId (close_fd w2)))"

definition build_units :: "define_input \<Rightarrow> qstring \<Rightarrow> encode_error + qstring \<times> qstring" where
  "build_units input shareId =
     (case buildMountUnitContent (define_marker input shareId) (in_unc input) (in_mountPoint input) of
        Inl e \<Rightarrow> Inl e
      | Inr mountContent \<Rightarrow>
     (case buildAutomountUnitContent (define_marker input shareId) (in_mountPoint input) of
        Inl e \<Rightarrow> Inl e
      | Inr automountContent \<Rightarrow> Inr (mountContent, automountContent)))"

definition define_share :: "'s platform \<Rightarrow> define_input \<Rightarrow> 's world \<Rightarrow> define_output \<times> 's world" where
  "define_share P input w =
     (case generateUniqueShareId w of
        (None, w1) \<Rightarrow> (define_failed DefNoUniqueId [], w1)
      | (Some shareId, w1) \<Rightarrow>
     (case openUnitsDir w1 of
        (Inl e, w2) \<Rightarrow> (define_failed (DefUnitsDir e) [], w2)
      | (Inr sysFd, w2) \<Rightarrow>
     (case readUnitFile sysFd (in_unitName input @ ''.mount'') w2 of
        (r1, w3) \<Rightarrow>
     (case readUnitFile sysFd (in_unitName input @ ''.automount'') w3 of
        (r2, w4) \<Rightarrow>
          if \<not> isl r1 \<or> \<not> isl r2 then (define_failed DefExists [], close_fd w4)
          else
     (case build_units input shareId of
        Inl e \<Rightarrow> (define_failed (DefEncode e) [], close_fd w4)
      | Inr (mountContent, automountContent) \<Rightarrow>
          define_install P input shareId mountContent automountContent sysFd w4)))))"

section \<open>Removing a share\<close>

record removal_input =
  rem_shareId :: qstring
  rem_mountPoint :: qstring
  rem_unitName :: qstring
  rem_what :: qstring

datatype removal_error =
  RemStop StopResult "stop_error option" | RemCredential store_error | RemDurable durable_error
| RemReload command_error

definition remove_files :: "'s platform \<Rightarrow> removal_input \<Rightarrow> 's world \<Rightarrow> (removal_error + unit) \<times> 's world" where
  "remove_files P input w =
     (case openUnitsDir w of
        (Inl e, w1) \<Rightarrow> (Inl (RemDurable e), w1)
      | (Inr sysFd, w1) \<Rightarrow>
     (case removeUnitFile sysFd (rem_unitName input @ ''.mount'') w1 of
        (Inl e, w2) \<Rightarrow> (Inl (RemDurable e), close_fd w2)
      | (Inr _, w2) \<Rightarrow>
     (case removeUnitFile sysFd (rem_unitName input @ ''.automount'') w2 of
        (Inl e, w3) \<Rightarrow> (Inl (RemDurable e), close_fd w3)
      | (Inr _, w3) \<Rightarrow>
     (case removeAutomountId (rem_unitName input) (close_fd w3) of
        (Inl e, w4) \<Rightarrow> (Inl (RemDurable e), w4)
      | (Inr _, w4) \<Rightarrow>
     (case daemonReload P w4 of
        (Inl e, w5) \<Rightarrow> (Inl (RemReload e), w5)
      | (Inr _, w5) \<Rightarrow> (Inr (), w5))))))"

definition remove_share :: "'s platform \<Rightarrow> removal_input \<Rightarrow> 's world \<Rightarrow> (removal_error + unit) \<times> 's world" where
  "remove_share P input w =
     (case safeStop P (rem_unitName input) (rem_mountPoint input) (rem_what input) w of
        ((result, e), w1) \<Rightarrow>
          if result = Busy \<or> result = CorrelationMismatch \<or> result = StopIndeterminate
          then (Inl (RemStop result e), w1)
          else
     (case remove_credential (rem_shareId input) True w1 of
        (Inl e, w2) \<Rightarrow> (Inl (RemCredential e), w2)
      | (Inr _, w2) \<Rightarrow> remove_files P input w2))"

section \<open>Purging\<close>

text \<open>
  \<open>PurgeOutput\<close>: whether all went well, how many shares were removed, and the error.  An error up to
  \<open>PurgeStop\<close> comes from one of the gates that stand before the first deletion.
\<close>

datatype purge_error =
  PurgeTampered | PurgeForeign | PurgeMalformed qstring | PurgePaths paths_error | PurgeNameMismatch
| PurgeChanged | PurgeStop qstring StopResult "stop_error option"
| PurgeDurable durable_error | PurgeCredential store_error | PurgeReload command_error

definition gate_error :: "purge_error \<Rightarrow> bool" where
  "gate_error e = (case e of PurgeDurable _ \<Rightarrow> False | PurgeCredential _ \<Rightarrow> False | PurgeReload _ \<Rightarrow> False | _ \<Rightarrow> True)"

record purge_output =
  pur_ok :: bool
  removedShares :: nat
  pur_error :: "purge_error option"

definition purge_failed :: "nat \<Rightarrow> purge_error \<Rightarrow> purge_output" where
  "purge_failed n e = \<lparr>pur_ok = False, removedShares = n, pur_error = Some e\<rparr>"

text \<open>The first loop: the names of the caller's definitions, or why there is nothing to purge.\<close>

fun purge_bases :: "uid \<Rightarrow> owned_unit list \<Rightarrow> purge_error + qstring list" where
  "purge_bases u [] = Inr []"
| "purge_bases u (x # xs) =
     (if own_state x = DefTampered then Inl PurgeTampered
      else if own_uid x \<noteq> u then Inl PurgeForeign
      else case purge_bases u xs of Inl e \<Rightarrow> Inl e | Inr bs \<Rightarrow> Inr (own_unitName x # bs))"

text \<open>\<open>name.chopped(6)\<close> and \<open>name.chopped(10)\<close>.\<close>

definition unit_base :: "qstring \<Rightarrow> qstring" where
  "unit_base name = (if suffix ''.mount'' name then take (length name - 6) name else take (length name - 10) name)"

definition unclassified :: "qstring list \<Rightarrow> qstring \<Rightarrow> qstring \<Rightarrow> bool" where
  "unclassified bases name content \<longleftrightarrow>
     hasMarker content \<and> (isl (parseMarker content) \<or> unit_base name \<notin> set bases)"

fun purge_scan :: "qstring list \<Rightarrow> qstring list \<Rightarrow> 's world \<Rightarrow> qstring option \<times> 's world" where
  "purge_scan bases [] w = (None, w)"
| "purge_scan bases (name # names) w =
     (case read_listed name w of
        (None, w1) \<Rightarrow> purge_scan bases names w1
      | (Some content, w1) \<Rightarrow>
          if unclassified bases name content then (Some name, w1) else purge_scan bases names w1)"

definition purge_agrees :: "uid \<Rightarrow> owned_unit \<Rightarrow> definition_check \<Rightarrow> bool" where
  "purge_agrees u unit def \<longleftrightarrow>
     (def_state def = DefPair \<or> def_state def = DefPartial) \<and> def_id def = own_id unit \<and> def_ownerUid def = u \<and>
     def_ownerGid def = own_gid unit \<and> def_authentication def = own_authentication unit"

fun purge_validate ::
    "'s platform \<Rightarrow> uid \<Rightarrow> owned_unit list \<Rightarrow> 's world \<Rightarrow>
     (purge_error + (definition_check \<times> unit_paths) list) \<times> 's world" where
  "purge_validate P u [] w = (Inr [], w)"
| "purge_validate P u (x # xs) w =
     (case unitPathsFor (systemd_escape P) (own_mountPoint x) of
        Inl e \<Rightarrow> (Inl (PurgePaths e), w)
      | Inr paths \<Rightarrow>
          if unitName paths \<noteq> own_unitName x then (Inl PurgeNameMismatch, w)
          else
     (case inspectDefinition paths u (own_mountPoint x) w of
        (def, w1) \<Rightarrow>
          if \<not> purge_agrees u x def then (Inl PurgeChanged, w1)
          else
     (case purge_validate P u xs w1 of
        (Inl e, w2) \<Rightarrow> (Inl e, w2)
      | (Inr vs, w2) \<Rightarrow> (Inr ((def, paths) # vs), w2))))"

fun purge_stop :: "'s platform \<Rightarrow> (definition_check \<times> unit_paths) list \<Rightarrow> 's world \<Rightarrow> (purge_error + unit) \<times> 's world" where
  "purge_stop P [] w = (Inr (), w)"
| "purge_stop P ((def, paths) # vs) w =
     (case safeStop P (unitName paths) (canonicalMountPoint def) (def_what def) w of
        ((stopped, e), w1) \<Rightarrow>
          if stopped = Busy \<or> stopped = CorrelationMismatch \<or> stopped = StopIndeterminate
          then (Inl (PurgeStop (canonicalMountPoint def) stopped e), w1)
          else purge_stop P vs w1)"

text \<open>The deletions of one share, and of all of them; the number counts the shares removed completely.\<close>

definition purge_one :: "nat \<Rightarrow> definition_check \<times> unit_paths \<Rightarrow> 's world \<Rightarrow> (purge_error + unit) \<times> 's world" where
  "purge_one sysFd v w =
     (case removeUnitFile sysFd (unitName (snd v) @ ''.mount'') w of
        (Inl e, w1) \<Rightarrow> (Inl (PurgeDurable e), w1)
      | (Inr _, w1) \<Rightarrow>
     (case removeUnitFile sysFd (unitName (snd v) @ ''.automount'') w1 of
        (Inl e, w2) \<Rightarrow> (Inl (PurgeDurable e), w2)
      | (Inr _, w2) \<Rightarrow>
     (case removeAutomountId (unitName (snd v)) w2 of
        (Inl e, w3) \<Rightarrow> (Inl (PurgeDurable e), w3)
      | (Inr _, w3) \<Rightarrow>
     (case remove_credential (def_id (fst v)) True w3 of
        (Inl e, w4) \<Rightarrow> (Inl (PurgeCredential e), w4)
      | (Inr _, w4) \<Rightarrow> (Inr (), w4)))))"

fun purge_shares ::
    "nat \<Rightarrow> nat \<Rightarrow> (definition_check \<times> unit_paths) list \<Rightarrow> 's world \<Rightarrow> nat \<times> purge_error option \<times> 's world" where
  "purge_shares sysFd n [] w = (n, None, close_fd w)"
| "purge_shares sysFd n (v # vs) w =
     (case purge_one sysFd v w of
        (Inl e, w1) \<Rightarrow> (n, Some e, close_fd w1)
      | (Inr _, w1) \<Rightarrow> purge_shares sysFd (n + 1) vs w1)"

definition remove_root :: "nat \<Rightarrow> qstring \<Rightarrow> ArtifactKind \<Rightarrow> ArtifactKind \<Rightarrow> 's world \<Rightarrow> (purge_error + unit) \<times> 's world" where
  "remove_root fd name dirKind entryKind w =
     (case durableRemoveTree fd name dirKind entryKind w of
        (Inl e, w1) \<Rightarrow> (Inl (PurgeDurable e), close_fd w1)
      | (Inr _, w1) \<Rightarrow> (Inr (), w1))"

definition purge_roots :: "'s world \<Rightarrow> (purge_error + unit) \<times> 's world" where
  "purge_roots w =
     (case openSystemRoot ''/etc'' w of
        (Inl e, w1) \<Rightarrow> (Inl (PurgeDurable e), w1)
      | (Inr etcFd, w1) \<Rightarrow>
     (case remove_root etcFd ''nasmount'' DirectoryKind SensitiveFile w1 of
        (Inl e, w2) \<Rightarrow> (Inl e, w2)
      | (Inr _, w2) \<Rightarrow>
     (case openSystemRoot ''/run'' (close_fd w2) of
        (Inl e, w3) \<Rightarrow> (Inl (PurgeDurable e), w3)
      | (Inr runFd, w3) \<Rightarrow>
     (case remove_root runFd ''nasmount-ids'' PublicDirectory PublicRecord w3 of
        (Inl e, w4) \<Rightarrow> (Inl e, w4)
      | (Inr _, w4) \<Rightarrow>
     (case remove_root runFd ''nasmount'' DirectoryKind SensitiveFile w4 of
        (Inl e, w5) \<Rightarrow> (Inl e, w5)
      | (Inr _, w5) \<Rightarrow> (Inr (), close_fd w5))))))"

definition purge_delete ::
    "'s platform \<Rightarrow> (definition_check \<times> unit_paths) list \<Rightarrow> 's world \<Rightarrow> purge_output \<times> 's world" where
  "purge_delete P vs w =
     (case openUnitsDir w of
        (Inl e, w1) \<Rightarrow> (purge_failed 0 (PurgeDurable e), w1)
      | (Inr sysFd, w1) \<Rightarrow>
     (case purge_shares sysFd 0 vs w1 of
        (n, Some e, w2) \<Rightarrow> (purge_failed n e, w2)
      | (n, None, w2) \<Rightarrow>
     (case daemonReload P w2 of
        (Inl e, w3) \<Rightarrow> (purge_failed n (PurgeReload e), w3)
      | (Inr _, w3) \<Rightarrow>
     (case purge_roots w3 of
        (Inl e, w4) \<Rightarrow> (purge_failed n e, w4)
      | (Inr _, w4) \<Rightarrow> (\<lparr>pur_ok = True, removedShares = n, pur_error = None\<rparr>, w4)))))"

definition purge :: "'s platform \<Rightarrow> uid \<Rightarrow> 's world \<Rightarrow> purge_output \<times> 's world" where
  "purge P u w =
     (case enumerateManagedUnits w of
        (units, w1) \<Rightarrow>
     (case purge_bases u units of
        Inl e \<Rightarrow> (purge_failed 0 e, w1)
      | Inr bases \<Rightarrow>
     (case purge_scan bases (unit_files w1) w1 of
        (Some name, w2) \<Rightarrow> (purge_failed 0 (PurgeMalformed name), w2)
      | (None, w2) \<Rightarrow>
     (case purge_validate P u units w2 of
        (Inl e, w3) \<Rightarrow> (purge_failed 0 e, w3)
      | (Inr vs, w3) \<Rightarrow>
     (case purge_stop P vs w3 of
        (Inl e, w4) \<Rightarrow> (purge_failed 0 e, w4)
      | (Inr _, w4) \<Rightarrow> purge_delete P vs w4)))))"

section \<open>What the steps touch\<close>

text \<open>A unit name that is a plain file name; its two files and its record are no temporary files.\<close>

definition good_unit_name :: "qstring \<Rightarrow> bool" where
  "good_unit_name name \<longleftrightarrow> name \<noteq> [] \<and> hd name \<noteq> CHR ''.'' \<and> CHR ''/'' \<notin> set name"

lemma good_unit_name_not_temp:
  assumes "good_unit_name name"
  shows "\<not> is_temp_name name" "\<not> is_temp_name (name @ x)"
  using assms by (cases name; auto simp: good_unit_name_def is_temp_name_def temp_prefix_def)+

lemma open_follow_result:
  assumes "open_follow name w = (r, w')"
  shows "case r of Inl e \<Rightarrow> reads 0 w w' | Inr fd \<Rightarrow> reads 1 w w'"
  using assms unfolding open_follow_def
proof (cases rule: attempt_cases)
  case (works w1)
  then show ?thesis
    by (cases r; auto split: option.splits file_kind.splits simp: opened_reads intro: reads_0_trans [OF works(1)])
qed auto

lemma read_listed_reads:
  assumes "read_listed name w = (c, w')"
  shows "reads 0 w w'"
proof -
  obtain r1 w1 where 1: "open_follow name w = (r1, w1)" by fastforce
  show ?thesis
  proof (cases r1)
    case (Inl e)
    then show ?thesis using assms open_follow_result [OF 1] by (simp add: read_listed_def 1)
  next
    case (Inr fd)
    obtain c2 w2 where 2: "read_all fd (case inodes w1 fd of None \<Rightarrow> 0 | Some n \<Rightarrow> length (idata n)) [] w1 = (c2, w2)"
      by fastforce
    then have "w' = close_fd w2" using assms Inr by (simp add: read_listed_def 1)
    then show ?thesis using open_follow_result [OF 1] Inr read_all_reads [OF 2] reads_and_close by fastforce
  qed
qed

lemma id_in_units_reads: "id_in_units i names w = (b, w') \<Longrightarrow> reads 0 w w'"
proof (induction i names w rule: id_in_units.induct)
  case (2 i name names w)
  obtain c w1 where 1: "read_listed name w = (c, w1)" by fastforce
  have "w' = w1 \<or> id_in_units i names w1 = (b, w')"
    using 2(4) 1 by (auto split: option.splits sum.splits if_splits)
  moreover have "reads 0 w1 w'" if "id_in_units i names w1 = (b, w')"
    using 2(1-3) 1 that 2(4) by (cases c; cases "parseMarker (the c)") (auto split: if_splits)
  ultimately show ?case using read_listed_reads [OF 1] reads_0_trans by blast
qed simp

lemma shareIdInUse_effect:
  assumes h: "host_ok w" and r: "shareIdInUse i w = (b, w')"
  shows "touches 0 {} w w' \<and> services w' = services w \<and>
    (\<not> b \<longrightarrow> isValidShareId i \<and> slot_at w' CredDir (fileNameFor i) = None)"
proof -
  obtain r1 w1 where 1: "assertAbsent i w = (r1, w1)" by fastforce
  note a = assertAbsent_effect [OF h 1]
  show ?thesis
  proof (cases r1)
    case (Inl e)
    then show ?thesis using r a by (simp add: shareIdInUse_def 1)
  next
    case (Inr u)
    then have "id_in_units i (unit_files w1) w1 = (b, w')" using r by (simp add: shareIdInUse_def 1)
    from id_in_units_reads [OF this] have rd: "reads 0 w1 w'" .
    have "touches 0 {} w w'" using touches_trans [OF conjunct1 [OF a] reads_touches [OF touches_host rd]] a by force
    then show ?thesis using a Inr rd same_dirs(4) [of w' w1] by (simp add: reads_fields)
  qed
qed

lemma try_share_ids_effect:
  assumes "host_ok w" "try_share_ids n w = (r, w')"
  shows "touches 0 {} w w' \<and> services w' = services w \<and>
    (\<forall>i. r = Some i \<longrightarrow> isValidShareId i \<and> slot_at w' CredDir (fileNameFor i) = None)"
  using assms
proof (induction n arbitrary: w)
  case 0
  then show ?case using touches_refl by auto
next
  case (Suc n)
  obtain a w1 where 1: "generate64 w = (a, w1)" by fastforce
  obtain b w2 where 2: "generate64 w1 = (b, w2)" by fastforce
  have e: "absolute w2 = absolute w" "inodes w2 = inodes w" "next_ino w2 = next_ino w" "open_fds w2 = open_fds w"
      "services w2 = services w" using 1 2 by (auto simp: generate64_def)
  have t2: "touches 0 {} w w2" using same_inodes_touches [OF Suc.prems(1) e(1-3)] e(4) by simp
  obtain c w3 where 3: "shareIdInUse (share_id_of a b) w2 = (c, w3)" by fastforce
  note s = shareIdInUse_effect [OF touches_host [OF t2] 3]
  have t3: "touches 0 {} w w3" using touches_trans [OF t2] s by fastforce
  show ?case
  proof (cases c)
    case True
    then have "try_share_ids n w3 = (r, w')" using Suc.prems(2) by (simp add: 1 2 3)
    then show ?thesis using Suc.IH [OF touches_host [OF t3]] touches_trans [OF t3] s e(5) by fastforce
  next
    case False
    then have "r = Some (share_id_of a b)" "w' = w3" using Suc.prems(2) by (simp_all add: 1 2 3)
    then show ?thesis using False t3 s e(5) by simp
  qed
qed

lemma removeUnitFile_effect:
  assumes "host_ok w" "absolute w units_dir = Some d" "removeUnitFile d x w = (r, w')"
  shows "touches 0 {(UnitsDir, x)} w w' \<and> services w' = services w \<and>
    (r = Inr () \<longrightarrow> slot_at w' UnitsDir x = None) \<and> (slot_at w' UnitsDir x = None \<or> kept w w' UnitsDir x)"
  using durableUnlink_slot [OF assms(1), of UnitsDir d x r w'] assms(2,3) kept_eq
  by (auto simp: removeUnitFile_def split: if_splits)

lemma writeUnitFile_effect:
  assumes "host_ok w" "absolute w units_dir = Some d" "writeUnitFile d x content w = (r, w')" "\<not> is_temp_name x"
  shows "touches 0 {(UnitsDir, x)} w w' \<and> services w' = services w \<and>
    ((\<exists>e. r = Inl e) \<and> kept w w' UnitsDir x \<or> (\<exists>m. slot_at w' UnitsDir x = Some m \<and> written m content UnitFile))"
  using durableReplace_slot [OF assms(1), of UnitsDir d x content UnitFile r w'] assms(2-4) kept_eq
  by (auto simp: writeUnitFile_def)

lemma openUnitsDir_effect:
  assumes "host_ok w" "openUnitsDir w = (r, w')"
  shows "services w' = services w \<and>
    (case r of Inl _ \<Rightarrow> touches 0 {} w w' | Inr fd \<Rightarrow> touches 1 {} w w' \<and> absolute w' units_dir = Some fd)"
  using openSystemRoot_result [of units_dir w r w'] assms
  by (cases r) (auto simp: openUnitsDir_def reads_fields intro: reads_touches)

lemma readUnitFile_reads: "readUnitFile d x w = (r, w') \<Longrightarrow> reads 0 w w'"
  using readFileBounded_result by (fastforce simp: readUnitFile_def)

section \<open>Compensation\<close>

text \<open>The slots a share named \<open>name\<close> with id \<open>i\<close> owns, of those that the flags select.\<close>

definition share_slots :: "qstring \<Rightarrow> qstring \<Rightarrow> bool \<Rightarrow> bool \<Rightarrow> bool \<Rightarrow> (place \<times> qstring) set" where
  "share_slots name i m a c =
     (if m then {(UnitsDir, name @ ''.mount'')} else {}) \<union>
     (if a then {(UnitsDir, name @ ''.automount'')} else {}) \<union>
     (if c then {(CredDir, fileNameFor i)} else {}) \<union> {(IdDir, name)}"

lemma share_slots_simps [simp]:
  "(UnitsDir, name @ ''.mount'') \<in> share_slots name i m a c \<longleftrightarrow> m"
  "(UnitsDir, name @ ''.automount'') \<in> share_slots name i m a c \<longleftrightarrow> a"
  "(CredDir, fileNameFor i) \<in> share_slots name i m a c \<longleftrightarrow> c"
  "(IdDir, name) \<in> share_slots name i m a c"
  by (auto simp: share_slots_def)

lemma share_slots_mono: "(m \<longrightarrow> m') \<Longrightarrow> (a \<longrightarrow> a') \<Longrightarrow> (c \<longrightarrow> c') \<Longrightarrow> share_slots name i m a c \<subseteq> share_slots name i m' a' c'"
  by (auto simp: share_slots_def)

lemma stays_None: "kept w w' p x \<Longrightarrow> slot_at w p x = None \<Longrightarrow> slot_at w' p x = None"
  by (simp add: kept_def)

lemma stays_Some: "kept w w' p x \<Longrightarrow> slot_at w p x \<noteq> None \<Longrightarrow> slot_at w' p x \<noteq> None"
  by (auto simp: kept_def)

lemma cleanup_units_effect:
  assumes h: "host_ok w" and r: "cleanup_units input m a w = (notes, w')" and g: "good_unit_name (in_unitName input)"
  shows "touches 0 (share_slots (in_unitName input) i m a False - {(IdDir, in_unitName input)}) w w' \<and> services w' = services w \<and>
    (notes = [] \<longrightarrow> (m \<longrightarrow> slot_at w' UnitsDir (in_unitName input @ ''.mount'') = None) \<and>
       (a \<longrightarrow> slot_at w' UnitsDir (in_unitName input @ ''.automount'') = None))"
proof -
  let ?n = "in_unitName input"
  let ?S = "share_slots ?n i m a False - {(IdDir, ?n)}"
  obtain r1 w1 where 1: "openUnitsDir w = (r1, w1)" by fastforce
  note o = openUnitsDir_effect [OF h 1]
  show ?thesis
  proof (cases r1)
    case (Inl e)
    then show ?thesis using r o touches_mono [of 0 "{}" w w' ?S] by (auto simp: cleanup_units_def 1)
  next
    case (Inr fd)
    then have t1: "touches 1 {} w w1" and d: "absolute w1 units_dir = Some fd" using o by simp_all
    obtain r2 w2 where 2: "(if a then removeUnitFile fd (?n @ ''.automount'') w1 else (Inr (), w1)) = (r2, w2)" by fastforce
    have e2: "touches 0 (if a then {(UnitsDir, ?n @ ''.automount'')} else {}) w1 w2 \<and> services w2 = services w1 \<and>
        (a \<longrightarrow> r2 = Inr () \<longrightarrow> slot_at w2 UnitsDir (?n @ ''.automount'') = None)"
      using 2 removeUnitFile_effect [OF touches_host [OF t1] d, of "?n @ ''.automount''" r2 w2] touches_refl [OF touches_host [OF t1]]
      by (cases a) auto
    have t2: "touches 1 ?S w w2" using touches_trans [OF t1 conjunct1 [OF e2]] touches_mono by (force simp: share_slots_def)
    have d2: "absolute w2 units_dir = Some fd" using d e2 touches_absolute by metis
    obtain r3 w3 where 3: "(if m then removeUnitFile fd (?n @ ''.mount'') w2 else (Inr (), w2)) = (r3, w3)" by fastforce
    have e3: "touches 0 (if m then {(UnitsDir, ?n @ ''.mount'')} else {}) w2 w3 \<and> services w3 = services w2 \<and>
        (m \<longrightarrow> r3 = Inr () \<longrightarrow> slot_at w3 UnitsDir (?n @ ''.mount'') = None)"
      using 3 removeUnitFile_effect [OF touches_host [OF t2] d2, of "?n @ ''.mount''" r3 w3] touches_refl [OF touches_host [OF t2]]
      by (cases m) auto
    have "kept w2 w3 UnitsDir (?n @ ''.automount'')"
      using touches_kept [OF conjunct1 [OF e3], of UnitsDir "?n @ ''.automount''"] good_unit_name_not_temp [OF g] by simp
    then have b: "a \<longrightarrow> r2 = Inr () \<longrightarrow> slot_at w3 UnitsDir (?n @ ''.automount'') = None" using e2 stays_None by blast
    have t3: "touches 1 ?S w w3" using touches_trans [OF t2 conjunct1 [OF e3]] touches_mono by (force simp: share_slots_def)
    have "touches 0 ?S w (close_fd w3)" using touches_trans [OF t3 touches_close [OF touches_host [OF t3]]] by simp
    moreover have "w' = close_fd w3" "notes = [] \<Longrightarrow> r2 = Inr () \<and> r3 = Inr ()"
      using r 2 3 Inr by (cases r2; cases r3; simp add: cleanup_units_def 1)+
    ultimately show ?thesis using b e2 e3 o by auto
  qed
qed

lemma cleanup_define_effect:
  assumes h: "host_ok w" and r: "cleanup_define P input i m a c reason w = (out, w')"
    and g: "good_unit_name (in_unitName input)" and i: "isValidShareId i"
  shows "touches 0 (share_slots (in_unitName input) i m a c) w w' \<and>
    (\<exists>notes. out = define_failed reason notes \<and>
      (notes = [] \<longrightarrow> (m \<longrightarrow> slot_at w' UnitsDir (in_unitName input @ ''.mount'') = None) \<and>
         (a \<longrightarrow> slot_at w' UnitsDir (in_unitName input @ ''.automount'') = None) \<and>
         (c \<longrightarrow> slot_at w' CredDir (fileNameFor i) = None))) \<and>
    (c \<longrightarrow> slot_at w' CredDir (fileNameFor i) \<noteq> None \<longrightarrow>
       kept w w' UnitsDir (in_unitName input @ ''.mount'') \<and> kept w w' UnitsDir (in_unitName input @ ''.automount''))"
proof -
  let ?n = "in_unitName input"
  let ?A = "?n @ ''.mount''" and ?B = "?n @ ''.automount''" and ?C = "fileNameFor i"
  note nt = good_unit_name_not_temp [OF g] valid_id_not_temp [OF i]
  obtain rc w1 where 1: "(if c then remove_credential i True w else (Inr (), w)) = (rc, w1)" by fastforce
  have e1: "touches 0 (if c then {(CredDir, ?C)} else {}) w w1 \<and> (c \<longrightarrow> rc = Inr () \<longrightarrow> slot_at w1 CredDir ?C = None)"
    using 1 remove_credential_effect [OF h, of i rc w1] touches_refl [OF h] by (cases c) auto
  define u where "u \<longleftrightarrow> \<not> isl rc \<and> (m \<or> a)"
  obtain notes1 w2 where 2: "(if u then cleanup_units input m a w1 else ([], w1)) = (notes1, w2)" by fastforce
  have e2: "touches 0 (share_slots ?n i (m \<and> u) (a \<and> u) False - {(IdDir, ?n)}) w1 w2 \<and>
      (u \<longrightarrow> notes1 = [] \<longrightarrow> (m \<longrightarrow> slot_at w2 UnitsDir ?A = None) \<and> (a \<longrightarrow> slot_at w2 UnitsDir ?B = None))"
    using 2 cleanup_units_effect [OF touches_host [OF conjunct1 [OF e1]] _ g, of m a notes1 w2 i]
      touches_mono [OF touches_refl [OF touches_host [OF conjunct1 [OF e1]]]] by (cases u) auto
  obtain ri w3 where 3: "removeAutomountId ?n w2 = (ri, w3)" by fastforce
  note e3 = removeAutomountId_effect [OF touches_host [OF conjunct1 [OF e2]] 3 nt(1)]
  obtain rr w4 where 4: "(if u then daemonReload P w3 else (Inr (), w3)) = (rr, w4)" by fastforce
  have e4: "touches 0 {} w3 w4"
    using 4 command_touches(3) [OF touches_host [OF conjunct1 [OF e3]], of P rr w4]
      touches_refl [OF touches_host [OF conjunct1 [OF e3]]] by (cases u) auto
  have t23: "touches 0 (share_slots ?n i (m \<and> u) (a \<and> u) False) w1 w4"
    using touches_trans [OF touches_trans [OF conjunct1 [OF e2] conjunct1 [OF e3]] e4] touches_mono
    by (force simp: share_slots_def)
  have t34: "touches 0 {(IdDir, ?n)} w2 w4" using touches_trans [OF conjunct1 [OF e3] e4] by simp
  have t: "touches 0 (share_slots ?n i m a c) w w4"
    using touches_trans [OF conjunct1 [OF e1] t23] touches_mono by (force simp: share_slots_def)
  have C: "c \<longrightarrow> rc = Inr () \<longrightarrow> slot_at w4 CredDir ?C = None"
    using touches_kept [OF t23, of CredDir ?C] nt e1 stays_None by (metis place.distinct(24) share_slots_simps(3) system_place_simps(4))
  have k: "kept w2 w4 UnitsDir ?A" "kept w2 w4 UnitsDir ?B" using touches_kept [OF t34, of UnitsDir] nt by simp_all
  have AB: "notes1 = [] \<longrightarrow> rc = Inr () \<longrightarrow> (m \<longrightarrow> slot_at w4 UnitsDir ?A = None) \<and> (a \<longrightarrow> slot_at w4 UnitsDir ?B = None)"
    using e2 k stays_None unfolding u_def by (cases rc) fastforce+
  define ns where "ns = (case rc of Inl e \<Rightarrow> [NoteCredential e] | Inr _ \<Rightarrow> []) @ notes1 @
     (case ri of Inl e \<Rightarrow> [NoteRecord e] | Inr _ \<Rightarrow> []) @ (case rr of Inl e \<Rightarrow> [NoteReload e] | Inr _ \<Rightarrow> [])"
  have out: "out = define_failed reason ns" "w' = w4"
    using r 1 2 3 4 unfolding ns_def u_def by (simp_all add: cleanup_define_def Let_def split: prod.splits)
  have n: "ns = [] \<Longrightarrow> rc = Inr () \<and> notes1 = []" unfolding ns_def by (cases rc) simp_all
  have orphan: "kept w w4 UnitsDir ?A \<and> kept w w4 UnitsDir ?B" if "c" "slot_at w4 CredDir ?C \<noteq> None"
  proof -
    have "\<not> u" using C that unfolding u_def by (cases rc) auto
    then have "touches 0 (share_slots ?n i False False c) w w4"
      using touches_trans [OF conjunct1 [OF e1] t23] touches_mono by (force simp: share_slots_def)
    then show ?thesis using touches_kept [of 0 _ w w4 UnitsDir] nt by simp
  qed
  show ?thesis using t out n AB C orphan by blast
qed

section \<open>Defining a share\<close>

lemma written_kept:
  "kept w w' p x \<Longrightarrow> slot_at w p x = Some m \<Longrightarrow> written m content kind \<Longrightarrow> slot_at w' p x = Some m"
  by (auto simp: kept_def written_def)

text \<open>What the end of a define owes to its start: the four slots only; on success both unit files as they
  were and the credential in place, arming having been the last step; no credential without both unit
  files; and after a failure whose cleanup reported nothing, none of the three files.\<close>

definition define_outcome ::
    "'s platform \<Rightarrow> define_input \<Rightarrow> qstring \<Rightarrow> define_output \<Rightarrow> 's world \<Rightarrow> bool" where
  "define_outcome P input i out w' \<longleftrightarrow>
     (out_ok out \<longrightarrow> out_shareId out = i \<and> out_activated out \<and> credential_ready (define_request input i) w' \<and>
        (\<exists>v res. armShare P (define_request input i) v = (res, w') \<and> arm_outcome res \<noteq> NeedsAttention)) \<and>
     (slot_at w' CredDir (fileNameFor i) \<noteq> None \<longrightarrow>
        slot_at w' UnitsDir (in_unitName input @ ''.mount'') \<noteq> None \<and>
        slot_at w' UnitsDir (in_unitName input @ ''.automount'') \<noteq> None) \<and>
     (\<not> out_ok out \<longrightarrow> (\<exists>e notes. out_error out = Some (e, notes) \<and>
        (notes = [] \<longrightarrow> slot_at w' CredDir (fileNameFor i) = None \<and>
           slot_at w' UnitsDir (in_unitName input @ ''.mount'') = None \<and>
           slot_at w' UnitsDir (in_unitName input @ ''.automount'') = None)))"

lemma cleanup_define_outcome:
  assumes h: "host_ok w" and r: "cleanup_define P input i True True c reason w = (out, w')"
    and g: "good_unit_name (in_unitName input)" and i: "isValidShareId i"
    and ab: "slot_at w UnitsDir (in_unitName input @ ''.mount'') \<noteq> None"
      "slot_at w UnitsDir (in_unitName input @ ''.automount'') \<noteq> None"
    and c: "c \<or> slot_at w CredDir (fileNameFor i) = None"
  shows "touches 0 (share_slots (in_unitName input) i True True True) w w' \<and> \<not> out_ok out \<and> define_outcome P input i out w'"
proof -
  note e = cleanup_define_effect [OF h r g i]
  have C: "slot_at w' CredDir (fileNameFor i) = None" if "\<not> c"
    using touches_kept [OF conjunct1 [OF e], of CredDir "fileNameFor i"] that c valid_id_not_temp [OF i] stays_None by auto
  obtain ns where ns: "out = define_failed reason ns"
      "ns = [] \<Longrightarrow> slot_at w' UnitsDir (in_unitName input @ ''.mount'') = None"
      "ns = [] \<Longrightarrow> slot_at w' UnitsDir (in_unitName input @ ''.automount'') = None"
      "ns = [] \<Longrightarrow> slot_at w' CredDir (fileNameFor i) = None"
    using conjunct1 [OF conjunct2 [OF e]] C by (elim exE conjE) (metis (full_types))
  have t: "touches 0 (share_slots (in_unitName input) i True True True) w w'"
    using touches_mono [OF conjunct1 [OF e] share_slots_mono] by simp
  have "slot_at w' UnitsDir (in_unitName input @ ''.mount'') \<noteq> None \<and> slot_at w' UnitsDir (in_unitName input @ ''.automount'') \<noteq> None"
    if some: "slot_at w' CredDir (fileNameFor i) \<noteq> None"
  proof -
    have "c" using C some by (cases c) simp_all
    then have "kept w w' UnitsDir (in_unitName input @ ''.mount'')" "kept w w' UnitsDir (in_unitName input @ ''.automount'')"
      using conjunct2 [OF conjunct2 [OF e]] some by simp_all
    then show ?thesis using stays_Some [OF _ ab(1)] stays_Some [OF _ ab(2)] by simp
  qed
  then show ?thesis using t ns by (simp add: define_outcome_def define_failed_def)
qed

lemma define_arm_outcome:
  assumes h: "host_ok w" and r: "define_arm P input i c w = (out, w')"
    and g: "good_unit_name (in_unitName input)" and i: "isValidShareId i"
    and u: "in_ownerUid input \<noteq> 0" and a: "root_apart w (in_mountPlan input)"
    and ab: "slot_at w UnitsDir (in_unitName input @ ''.mount'') \<noteq> None"
      "slot_at w UnitsDir (in_unitName input @ ''.automount'') \<noteq> None"
    and c: "c \<or> slot_at w CredDir (fileNameFor i) = None"
    and ready: "credential_ready (define_request input i) w"
  shows "touches 0 (share_slots (in_unitName input) i True True True) w w' \<and>
    (out_ok out \<longrightarrow> touches 0 {(IdDir, in_unitName input)} w w') \<and> define_outcome P input i out w'"
proof -
  let ?n = "in_unitName input"
  note nt = good_unit_name_not_temp [OF g] valid_id_not_temp [OF i]
  obtain res w1 where 1: "armShare P (define_request input i) w = (res, w1)" by fastforce
  note s = armShare_result [OF h _ _ 1]
  have t1: "touches 0 {(IdDir, ?n)} w w1" using s u a nt by (simp add: define_request_def)
  have k: "kept w w1 UnitsDir (?n @ ''.mount'')" "kept w w1 UnitsDir (?n @ ''.automount'')" "kept w w1 CredDir (fileNameFor i)"
    using touches_kept [OF t1] nt by simp_all
  have ab1: "slot_at w1 UnitsDir (?n @ ''.mount'') \<noteq> None" "slot_at w1 UnitsDir (?n @ ''.automount'') \<noteq> None"
    using k ab stays_Some by blast+
  have c1: "c \<or> slot_at w1 CredDir (fileNameFor i) = None" using c stays_None [OF k(3)] by (cases c) simp_all
  have S: "{(IdDir, ?n)} \<subseteq> share_slots ?n i True True True" by (simp add: share_slots_def)
  have t: "touches 0 (share_slots ?n i True True True) w w1" using touches_mono [OF t1 S] .
  show ?thesis
  proof (cases "arm_outcome res = NeedsAttention \<and> definitionCleanupSafe res")
    case True
    then have "cleanup_define P input i True True c (DefArm (arm_message res)) w1 = (out, w')"
      using r by (simp add: define_arm_def 1)
    from cleanup_define_outcome [OF touches_host [OF t] this g i ab1 c1]
    show ?thesis using touches_trans [OF t, of 0 "share_slots ?n i True True True" w'] by simp
  next
    case False
    show ?thesis
    proof (cases "arm_outcome res = NeedsAttention")
      case True
      then have "out = define_failed (DefArm (arm_message res)) [NoteRetained]" "w' = w1"
        using r False by (simp_all add: define_arm_def 1)
      then show ?thesis using t ab1 by (simp add: define_outcome_def define_failed_def)
    next
      case no: False
      then have "out = \<lparr>out_ok = True, out_shareId = i, out_error = None, out_activated = True\<rparr>" "w' = w1"
        using r by (simp_all add: define_arm_def 1)
      moreover have "credential_ready (define_request input i) w1"
        using credential_ready_kept [OF _ t1 _ ready] i by (simp add: define_request_def)
      ultimately show ?thesis using t t1 ab1 1 no by (auto simp: define_outcome_def)
    qed
  qed
qed

lemma define_finish_outcome:
  assumes h: "host_ok w" and r: "define_finish P input i w = (out, w')"
    and g: "good_unit_name (in_unitName input)" and i: "isValidShareId i"
    and u: "in_ownerUid input \<noteq> 0" and a: "root_apart w (in_mountPlan input)"
    and ab: "slot_at w UnitsDir (in_unitName input @ ''.mount'') \<noteq> None"
      "slot_at w UnitsDir (in_unitName input @ ''.automount'') \<noteq> None"
    and c: "slot_at w CredDir (fileNameFor i) = None"
  shows "touches 0 (share_slots (in_unitName input) i True True True) w w' \<and>
    (out_ok out \<longrightarrow> touches 0 (share_slots (in_unitName input) i False False True) w w') \<and> define_outcome P input i out w'"
proof -
  let ?n = "in_unitName input" and ?C = "fileNameFor i"
  let ?S = "share_slots ?n i True True True" and ?T = "share_slots ?n i False False True"
  let ?c = "define_authentication input = Credentials"
  note nt = good_unit_name_not_temp [OF g] valid_id_not_temp [OF i]
  have ST: "?T \<subseteq> ?S" "{(CredDir, ?C)} \<subseteq> ?T" "{(IdDir, ?n)} \<subseteq> ?T" "{} \<subseteq> ?T" by (simp_all add: share_slots_def)
  define step :: "(define_error + unit) \<times> 'a world" where
    "step = (if ?c then
              (case write_credential i (in_username input) (in_domain input) (in_password input) w of
                 (Inl e, w1) \<Rightarrow> (Inl (DefCredential e), w1) | (Inr _, w1) \<Rightarrow> (Inr (), w1))
            else
              (case assertAbsent i w of
                 (Inl None, w1) \<Rightarrow> (Inl DefGuestArtifact, w1)
               | (Inl (Some e), w1) \<Rightarrow> (Inl (DefCredential e), w1)
               | (Inr _, w1) \<Rightarrow> (Inr (), w1)))"
  obtain r1 w1 where 1: "step = (r1, w1)" by fastforce
  have s: "touches 0 ?T w w1 \<and> (?c \<or> slot_at w1 CredDir ?C = None) \<and>
      (r1 = Inr () \<longrightarrow> credential_ready (define_request input i) w1)"
  proof (cases ?c)
    case True
    obtain rc wc where wc: "write_credential i (in_username input) (in_domain input) (in_password input) w = (rc, wc)" by fastforce
    have "w1 = wc" "r1 = Inr () \<Longrightarrow> \<not> isl rc" using 1 True wc by (cases rc; auto simp: step_def)+
    then show ?thesis using write_credential_effect [OF h wc] touches_mono [OF _ ST(2)] True
      by (auto simp: credential_ready_def define_request_def healthy_credential_def written_def)
  next
    case False
    obtain rc wc where wc: "assertAbsent i w = (rc, wc)" by fastforce
    note e = assertAbsent_effect [OF h wc]
    have "w1 = wc" using 1 False wc by (cases rc; cases "projl rc"; auto simp: step_def)
    moreover have "slot_at wc CredDir ?C = None"
      using touches_kept [OF conjunct1 [OF e], of CredDir ?C] nt c stays_None by simp
    ultimately show ?thesis using e touches_mono [OF _ ST(4)] False by (auto simp: credential_ready_def define_request_def)
  qed
  have kept_ab: "slot_at v UnitsDir (?n @ ''.mount'') \<noteq> None \<and> slot_at v UnitsDir (?n @ ''.automount'') \<noteq> None"
    if "touches 0 ?T w v" for v :: "'a world"
    using touches_kept [OF that, of UnitsDir] nt stays_Some [OF _ ab(1)] stays_Some [OF _ ab(2)] by simp
  have add: "touches 0 ?S w w'" if "touches 0 ?T w v" "touches 0 ?S v w'" for v
    using touches_trans [OF touches_mono [OF that(1) ST(1)] that(2)] by simp
  have failed: ?thesis if "cleanup_define P input i True True ?c e v = (out, w')" "touches 0 ?T w v"
      "?c \<or> slot_at v CredDir ?C = None" for e v
    using cleanup_define_outcome [OF touches_host [OF that(2)] that(1) g i _ _ that(3)] kept_ab [OF that(2)] add [OF that(2)]
    by simp
  show ?thesis
  proof (cases r1)
    case (Inl e)
    then have "cleanup_define P input i True True ?c e w1 = (out, w')"
      using r 1 by (simp add: define_finish_def step_def [symmetric] Let_def)
    then show ?thesis using failed s by blast
  next
    case (Inr z)
    obtain r2 w2 where 2: "daemonReload P w1 = (r2, w2)" by fastforce
    have t12: "touches 0 {} w1 w2" using command_touches(3) [OF touches_host [OF conjunct1 [OF s]] 2] .
    have t2: "touches 0 ?T w w2" using touches_trans [OF conjunct1 [OF s] t12] by simp
    have c2: "?c \<or> slot_at w2 CredDir ?C = None"
      using s touches_kept [OF t12, of CredDir ?C] nt stays_None by (cases ?c) auto
    have ready: "credential_ready (define_request input i) w2"
      using credential_ready_kept [OF _ t12] s Inr i by (simp add: define_request_def)
    show ?thesis
    proof (cases r2)
      case (Inl e)
      then have "cleanup_define P input i True True ?c (DefReload e) w2 = (out, w')"
        using r 1 2 Inr by (simp add: define_finish_def step_def [symmetric] Let_def)
      then show ?thesis using failed t2 c2 by blast
    next
      case (Inr z2)
      then have "define_arm P input i ?c w2 = (out, w')"
        using r 1 2 \<open>r1 = Inr z\<close> by (simp add: define_finish_def step_def [symmetric] Let_def)
      from define_arm_outcome [OF touches_host [OF t2] this g i u touches_root_apart [OF h t2 a] _ _ c2 ready] kept_ab [OF t2]
      have f: "touches 0 ?S w2 w' \<and> (out_ok out \<longrightarrow> touches 0 {(IdDir, ?n)} w2 w') \<and> define_outcome P input i out w'" by simp
      moreover have "touches 0 ?T w w'" if "out_ok out"
        using f that touches_trans [OF t2 touches_mono [OF _ ST(3)], of 0 w'] by simp
      ultimately show ?thesis using add [OF t2] by simp
    qed
  qed
qed

text \<open>The whole of a define, relative to the world \<open>w\<close> it started in.\<close>

definition define_guarantees ::
    "'s platform \<Rightarrow> define_input \<Rightarrow> qstring \<Rightarrow> define_output \<Rightarrow> 's world \<Rightarrow> 's world \<Rightarrow> bool" where
  "define_guarantees P input i out w w' \<longleftrightarrow>
     touches 0 (share_slots (in_unitName input) i True True True) w w' \<and>
     (out_ok out \<longrightarrow> out_shareId out = i \<and> out_activated out \<and> credential_ready (define_request input i) w' \<and>
        (\<exists>mc ac m a. build_units input i = Inr (mc, ac) \<and>
           slot_at w' UnitsDir (in_unitName input @ ''.mount'') = Some m \<and> written m mc UnitFile \<and>
           slot_at w' UnitsDir (in_unitName input @ ''.automount'') = Some a \<and> written a ac UnitFile) \<and>
        (\<exists>v res. armShare P (define_request input i) v = (res, w') \<and> arm_outcome res \<noteq> NeedsAttention)) \<and>
     (\<not> kept w w' CredDir (fileNameFor i) \<longrightarrow>
        slot_at w' UnitsDir (in_unitName input @ ''.mount'') \<noteq> None \<and>
        slot_at w' UnitsDir (in_unitName input @ ''.automount'') \<noteq> None) \<and>
     (\<not> out_ok out \<longrightarrow> (\<exists>e notes. out_error out = Some (e, notes) \<and>
        (notes = [] \<longrightarrow> kept w w' CredDir (fileNameFor i) \<and>
           (\<forall>x \<in> {in_unitName input @ ''.mount'', in_unitName input @ ''.automount''}.
              slot_at w' UnitsDir x = None \<or> kept w w' UnitsDir x))))"

lemma define_untouched:
  assumes "touches 0 {} w w'" "isValidShareId i" "good_unit_name (in_unitName input)"
  shows "define_guarantees P input i (define_failed e []) w w'"
proof -
  have "kept w w' CredDir (fileNameFor i)" "kept w w' UnitsDir (in_unitName input @ x)" for x
    using touches_kept [OF assms(1)] valid_id_not_temp [OF assms(2)] good_unit_name_not_temp [OF assms(3)] by simp_all
  then show ?thesis using touches_mono [OF assms(1)] by (simp add: define_guarantees_def define_failed_def)
qed

lemma define_install_guarantees:
  assumes h: "host_ok w0" and t0: "touches 1 {} w0 w" and r: "define_install P input i mc ac fd w = (out, w')"
    and d: "absolute w units_dir = Some fd" and b: "build_units input i = Inr (mc, ac)"
    and g: "good_unit_name (in_unitName input)" and i: "isValidShareId i"
    and u: "in_ownerUid input \<noteq> 0" and a: "root_apart w0 (in_mountPlan input)"
    and c: "slot_at w0 CredDir (fileNameFor i) = None"
  shows "define_guarantees P input i out w0 w'"
proof -
  let ?n = "in_unitName input" and ?C = "fileNameFor i"
  let ?A = "?n @ ''.mount''" and ?B = "?n @ ''.automount''"
  note nt = good_unit_name_not_temp [OF g] valid_id_not_temp [OF i]
  obtain r1 w1 where 1: "writeUnitFile fd ?A mc w = (r1, w1)" by fastforce
  note e1 = writeUnitFile_effect [OF touches_host [OF t0] d 1 nt(2)]
  have t1: "touches 1 {(UnitsDir, ?A)} w0 w1" using touches_trans [OF t0 conjunct1 [OF e1]] by simp
  have d1: "absolute w1 units_dir = Some fd" using d e1 touches_absolute by metis
  have closed: "touches 0 S w0 (close_fd v)" if "touches 1 S w0 v" for S v
    using touches_trans [OF that touches_close [OF touches_host [OF that]]] by simp
  have clean: "define_guarantees P input i out w0 w'"
    if r': "cleanup_define P input i True m False e v = (out, w')" and t: "touches 0 (share_slots ?n i True m False) w0 v" for m e v
  proof -
    note f = cleanup_define_effect [OF touches_host [OF t] r' g i]
    obtain ns where ns: "out = define_failed e ns"
        "ns = [] \<longrightarrow> slot_at w' UnitsDir ?A = None \<and> (m \<longrightarrow> slot_at w' UnitsDir ?B = None)" using f by blast
    have tt: "touches 0 (share_slots ?n i True m False) w0 w'" using touches_trans [OF t conjunct1 [OF f]] by simp
    have k: "kept w0 w' CredDir ?C" "\<not> m \<Longrightarrow> kept w0 w' UnitsDir ?B" using touches_kept [OF tt] nt by simp_all
    have "touches 0 (share_slots ?n i True True True) w0 w'" by (rule touches_mono [OF tt share_slots_mono]) simp_all
    then show ?thesis using ns k by (cases m) (simp_all add: define_guarantees_def define_failed_def)
  qed
  show ?thesis
  proof (cases r1)
    case (Inl e)
    then have "cleanup_define P input i True False False (DefWriteUnit e) (close_fd w1) = (out, w')"
      using r by (simp add: define_install_def 1)
    then show ?thesis using clean touches_mono [OF closed [OF t1]] by (simp add: share_slots_def)
  next
    case (Inr z1)
    then obtain m where m: "slot_at w1 UnitsDir ?A = Some m" "written m mc UnitFile" using e1 by auto
    obtain r2 w2 where 2: "writeUnitFile fd ?B ac w1 = (r2, w2)" by fastforce
    note e2 = writeUnitFile_effect [OF touches_host [OF t1] d1 2 nt(2)]
    have t2: "touches 1 (share_slots ?n i True True False) w0 w2"
      using touches_mono [OF touches_trans [OF t1 conjunct1 [OF e2]]] by (simp add: share_slots_def)
    show ?thesis
    proof (cases r2)
      case (Inl e)
      then have "cleanup_define P input i True True False (DefWriteUnit e) (close_fd w2) = (out, w')"
        using r Inr by (simp add: define_install_def 1 2)
      then show ?thesis using clean closed [OF t2] by blast
    next
      case (Inr z2)
      then obtain m2 where m2: "slot_at w2 UnitsDir ?B = Some m2" "written m2 ac UnitFile" using e2 by auto
      have "kept w1 w2 UnitsDir ?A" using touches_kept [OF conjunct1 [OF e2], of UnitsDir ?A] nt by simp
      note m' = written_kept [OF this m]
      have C: "slot_at (close_fd w2) CredDir ?C = None"
        using touches_kept [OF closed [OF t2], of CredDir ?C] nt stays_None c by simp
      have fin: "define_finish P input i (close_fd w2) = (out, w')"
        using r Inr \<open>r1 = Inr z1\<close> by (simp add: define_install_def 1 2)
      have f: "touches 0 (share_slots ?n i True True True) (close_fd w2) w' \<and>
          (out_ok out \<longrightarrow> touches 0 (share_slots ?n i False False True) (close_fd w2) w') \<and> define_outcome P input i out w'"
        using define_finish_outcome [OF touches_host [OF closed [OF t2]] fin g i u touches_root_apart [OF h closed [OF t2] a] _ _ C]
          m' m2 by simp
      have t: "touches 0 (share_slots ?n i True True True) w0 w'"
        using touches_mono [OF touches_trans [OF closed [OF t2] conjunct1 [OF f]]] by (simp add: share_slots_def)
      have ok: "slot_at w' UnitsDir ?A = Some m \<and> slot_at w' UnitsDir ?B = Some m2" if "out_ok out"
      proof -
        have "touches 0 (share_slots ?n i False False True) (close_fd w2) w'" using f that by simp
        then have "kept (close_fd w2) w' UnitsDir ?A" "kept (close_fd w2) w' UnitsDir ?B"
          using touches_kept [of 0 _ "close_fd w2" w' UnitsDir] nt by simp_all
        then show ?thesis using written_kept [of "close_fd w2"] m' m2 m(2) by simp
      qed
      have "kept w0 w' CredDir ?C" if "slot_at w' CredDir ?C = None" using that c by (simp add: kept_def)
      then show ?thesis using t f ok b m(2) m2(2) unfolding define_guarantees_def define_outcome_def by fastforce
    qed
  qed
qed

lemma define_share_outcome:
  assumes "define_share P input w = (out, w')" and "host_ok w" and "in_ownerUid input \<noteq> 0"
    and "root_apart w (in_mountPlan input)" and "good_unit_name (in_unitName input)"
  shows "\<exists>i. isValidShareId i \<and> define_guarantees P input i out w w'"
proof -
  obtain ri w1 where 1: "generateUniqueShareId w = (ri, w1)" by fastforce
  note e1 = try_share_ids_effect [OF assms(2) 1 [unfolded generateUniqueShareId_def]]
  have zero: "isValidShareId (replicate 32 CHR ''0'')" by code_simp
  show ?thesis
  proof (cases ri)
    case None
    then have "out = define_failed DefNoUniqueId []" "w' = w1" using assms(1) by (simp_all add: define_share_def 1)
    then show ?thesis using define_untouched [OF conjunct1 [OF e1] zero assms(5)] zero by blast
  next
    case (Some i)
    then have i: "isValidShareId i" "slot_at w1 CredDir (fileNameFor i) = None" using e1 by simp_all
    have t1: "touches 0 {} w w1" using e1 by simp
    have same: ?thesis if "touches 0 {} w1 w'" "out = define_failed e []" for e
    proof -
      have "touches 0 {} w w'" using touches_trans [OF t1 that(1)] by simp
      then show ?thesis using define_untouched [OF _ i(1) assms(5), of w w' P e] that(2) i(1) by blast
    qed
    obtain r2 w2 where 2: "openUnitsDir w1 = (r2, w2)" by fastforce
    note e2 = openUnitsDir_effect [OF touches_host [OF t1] 2]
    show ?thesis
    proof (cases r2)
      case (Inl e)
      then show ?thesis using same e2 assms(1) Some by (auto simp: define_share_def 1 2)
    next
      case (Inr fd)
      then have t2: "touches 1 {} w1 w2" "absolute w2 units_dir = Some fd" using e2 by simp_all
      obtain r3 w3 where 3: "readUnitFile fd (in_unitName input @ ''.mount'') w2 = (r3, w3)" by fastforce
      obtain r4 w4 where 4: "readUnitFile fd (in_unitName input @ ''.automount'') w3 = (r4, w4)" by fastforce
      have rd: "reads 0 w2 w4" using reads_0_trans [OF readUnitFile_reads [OF 3] readUnitFile_reads [OF 4]] .
      have t4: "touches 1 {} w1 w4" using touches_trans [OF t2(1) reads_touches [OF touches_host [OF t2(1)] rd]] by simp
      have d4: "absolute w4 units_dir = Some fd" using t2(2) rd by (simp add: reads_fields)
      have cl: "touches 0 {} w1 (close_fd w4)" using touches_trans [OF t4 touches_close [OF touches_host [OF t4]]] by simp
      show ?thesis
      proof (cases "(\<not> isl r3 \<or> \<not> isl r4) \<or> isl (build_units input i)")
        case True
        then have "w' = close_fd w4 \<and> (\<exists>e. out = define_failed e [])"
          using assms(1) Some Inr
          by (cases "build_units input i") (auto simp: define_share_def 1 2 3 4 split: if_splits)
        then show ?thesis using same cl by blast
      next
        case False
        then obtain mc ac where b: "build_units input i = Inr (mc, ac)" by (cases "build_units input i") auto
        then have "define_install P input i mc ac fd w4 = (out, w')"
          using assms(1) Some Inr False by (simp add: define_share_def 1 2 3 4)
        moreover have "touches 1 {} w w4" using touches_trans [OF t1 t4] by simp
        moreover have "slot_at w CredDir (fileNameFor i) = None"
          using touches_kept [OF t1, of CredDir "fileNameFor i"] valid_id_not_temp [OF i(1)] i(2)
          by (auto simp: kept_def split: option.splits)
        ultimately show ?thesis
          using define_install_guarantees [OF assms(2) _ _ d4 b assms(5) i(1) assms(3,4)] i(1) by blast
      qed
    qed
  qed
qed

text \<open>C23. \<open>define\<close>, whatever fails on the way: it writes the two unit files, the credential and the record
  of one share with a fresh valid id, and leaves no descriptor open.  When it reports success, both
  unit files hold exactly what was built for the share, the credential is in place (or, for a guest,
  absent), and arming it was the last step.  A credential it created is never there without both unit
  files, so no secret is left that the inventory cannot find.  When it fails and its cleanup has
  nothing to report, the credential is not there and each unit file is gone or as it was before.\<close>
theorem define_share_safe:
  assumes "define_share P input w = (out, w')" and "host_ok w" and "in_ownerUid input \<noteq> 0"
    and "root_apart w (in_mountPlan input)" and "good_unit_name (in_unitName input)"
  shows "\<exists>i. isValidShareId i \<and> define_guarantees P input i out w w'"
  using define_share_outcome [OF assms] .

section \<open>Removing a share\<close>

lemma safeStop_frame:
  assumes "safeStop P name mp what w = (res, w')"
  shows "inodes w' = inodes w" "absolute w' = absolute w" "next_ino w' = next_ino w" "open_fds w' = open_fds w"
proof -
  obtain snap w1 where 1: "inspectRuntime P name mp what w = (snap, w1)" by fastforce
  have rd: "reads 0 w w1" using inspectRuntime_facts [OF 1] by blast
  obtain r1 w2 where 2: "stop_unit P (name @ ''.mount'') w1 = (r1, w2)" by fastforce
  obtain r2 w3 where 3: "stop_unit P (name @ ''.automount'') w2 = (r2, w3)" by fastforce
  have "w' \<in> {w1, w3}"
    using assms by (auto simp: safeStop_def 1 2 3 split: prod.splits StopPrecheck.splits sum.splits)
  then show "inodes w' = inodes w" "absolute w' = absolute w" "next_ino w' = next_ino w" "open_fds w' = open_fds w"
    using stop_unit_result(1-4) [OF 2] stop_unit_result(1-4) [OF 3] reads_fields(1-3,9) [OF rd] by auto
qed

lemma safeStop_touches: "host_ok w \<Longrightarrow> safeStop P name mp what w = (res, w') \<Longrightarrow> touches 0 {} w w'"
  using same_inodes_touches [of w w'] safeStop_frame [of P name mp what w res w'] by simp

text \<open>The two unit files and the record of a share, in the order of the deletions.\<close>

lemma unit_removal:
  assumes h: "host_ok w" and d: "absolute w units_dir = Some fd" and g: "good_unit_name name"
    and 1: "removeUnitFile fd (name @ ''.mount'') w = (r1, w1)"
    and 2: "removeUnitFile fd (name @ ''.automount'') w1 = (r2, w2)"
  shows "touches 0 {(UnitsDir, name @ ''.mount'')} w w1" "touches 0 {(UnitsDir, name @ ''.automount'')} w1 w2"
    "touches 0 {(UnitsDir, name @ ''.mount''), (UnitsDir, name @ ''.automount'')} w w2"
    "r1 = Inr () \<Longrightarrow> slot_at w2 UnitsDir (name @ ''.mount'') = None"
    "r2 = Inr () \<Longrightarrow> slot_at w2 UnitsDir (name @ ''.automount'') = None"
proof -
  note e1 = removeUnitFile_effect [OF h d 1]
  show t1: "touches 0 {(UnitsDir, name @ ''.mount'')} w w1" using e1 by simp
  have d1: "absolute w1 units_dir = Some fd" using d touches_absolute [OF t1] by simp
  note e2 = removeUnitFile_effect [OF touches_host [OF t1] d1 2]
  show t2: "touches 0 {(UnitsDir, name @ ''.automount'')} w1 w2" using e2 by simp
  show "touches 0 {(UnitsDir, name @ ''.mount''), (UnitsDir, name @ ''.automount'')} w w2"
    using touches_mono [OF touches_trans [OF t1 t2]] by simp
  have "kept w1 w2 UnitsDir (name @ ''.mount'')"
    using touches_kept [OF t2] good_unit_name_not_temp [OF g] by simp
  then show "slot_at w2 UnitsDir (name @ ''.mount'') = None" if "r1 = Inr ()" using e1 that stays_None by blast
  show "slot_at w2 UnitsDir (name @ ''.automount'') = None" if "r2 = Inr ()" using e2 that by blast
qed

lemma remove_files_effect:
  assumes h: "host_ok w" and r: "remove_files P input w = (r, w')" and g: "good_unit_name (rem_unitName input)"
  shows "touches 0 (share_slots (rem_unitName input) i True True False) w w' \<and> (\<forall>res e. r \<noteq> Inl (RemStop res e)) \<and>
    (r = Inr () \<longrightarrow> slot_at w' UnitsDir (rem_unitName input @ ''.mount'') = None \<and>
       slot_at w' UnitsDir (rem_unitName input @ ''.automount'') = None \<and> slot_at w' IdDir (rem_unitName input) = None)"
proof -
  let ?n = "rem_unitName input"
  let ?A = "?n @ ''.mount''" and ?B = "?n @ ''.automount''" and ?S = "share_slots (rem_unitName input) i True True False"
  note nt = good_unit_name_not_temp [OF g]
  have S: "{} \<subseteq> ?S" "{(UnitsDir, ?A)} \<subseteq> ?S" "{(UnitsDir, ?A), (UnitsDir, ?B)} \<subseteq> ?S" by (simp_all add: share_slots_def)
  obtain r0 w0 where 0: "openUnitsDir w = (r0, w0)" by fastforce
  note o = openUnitsDir_effect [OF h 0]
  show ?thesis
  proof (cases r0)
    case (Inl e)
    then show ?thesis using r o touches_mono [OF _ S(1)] by (auto simp: remove_files_def 0)
  next
    case (Inr fd)
    then have t0: "touches 1 {} w w0" and d: "absolute w0 units_dir = Some fd" using o by simp_all
    obtain r1 w1 where 1: "removeUnitFile fd ?A w0 = (r1, w1)" by fastforce
    obtain r2 w2 where 2: "removeUnitFile fd ?B w1 = (r2, w2)" by fastforce
    note u = unit_removal [OF touches_host [OF t0] d g 1 2]
    have closed: "touches 0 T w (close_fd v)" if "touches 0 T w0 v" for T v
      using touches_trans [OF touches_trans [OF t0 that] touches_close [OF touches_host [OF that]]] by simp
    note c1 = touches_mono [OF closed [OF u(1)] S(2)] and c2 = touches_mono [OF closed [OF u(3)] S(3)]
    show ?thesis
    proof (cases "isl r1 \<or> isl r2")
      case True
      then have "(w' = close_fd w1 \<or> w' = close_fd w2) \<and> (\<exists>e. r = Inl (RemDurable e))"
        using r Inr by (cases r1; cases r2) (auto simp: remove_files_def 0 1 2)
      then show ?thesis using c1 c2 by auto
    next
      case False
      then have ok: "r1 = Inr ()" "r2 = Inr ()" by (auto simp: isl_unit)
      obtain r3 w3 where 3: "removeAutomountId ?n (close_fd w2) = (r3, w3)" by fastforce
      note e3 = removeAutomountId_effect [OF touches_host [OF c2] 3 nt(1)]
      obtain r4 w4 where 4: "daemonReload P w3 = (r4, w4)" by fastforce
      have t34: "touches 0 {} w3 w4" using command_touches(3) [OF touches_host [OF conjunct1 [OF e3]] 4] .
      have t3: "touches 0 ?S w w3" using touches_mono [OF touches_trans [OF c2 conjunct1 [OF e3]]] by (simp add: share_slots_def)
      have t4: "touches 0 ?S w w4" using touches_trans [OF t3 t34] by simp
      have t24: "touches 0 {(IdDir, ?n)} (close_fd w2) w4" using touches_trans [OF conjunct1 [OF e3] t34] by simp
      have gone: "slot_at w4 UnitsDir ?A = None" "slot_at w4 UnitsDir ?B = None" "r3 = Inr () \<Longrightarrow> slot_at w4 IdDir ?n = None"
        using stays_None [of "close_fd w2" w4 UnitsDir] stays_None [of w3 w4 IdDir ?n] touches_kept [OF t24, of UnitsDir]
          touches_kept [OF t34, of IdDir] nt e3 u(4,5) ok by simp_all
      have "(w' = w3 \<or> w' = w4) \<and> (\<forall>res e. r \<noteq> Inl (RemStop res e)) \<and> (r = Inr () \<longrightarrow> w' = w4 \<and> r3 = Inr ())"
        using r Inr ok by (cases r3; cases r4) (auto simp: remove_files_def 0 1 2 3 4)
      then show ?thesis using t3 t4 gone by auto
    qed
  qed
qed

lemma remove_share_outcome:
  assumes "remove_share P input w = (r, w')" and "host_ok w"
    and "good_unit_name (rem_unitName input)" "isValidShareId (rem_shareId input)"
  shows "touches 0 (share_slots (rem_unitName input) (rem_shareId input) True True True) w w' \<and>
    (\<forall>res e. r = Inl (RemStop res e) \<longrightarrow> inodes w' = inodes w) \<and>
    (slot_at w' CredDir (fileNameFor (rem_shareId input)) \<noteq> None \<longrightarrow>
       kept w w' UnitsDir (rem_unitName input @ ''.mount'') \<and> kept w w' UnitsDir (rem_unitName input @ ''.automount'')) \<and>
    (r = Inr () \<longrightarrow> slot_at w' CredDir (fileNameFor (rem_shareId input)) = None \<and>
       slot_at w' UnitsDir (rem_unitName input @ ''.mount'') = None \<and>
       slot_at w' UnitsDir (rem_unitName input @ ''.automount'') = None \<and> slot_at w' IdDir (rem_unitName input) = None)"
proof -
  let ?n = "rem_unitName input" and ?C = "fileNameFor (rem_shareId input)"
  let ?S = "share_slots (rem_unitName input) (rem_shareId input) True True True"
  note nt = good_unit_name_not_temp [OF assms(3)] valid_id_not_temp [OF assms(4)]
  obtain res e w1 where 1: "safeStop P ?n (rem_mountPoint input) (rem_what input) w = ((res, e), w1)"
    by (metis prod.collapse)
  note fr = safeStop_frame [OF 1] and t1 = safeStop_touches [OF assms(2) 1]
  have none: "kept w v UnitsDir (?n @ x)" if "touches 0 {} w v" for v :: "'a world" and x
    using touches_kept [OF that] nt by simp
  show ?thesis
  proof (cases "res = Busy \<or> res = CorrelationMismatch \<or> res = StopIndeterminate")
    case True
    then have "r = Inl (RemStop res e)" "w' = w1" using assms(1) by (auto simp: remove_share_def 1)
    then show ?thesis using fr touches_mono [OF t1] none [OF t1] by simp
  next
    case False
    obtain rc w2 where 2: "remove_credential (rem_shareId input) True w1 = (rc, w2)" by fastforce
    note e2 = remove_credential_effect [OF touches_host [OF t1] 2]
    have t2: "touches 0 {(CredDir, ?C)} w w2" using touches_trans [OF t1 conjunct1 [OF e2]] by simp
    show ?thesis
    proof (cases rc)
      case (Inl err)
      then have "r = Inl (RemCredential err)" "w' = w2" using assms(1) False by (auto simp: remove_share_def 1 2)
      moreover have "kept w w2 UnitsDir (?n @ x)" for x using touches_kept [OF t2] nt by simp
      moreover have "touches 0 ?S w w2" by (rule touches_mono [OF t2]) (simp add: share_slots_def)
      ultimately show ?thesis by simp
    next
      case (Inr z)
      then have "remove_files P input w2 = (r, w')" using assms(1) False by (auto simp: remove_share_def 1 2)
      note f = remove_files_effect [OF touches_host [OF t2] this assms(3), of "rem_shareId input"]
      have "touches 0 ?S w w'" using touches_mono [OF touches_trans [OF t2 conjunct1 [OF f]]] by (simp add: share_slots_def)
      moreover have "slot_at w' CredDir ?C = None"
        using stays_None [OF touches_kept [OF conjunct1 [OF f], of CredDir ?C]] nt e2 Inr by simp
      ultimately show ?thesis using f by blast
    qed
  qed
qed


section \<open>Purging\<close>

text \<open>
  What is relied on of \<open>systemd-escape\<close>: a name it reports with exit code 0 is a plain file name that
  does not start with a dot (it escapes slashes, and a leading dot).
\<close>

definition good_escape :: "'s platform \<Rightarrow> bool" where
  "good_escape P \<longleftrightarrow> (\<forall>mp out err. systemd_escape P mp = Some (0, out, err) \<longrightarrow> trimmed out \<noteq> [] \<longrightarrow> good_unit_name (trimmed out))"

lemma unitPathsFor_good:
  "good_escape P \<Longrightarrow> unitPathsFor (systemd_escape P) mp = Inr paths \<Longrightarrow> good_unit_name (unitName paths)"
  by (fastforce simp: unitPathsFor_def good_escape_def Let_def split: option.splits prod.splits if_splits)

lemma purge_bases_result:
  "purge_bases u xs = r \<Longrightarrow>
     (\<exists>x \<in> set xs. own_state x = DefTampered \<or> own_uid x \<noteq> u) \<longleftrightarrow> isl r"
proof (induction xs arbitrary: r)
  case (Cons x xs)
  then show ?case by (cases "purge_bases u xs") auto
qed auto

lemma purge_bases_gate: "purge_bases u xs = Inl e \<Longrightarrow> gate_error e"
  by (induction xs) (auto simp: gate_error_def split: sum.splits if_splits)

lemma purge_scan_reads: "purge_scan bases names w = (r, w') \<Longrightarrow> reads 0 w w'"
proof (induction bases names w rule: purge_scan.induct)
  case (2 bases name names w)
  obtain c w1 where 1: "read_listed name w = (c, w1)" by fastforce
  have rd: "reads 0 w w1" using read_listed_reads [OF 1] .
  show ?case
  proof (cases "\<exists>content. c = Some content \<and> unclassified bases name content")
    case True
    then show ?thesis using 2(3) rd by (auto simp: 1)
  next
    case False
    then have "purge_scan bases names w1 = (r, w')" using 2(3) by (cases c) (auto simp: 1)
    moreover have "reads 0 w1 w'" if "purge_scan bases names w1 = (r, w')"
      using 2(1) [OF 1 [symmetric] _ that] 2(2) [OF 1 [symmetric] _ _ that] False by (cases c) auto
    ultimately show ?thesis using rd reads_0_trans by blast
  qed
qed simp

lemma purge_validate_result:
  "purge_validate P u xs w = (r, w') \<Longrightarrow> reads 0 w w' \<and>
     (case r of Inl e \<Rightarrow> gate_error e
      | Inr vs \<Rightarrow> map (\<lambda>v. unitName (snd v)) vs = map own_unitName xs \<and>
          (good_escape P \<longrightarrow> (\<forall>v \<in> set vs. good_unit_name (unitName (snd v)))))"
proof (induction xs arbitrary: w r w')
  case (Cons x xs)
  show ?case
  proof (cases "unitPathsFor (systemd_escape P) (own_mountPoint x)")
    case (Inl e)
    then show ?thesis using Cons.prems by (auto simp: gate_error_def)
  next
    case (Inr paths)
    obtain def w1 where 1: "inspectDefinition paths u (own_mountPoint x) w = (def, w1)" by fastforce
    have rd: "reads 0 w w1" using inspectDefinition_reads [OF 1] .
    obtain r2 w2 where 2: "purge_validate P u xs w1 = (r2, w2)" by fastforce
    note ih = Cons.IH [OF 2]
    have rd2: "reads 0 w w2" using reads_0_trans [OF rd] ih by blast
    show ?thesis
    proof (cases "unitName paths \<noteq> own_unitName x \<or> \<not> purge_agrees u x def \<or> isl r2")
      case True
      then have "(w' = w \<or> w' = w1 \<or> w' = w2) \<and> (\<exists>e. r = Inl e \<and> gate_error e)"
        using Cons.prems Inr ih by (cases r2) (auto simp: 1 2 gate_error_def split: if_splits)
      then show ?thesis using rd rd2 by auto
    next
      case False
      then obtain vs where vs: "r2 = Inr vs" by (cases r2) auto
      then have "r = Inr ((def, paths) # vs)" "w' = w2" using Cons.prems Inr False by (simp_all add: 1 2)
      then show ?thesis using rd2 ih vs False unitPathsFor_good [OF _ Inr] by simp
    qed
  qed
qed simp

lemma purge_stop_frame:
  "purge_stop P vs w = (r, w') \<Longrightarrow> inodes w' = inodes w \<and> absolute w' = absolute w \<and> next_ino w' = next_ino w \<and>
     open_fds w' = open_fds w \<and> (\<forall>e. r = Inl e \<longrightarrow> gate_error e)"
proof (induction P vs w rule: purge_stop.induct)
  case (2 P def paths vs w)
  obtain s e w1 where 1: "safeStop P (unitName paths) (canonicalMountPoint def) (def_what def) w = ((s, e), w1)"
    by (metis prod.collapse)
  show ?case
  proof (cases "s = Busy \<or> s = CorrelationMismatch \<or> s = StopIndeterminate")
    case True
    then show ?thesis using 2(2) safeStop_frame [OF 1] by (auto simp: 1 gate_error_def)
  next
    case False
    then have "purge_stop P vs w1 = (r, w')" using 2(2) by (auto simp: 1)
    then show ?thesis using 2(1) [OF 1 [symmetric] refl] False safeStop_frame [OF 1] by auto
  qed
qed auto

definition share_of :: "definition_check \<times> unit_paths \<Rightarrow> (place \<times> qstring) set" where
  "share_of v = share_slots (unitName (snd v)) (def_id (fst v)) True True True"

lemma purge_one_effect:
  assumes h: "host_ok w" and d: "absolute w units_dir = Some fd" and g: "good_unit_name (unitName (snd v))"
    and r: "purge_one fd v w = (r, w')"
  shows "touches 0 (share_of v) w w' \<and> (\<forall>e. r = Inl e \<longrightarrow> \<not> gate_error e) \<and>
    (r = Inr () \<longrightarrow> slot_at w' UnitsDir (unitName (snd v) @ ''.mount'') = None \<and>
       slot_at w' UnitsDir (unitName (snd v) @ ''.automount'') = None)"
proof -
  let ?n = "unitName (snd v)" and ?C = "fileNameFor (def_id (fst v))"
  note nt = good_unit_name_not_temp [OF g]
  obtain r1 w1 where 1: "removeUnitFile fd (?n @ ''.mount'') w = (r1, w1)" by fastforce
  obtain r2 w2 where 2: "removeUnitFile fd (?n @ ''.automount'') w1 = (r2, w2)" by fastforce
  note u = unit_removal [OF h d g 1 2]
  obtain r3 w3 where 3: "removeAutomountId ?n w2 = (r3, w3)" by fastforce
  note e3 = removeAutomountId_effect [OF touches_host [OF u(3)] 3 nt(1)]
  obtain r4 w4 where 4: "remove_credential (def_id (fst v)) True w3 = (r4, w4)" by fastforce
  note e4 = remove_credential_effect [OF touches_host [OF conjunct1 [OF e3]] 4]
  have t24: "touches 0 {(IdDir, ?n), (CredDir, ?C)} w2 w4"
    using touches_mono [OF touches_trans [OF conjunct1 [OF e3] conjunct1 [OF e4]]] by simp
  have t: "touches 0 (share_of v) w w1" "touches 0 (share_of v) w w2" "touches 0 (share_of v) w w3" "touches 0 (share_of v) w w4"
    using touches_mono [OF u(1), of "share_of v"] touches_mono [OF u(3), of "share_of v"]
      touches_mono [OF touches_trans [OF u(3) conjunct1 [OF e3]], of "share_of v"]
      touches_mono [OF touches_trans [OF u(3) t24], of "share_of v"] by (simp_all add: share_of_def share_slots_def)
  have k: "kept w2 w4 UnitsDir (?n @ x)" for x using touches_kept [OF t24, of UnitsDir] nt by simp
  have "w' \<in> {w1, w2, w3, w4}" "\<forall>e. r = Inl e \<longrightarrow> \<not> gate_error e" "r = Inr () \<Longrightarrow> w' = w4 \<and> r1 = Inr () \<and> r2 = Inr ()"
    using r by (cases r1; cases r2; cases r3; cases r4; auto simp: purge_one_def 1 2 3 4 gate_error_def)+
  then show ?thesis using t stays_None [OF k] u(4,5) by auto
qed

lemma unit_file_names [simp]:
  "(UnitsDir, n @ ''.mount'') \<in> share_slots m i True True True \<longleftrightarrow> n = m"
  "(UnitsDir, n @ ''.automount'') \<in> share_slots m i True True True \<longleftrightarrow> n = m"
  by (auto simp: share_slots_def dest: arg_cong [where f = rev])

lemma purge_shares_effect:
  assumes "host_ok w" "absolute w units_dir = Some fd" "\<forall>v \<in> set vs. good_unit_name (unitName (snd v))"
    "purge_shares fd n vs w = (n', r, w')"
  shows "touches (- 1) (\<Union> (share_of ` set vs)) w w' \<and> (\<forall>e. r = Some e \<longrightarrow> \<not> gate_error e) \<and>
    (r = None \<longrightarrow> n' = n + length vs \<and> (\<forall>v \<in> set vs. slot_at w' UnitsDir (unitName (snd v) @ ''.mount'') = None \<and>
       slot_at w' UnitsDir (unitName (snd v) @ ''.automount'') = None))"
  using assms
proof (induction fd n vs w rule: purge_shares.induct)
  case (1 fd n w)
  then show ?case using touches_close by auto
next
  case (2 fd n v vs w)
  let ?n = "unitName (snd v)" and ?S = "\<Union> (share_of ` set (v # vs))"
  obtain r1 w1 where r1: "purge_one fd v w = (r1, w1)" by fastforce
  have g: "good_unit_name ?n" using 2(4) by simp
  note o = purge_one_effect [OF 2(2,3) g r1]
  show ?case
  proof (cases r1)
    case (Inl e)
    then have "w' = close_fd w1" "r = Some e" using 2(5) by (simp_all add: r1)
    then show ?thesis using o Inl touches_mono [OF touches_trans [OF conjunct1 [OF o] touches_close [OF touches_host [OF conjunct1 [OF o]]]], of ?S]
      by simp
  next
    case (Inr z)
    then have rec: "purge_shares fd (n + 1) vs w1 = (n', r, w')" using 2(5) by (simp add: r1)
    have d1: "absolute w1 units_dir = Some fd" using 2(3) o touches_absolute by metis
    note ih = 2(1) [OF r1 [symmetric] Inr touches_host [OF conjunct1 [OF o]] d1 _ rec]
    have ih': "touches (- 1) (\<Union> (share_of ` set vs)) w1 w'" using ih 2(4) by simp
    have t: "touches (- 1) ?S w w'" using touches_mono [OF touches_trans [OF conjunct1 [OF o] ih'], of ?S] by simp
    have gone: "slot_at w' UnitsDir (?n @ x) = None"
      if "r = None" and x: "x = ''.mount'' \<or> x = ''.automount''" for x
    proof (cases "?n \<in> (\<lambda>v. unitName (snd v)) ` set vs")
      case True
      then show ?thesis using ih 2(4) that by auto
    next
      case False
      then have "(UnitsDir, ?n @ x) \<notin> \<Union> (share_of ` set vs)" using x by (force simp: share_of_def)
      then have "kept w1 w' UnitsDir (?n @ x)" using touches_kept [OF ih'] good_unit_name_not_temp [OF g] by simp
      then show ?thesis using stays_None o Inr x by auto
    qed
    show ?thesis using t ih 2(4) gone by simp
  qed
qed

text \<open>A directory that lost entries and inodes that changed but did not go away.\<close>

definition shrunk :: "nat set \<Rightarrow> 's world \<Rightarrow> 's world \<Rightarrow> bool" where
  "shrunk I w w' \<longleftrightarrow> absolute w' = absolute w \<and> (\<forall>i. inodes w i \<noteq> None \<longrightarrow> inodes w' i \<noteq> None) \<and>
     (\<forall>i. i \<notin> I \<longrightarrow> inodes w' i = inodes w i)"

lemma shrunk_trans: "shrunk I w w1 \<Longrightarrow> shrunk J w1 w' \<Longrightarrow> shrunk (I \<union> J) w w'"
  by (simp add: shrunk_def)

lemma shrunk_reads: "reads k w w' \<Longrightarrow> shrunk {} w w'"
  by (simp add: shrunk_def reads_fields)

lemma shrunk_entry: "shrunk I w w' \<Longrightarrow> d \<notin> I \<Longrightarrow> entry w' d = entry w d"
  by (intro ext) (simp add: shrunk_def entry_def)

lemma shrunk_dir_ok:
  assumes "shrunk I w w'" "dir_ok w d" "\<forall>x. entry w' d x \<in> {None, entry w d x}"
  shows "dir_ok w' d"
proof -
  obtain n where n: "inodes w d = Some n" using assms(2) by (auto simp: dir_ok_def)
  then obtain n' where n': "inodes w' d = Some n'" using assms(1) unfolding shrunk_def by (metis option.distinct(1) option.exhaust)
  have "j \<noteq> d \<and> inodes w' j \<noteq> None" if "map_of (ients n') x = Some j" for x j
  proof -
    have "entry w' d x = Some j" using that n' by (simp add: entry_def)
    then have "entry w d x = Some j" using assms(3) by (metis empty_iff insert_iff option.distinct(1))
    then have "j \<noteq> d \<and> inodes w j \<noteq> None" using assms(2) n by (simp add: dir_ok_def entry_def)
    then show ?thesis using assms(1) by (simp add: shrunk_def)
  qed
  then show ?thesis using n' by (simp add: dir_ok_def)
qed

lemma remove_root_effect:
  assumes "remove_root fd name dk ek w = (r, w')" "dir_ok w fd"
  shows "shrunk ({fd} \<union> set_option (entry w fd name)) w w' \<and> (r = Inr () \<longrightarrow> entry w' fd name = None) \<and>
    (\<forall>x. entry w' fd x \<in> {None, entry w fd x}) \<and> dir_ok w' fd \<and> (\<forall>e. r = Inl e \<longrightarrow> \<not> gate_error e)"
proof -
  obtain r1 w1 where 1: "durableRemoveTree fd name dk ek w = (r1, w1)" by fastforce
  note d = durableRemoveTree_result [OF 1 assms(2)]
  have w': "w' = w1 \<or> w' = close_fd w1" "r = Inr () \<Longrightarrow> r1 = Inr ()" "\<forall>e. r = Inl e \<longrightarrow> \<not> gate_error e"
    using assms(1) by (cases r1; auto simp: remove_root_def 1 gate_error_def)+
  have "shrunk ({fd} \<union> set_option (entry w fd name)) w w1"
    using d durableRemoveTree_env [OF 1] unfolding shrunk_def same_env_def by auto
  then have s: "shrunk ({fd} \<union> set_option (entry w fd name)) w w'" using w'(1) by (auto simp: shrunk_def)
  have e: "entry w' = entry w1" using w'(1) by auto
  have x: "\<forall>x. entry w' fd x \<in> {None, entry w fd x}" using d e by simp
  show ?thesis using s x e d w'(2,3) shrunk_dir_ok [OF s assms(2) x] by simp
qed

lemma purge_roots_effect:
  assumes h: "host_ok w" and r: "purge_roots w = (r, w')"
  shows "(\<forall>e. r = Inl e \<longrightarrow> \<not> gate_error e) \<and>
    (r = Inr () \<longrightarrow> dir_of w' CredDir = None \<and> dir_of w' IdDir = None \<and> dir_of w' LockDir = None \<and>
       (\<forall>x. slot_at w UnitsDir x = None \<longrightarrow> slot_at w' UnitsDir x = None))"
proof -
  obtain r1 w1 where 1: "openSystemRoot ''/etc'' w = (r1, w1)" by fastforce
  note o1 = openSystemRoot_result [OF 1]
  show ?thesis
  proof (cases r1)
    case (Inl e)
    then show ?thesis using r by (auto simp: purge_roots_def 1 gate_error_def)
  next
    case (Inr etc)
    then have etc: "absolute w ''/etc'' = Some etc" and rd1: "reads 1 w w1" using o1 by simp_all
    obtain r2 w2 where 2: "remove_root etc ''nasmount'' DirectoryKind SensitiveFile w1 = (r2, w2)" by fastforce
    have E: "dir_of w EtcDir = Some etc" using etc by simp
    have ok1: "dir_ok w1 etc" using dir_of_ok [OF h E] rd1 by (simp add: dir_ok_def reads_fields)
    note e2 = remove_root_effect [OF 2 ok1]
    have ent1: "entry w1 = entry w" using reads_entry [OF rd1] .
    define I where "I = {etc} \<union> set_option (entry w etc ''nasmount'')"
    have s2: "shrunk I w w2" using shrunk_trans [OF shrunk_reads [OF rd1] conjunct1 [OF e2]] ent1 by (simp add: I_def)
    have I: "d \<notin> I" if "dir_of w p = Some d" "p \<noteq> EtcDir" "p \<noteq> CredDir" for d p
      using dir_of_apart [OF h that(1), of EtcDir] dir_of_apart [OF h that(1), of CredDir] that(2,3) etc
      unfolding I_def by (cases "entry w etc ''nasmount''") (force simp: child_def)+
    obtain r3 w3 where 3: "openSystemRoot ''/run'' (close_fd w2) = (r3, w3)" by fastforce
    note o3 = openSystemRoot_result [OF 3]
    show ?thesis
    proof (cases "\<exists>runFd. r2 = Inr () \<and> r3 = Inr runFd")
      case False
      then show ?thesis using r Inr e2 by (cases r2; cases r3) (auto simp: purge_roots_def 1 2 3 gate_error_def)
    next
      case True
      then obtain run where r23: "r2 = Inr ()" "r3 = Inr run" by blast
      have rd3: "reads 1 (close_fd w2) w3" and run2: "absolute w2 ''/run'' = Some run" using o3 r23 by simp_all
      have w3: "inodes w3 = inodes w2" "absolute w3 = absolute w2" "entry w3 = entry w2"
        using rd3 reads_entry [OF rd3] by (simp_all add: reads_fields)
      have run: "absolute w ''/run'' = Some run" using run2 s2 by (simp add: shrunk_def)
      then have R: "dir_of w RunDir = Some run" by simp
      have s3: "shrunk I w w3" using s2 w3 by (simp add: shrunk_def)
      have rent: "entry w3 run = entry w run" using shrunk_entry [OF s3 I [OF R]] by simp
      have ok3: "dir_ok w3 run" by (rule shrunk_dir_ok [OF s3 dir_of_ok [OF h R]]) (simp add: rent)
      obtain r4 w4 where 4: "remove_root run ''nasmount-ids'' PublicDirectory PublicRecord w3 = (r4, w4)" by fastforce
      note e4 = remove_root_effect [OF 4 ok3]
      obtain r5 w5 where 5: "remove_root run ''nasmount'' DirectoryKind SensitiveFile w4 = (r5, w5)" by fastforce
      have ok4: "dir_ok w4 run" using e4 by blast
      note e5 = remove_root_effect [OF 5 ok4]
      define J where "J = {run} \<union> set_option (entry w run ''nasmount-ids'') \<union> set_option (entry w run ''nasmount'')"
      have "set_option (entry w4 run ''nasmount'') \<subseteq> set_option (entry w run ''nasmount'')"
        using e4 rent by (metis empty_subsetI insertE option.set(1) order_refl singletonD)
      then have J5: "{run} \<union> set_option (entry w3 run ''nasmount-ids'') \<union> ({run} \<union> set_option (entry w4 run ''nasmount'')) \<subseteq> J"
        using rent unfolding J_def by auto
      have "shrunk J w3 w5"
        using shrunk_trans [OF conjunct1 [OF e4] conjunct1 [OF e5]] J5 unfolding shrunk_def by blast
      then have s5: "shrunk (I \<union> J) w w5" using shrunk_trans [OF s3] by blast
      have J: "d \<notin> J" if "dir_of w p = Some d" "p \<noteq> RunDir" "p \<noteq> IdDir" "p \<noteq> LockDir" for d p
        using dir_of_apart [OF h that(1), of RunDir] dir_of_apart [OF h that(1), of IdDir] dir_of_apart [OF h that(1), of LockDir]
          that(2-4) run unfolding J_def by (cases "entry w run ''nasmount''"; cases "entry w run ''nasmount-ids''") (force simp: child_def)+
      have etcJ: "etc \<notin> J" using J [OF E] by simp
      have "entry w5 etc ''nasmount'' = entry w3 etc ''nasmount''"
        using shrunk_entry [OF \<open>shrunk J w3 w5\<close> etcJ] by simp
      then have cred: "entry w5 etc ''nasmount'' = None" using e2 r23(1) w3 by simp
      have units: "slot_at w5 UnitsDir x = None" if "slot_at w UnitsDir x = None" for x
      proof (cases "absolute w units_dir")
        case None
        then show ?thesis using s5 by (simp add: slot_at_def shrunk_def)
      next
        case (Some d)
        then have D: "dir_of w UnitsDir = Some d" by simp
        have "entry w d x = None"
          using that Some dir_of_ok [OF h D]
          by (cases "entry w d x") (fastforce simp: slot_at_def file_at_def dir_ok_def entry_def)+
        moreover have "entry w5 d = entry w d" using shrunk_entry [OF s5] I [OF D] J [OF D] by simp
        ultimately show ?thesis using Some s5 by (simp add: slot_at_def file_at_def shrunk_def)
      qed
      have ids: "r4 = Inr () \<Longrightarrow> entry w5 run ''nasmount-ids'' = None" using e4 e5 by fastforce
      have lock: "r5 = Inr () \<Longrightarrow> entry w5 run ''nasmount'' = None" using e5 by simp
      have abs5: "absolute w5 = absolute w" using s5 by (simp add: shrunk_def)
      have "(\<forall>e. r = Inl e \<longrightarrow> \<not> gate_error e) \<and> (r = Inr () \<longrightarrow> w' = close_fd w5 \<and> r4 = Inr () \<and> r5 = Inr ())"
        using r Inr r23 e4 e5 by (cases r4; cases r5) (auto simp: purge_roots_def 1 2 3 4 5)
      then show ?thesis using cred ids lock units abs5 etc run by (auto simp: child_def)
    qed
  qed
qed


section \<open>The theorems on concrete inputs\<close>

definition nas_input :: define_input where
  "nas_input = \<lparr>in_ownerUid = 1000, in_ownerGid = 1000, in_unc = ''//n/a'', in_mountPoint = ''/home/u/nas'',
     in_unitName = ''b'', in_username = ''u'', in_access = ReadWrite, in_domain = [], in_password = ''p'',
     in_mountPlan = req_plan nas_request\<rparr>"

definition nas_removal :: removal_input where
  "nas_removal = \<lparr>rem_shareId = marker_id golden_marker, rem_mountPoint = ''/home/u/nas'', rem_unitName = ''a'',
     rem_what = ''//n/a''\<rparr>"

lemma nas_inputs_ok:
  "in_ownerUid nas_input \<noteq> 0" "good_unit_name (in_unitName nas_input)" "root_apart nas_host (in_mountPlan nas_input)"
  "good_unit_name (rem_unitName nas_removal)" "isValidShareId (rem_shareId nas_removal)"
proof -
  show "root_apart nas_host (in_mountPlan nas_input)" using nas_host_apart [of "[]" "[]" "[]" False] by (simp add: nas_input_def)
  show "isValidShareId (rem_shareId nas_removal)" by code_simp
qed (simp_all add: nas_input_def nas_removal_def good_unit_name_def)

text \<open>A define on that host.\<close>
theorem define_share_safe_witness:
  "\<exists>i. isValidShareId i \<and> define_guarantees one_unit nas_input i (fst (define_share one_unit nas_input nas_host)) nas_host
     (snd (define_share one_unit nas_input nas_host))"
  using define_share_safe [OF prod.collapse [symmetric] host_world_ok nas_inputs_ok(1,3,2)] .


definition escape_a :: "bool platform" where
  "escape_a = one_unit\<lparr>systemd_escape := \<lambda>s. Some (0, ''a'', [])\<rparr>"


end
