(* ===== verification/Helper.thy ===== *)
theory Helper
  imports Operations "HOL-Library.Code_Target_Nat"
begin

text \<open>
  Model of \<open>src/helper/helper.cpp\<close>, the privileged entry points.  The argument map is a map from keys
  to strings, the uid of the caller is what KAuth reports (negative when it cannot tell).  Every
  action runs under the root lock, which the destructor of the handle releases on every return.
\<close>

type_synonym arguments = "qstring \<rightharpoonup> qstring"

text \<open>\<open>args.value(key).toString()\<close>.\<close>

definition arg :: "arguments \<Rightarrow> qstring \<Rightarrow> qstring" where
  "arg args key = (case args key of None \<Rightarrow> [] | Some v \<Rightarrow> v)"

datatype credential_error = CredControlChars | CredTooLong nat

datatype helper_error =
  HelpLock lock_error | HelpNoCaller | HelpNoAccount uid | HelpMountpoint mountpoint_error | HelpPaths paths_error
| HelpUnc unc_error | HelpAccess | HelpCredential credential_error | HelpGuestFields
| HelpBroken qstring | HelpExists qstring qstring | HelpWalk walk_error
| HelpDefine "(define_error \<times> cleanup_note list) option" | HelpNotOwned qstring qstring
| HelpRemove removal_error | HelpPurge "purge_error option"

datatype reply_message = MsgDefined qstring qstring | MsgUndefined qstring | MsgShares nat | MsgPurged nat

datatype reply_value = ReplyString qstring | ReplyBool bool

datatype action_reply = ReplyError helper_error | ReplyOk reply_message "(qstring \<times> reply_value) list"

definition is_ok :: "action_reply \<Rightarrow> bool" where
  "is_ok r = (case r of ReplyOk _ _ \<Rightarrow> True | ReplyError _ \<Rightarrow> False)"

lemma is_ok_simps [simp]: "is_ok (ReplyOk m kvs)" "\<not> is_ok (ReplyError e)"
  by (simp_all add: is_ok_def)

section \<open>Checks of the arguments\<close>

definition validateCredentialFields :: "qstring \<Rightarrow> qstring \<Rightarrow> qstring \<Rightarrow> credential_error + unit" where
  "validateCredentialFields username domain password =
     (if hasControlChars username \<or> hasControlChars domain \<or> hasControlChars password then Inl CredControlChars
      else if MaxCredentialFieldBytes < length username \<or> MaxCredentialFieldBytes < length domain \<or>
              MaxCredentialFieldBytes < length password then Inl (CredTooLong MaxCredentialFieldBytes)
      else Inr ())"

definition guestFieldsConsistent :: "qstring \<Rightarrow> qstring \<Rightarrow> qstring \<Rightarrow> bool" where
  "guestFieldsConsistent username domain password \<longleftrightarrow> username \<noteq> [] \<or> domain = [] \<and> password = []"

record caller_info =
  caller_uid :: uid
  caller_gid :: gid
  caller_home :: qstring

text \<open>The cast \<open>static_cast<uid_t>(uid)\<close> keeps the lower bits.\<close>

definition resolveCaller :: "'s platform \<Rightarrow> int \<Rightarrow> helper_error + caller_info" where
  "resolveCaller P callerUid =
     (if callerUid < 0 then Inl HelpNoCaller
      else (case passwd P (word_of_int callerUid) of
              None \<Rightarrow> Inl (HelpNoAccount (word_of_int callerUid))
            | Some (u, g, home) \<Rightarrow> Inr \<lparr>caller_uid = u, caller_gid = g, caller_home = home\<rparr>))"

definition prepare ::
    "'s platform \<Rightarrow> int \<Rightarrow> arguments \<Rightarrow> helper_error + caller_info \<times> mountpoint_plan \<times> unit_paths" where
  "prepare P callerUid args =
     (case resolveCaller P callerUid of
        Inl e \<Rightarrow> Inl e
      | Inr caller \<Rightarrow>
     (case validateMountpoint (arg args ''path'') (caller_home caller) of
        Inl e \<Rightarrow> Inl (HelpMountpoint e)
      | Inr plan \<Rightarrow>
     (case unitPathsFor (systemd_escape P) (plan_path plan) of
        Inl e \<Rightarrow> Inl (HelpPaths e)
      | Inr paths \<Rightarrow> Inr (caller, plan, paths))))"

text \<open>An absent mode means read-write, a present one must be known.\<close>

definition requested_access :: "arguments \<Rightarrow> helper_error + AccessMode" where
  "requested_access args =
     (case args ''access'' of
        None \<Rightarrow> Inr ReadWrite
      | Some v \<Rightarrow> (case accessModeFromString v of None \<Rightarrow> Inl HelpAccess | Some a \<Rightarrow> Inr a))"

definition check_fields :: "arguments \<Rightarrow> helper_error + unit" where
  "check_fields args =
     (case validateCredentialFields (arg args ''username'') (arg args ''domain'') (arg args ''password'') of
        Inl e \<Rightarrow> Inl (HelpCredential e)
      | Inr _ \<Rightarrow>
          if \<not> guestFieldsConsistent (arg args ''username'') (arg args ''domain'') (arg args ''password'')
          then Inl HelpGuestFields else Inr ())"

text \<open>Everything that is decided before the definition is looked at.\<close>

definition define_checks ::
    "'s platform \<Rightarrow> int \<Rightarrow> arguments \<Rightarrow>
     helper_error + caller_info \<times> mountpoint_plan \<times> unit_paths \<times> qstring \<times> AccessMode" where
  "define_checks P callerUid args =
     (case prepare P callerUid args of
        Inl e \<Rightarrow> Inl e
      | Inr (caller, plan, paths) \<Rightarrow>
     (case validateUnc (arg args ''unc'') of
        Inl e \<Rightarrow> Inl (HelpUnc e)
      | Inr unc \<Rightarrow>
     (case requested_access args of
        Inl e \<Rightarrow> Inl e
      | Inr acc \<Rightarrow>
     (case check_fields args of
        Inl e \<Rightarrow> Inl e
      | Inr _ \<Rightarrow> Inr (caller, plan, paths, unc, acc)))))"

definition helper_input ::
    "arguments \<Rightarrow> caller_info \<Rightarrow> mountpoint_plan \<Rightarrow> unit_paths \<Rightarrow> qstring \<Rightarrow> AccessMode \<Rightarrow> define_input" where
  "helper_input args caller plan paths unc acc =
     \<lparr>in_ownerUid = caller_uid caller, in_ownerGid = caller_gid caller, in_unc = unc,
      in_mountPoint = plan_path plan, in_unitName = unitName paths, in_username = arg args ''username'',
      in_access = acc, in_domain = arg args ''domain'', in_password = arg args ''password'', in_mountPlan = plan\<rparr>"

section \<open>The actions\<close>

text \<open>What an action does under the lock; \<open>release_lock\<close> is the destructor of the handle.\<close>

definition under_lock :: "('s world \<Rightarrow> action_reply \<times> 's world) \<Rightarrow> 's world \<Rightarrow> action_reply \<times> 's world" where
  "under_lock body w =
     (case acquire w of
        (Inl e, w1) \<Rightarrow> (ReplyError (HelpLock e), w1)
      | (Inr _, w1) \<Rightarrow> (case body w1 of (r, w2) \<Rightarrow> (r, release_lock w2)))"

definition define_body :: "'s platform \<Rightarrow> int \<Rightarrow> arguments \<Rightarrow> 's world \<Rightarrow> action_reply \<times> 's world" where
  "define_body P callerUid args w =
     (case define_checks P callerUid args of
        Inl e \<Rightarrow> (ReplyError e, w)
      | Inr (caller, plan, paths, unc, acc) \<Rightarrow>
     (case inspectDefinition paths (caller_uid caller) (plan_path plan) w of
        (def, w1) \<Rightarrow>
          if def_state def = DefPartial then (ReplyError (HelpBroken (plan_path plan)), w1)
          else if def_state def \<noteq> DefNone
          then (ReplyError (HelpExists (plan_path plan) (or_else (def_detail def) ''a definition already exists'')), w1)
          else
     (case openMountpointNoFollow plan (caller_uid caller) (caller_gid caller) w1 of
        (Inl e, w2) \<Rightarrow> (ReplyError (HelpWalk e), w2)
      | (Inr _, w2) \<Rightarrow>
     (case define_share P (helper_input args caller plan paths unc acc) (close_fd w2) of
        (result, w3) \<Rightarrow>
          if \<not> out_ok result then (ReplyError (HelpDefine (out_error result)), w3)
          else (ReplyOk (MsgDefined unc (plan_path plan))
                  [(''id'', ReplyString (out_shareId result)), (''activated'', ReplyBool (out_activated result))], w3)))))"

definition doDefine :: "'s platform \<Rightarrow> int \<Rightarrow> arguments \<Rightarrow> 's world \<Rightarrow> action_reply \<times> 's world" where
  "doDefine P callerUid args = under_lock (define_body P callerUid args)"

definition undefine_input :: "definition_check \<Rightarrow> mountpoint_plan \<Rightarrow> unit_paths \<Rightarrow> removal_input" where
  "undefine_input def plan paths =
     \<lparr>rem_shareId = def_id def, rem_mountPoint = plan_path plan, rem_unitName = unitName paths, rem_what = def_what def\<rparr>"

definition undefine_body :: "'s platform \<Rightarrow> int \<Rightarrow> arguments \<Rightarrow> 's world \<Rightarrow> action_reply \<times> 's world" where
  "undefine_body P callerUid args w =
     (case prepare P callerUid args of
        Inl e \<Rightarrow> (ReplyError e, w)
      | Inr (caller, plan, paths) \<Rightarrow>
     (case inspectDefinition paths (caller_uid caller) (plan_path plan) w of
        (def, w1) \<Rightarrow>
          if def_state def \<noteq> DefPair \<and> def_state def \<noteq> DefPartial
          then (ReplyError (HelpNotOwned (plan_path plan) (or_else (def_detail def) ''no definition owned by you exists'')), w1)
          else
     (case remove_share P (undefine_input def plan paths) w1 of
        (Inl e, w2) \<Rightarrow> (ReplyError (HelpRemove e), w2)
      | (Inr _, w2) \<Rightarrow> (ReplyOk (MsgUndefined (plan_path plan)) [], w2))))"

definition doUndefine :: "'s platform \<Rightarrow> int \<Rightarrow> arguments \<Rightarrow> 's world \<Rightarrow> action_reply \<times> 's world" where
  "doUndefine P callerUid args = under_lock (undefine_body P callerUid args)"

definition helper_inventory :: "'s platform \<Rightarrow> int \<Rightarrow> 's world \<Rightarrow> action_reply \<times> 's world" where
  "helper_inventory P callerUid =
     under_lock (\<lambda>w. case resolveCaller P callerUid of
        Inl e \<Rightarrow> (ReplyError e, w)
      | Inr caller \<Rightarrow>
     (case buildFor (caller_uid caller) w of
        (records, w1) \<Rightarrow> (ReplyOk (MsgShares (length records)) [(''shares'', ReplyString (toJson records))], w1)))"

definition helper_purge :: "'s platform \<Rightarrow> int \<Rightarrow> 's world \<Rightarrow> action_reply \<times> 's world" where
  "helper_purge P callerUid =
     under_lock (\<lambda>w. case resolveCaller P callerUid of
        Inl e \<Rightarrow> (ReplyError e, w)
      | Inr caller \<Rightarrow>
     (case purge P (caller_uid caller) w of
        (result, w1) \<Rightarrow>
          if \<not> pur_ok result then (ReplyError (HelpPurge (pur_error result)), w1)
          else (ReplyOk (MsgPurged (removedShares result)) [], w1)))"

section \<open>Under the lock\<close>

lemma under_lock_cases:
  assumes "under_lock body w = (r, w')" "host_ok w"
  obtains (refused) e where "r = ReplyError (HelpLock e)" "touches 0 {lock_slot} w w'"
  | (locked) w1 w2 where "touches 1 {lock_slot} w w1" "body w1 = (r, w2)" "w' = close_fd w2"
proof -
  obtain r1 w1 where 1: "acquire w = (r1, w1)" by fastforce
  note a = acquire_effect [OF assms(2) 1]
  obtain r2 w2 where 2: "body w1 = (r2, w2)" by fastforce
  show thesis
    using assms(1) a that by (cases r1) (auto simp: under_lock_def 1 2 release_lock_def)
qed

text \<open>What is assumed of the account of the caller: it is not root, and the roots its mount points may
  be under are none of the directories the shares are kept in.\<close>

definition account_ok :: "'s platform \<Rightarrow> int \<Rightarrow> 's world \<Rightarrow> bool" where
  "account_ok P callerUid w \<longleftrightarrow>
     (\<forall>caller. resolveCaller P callerUid = Inr caller \<longrightarrow> caller_uid caller \<noteq> 0 \<and>
        (\<forall>mp plan. validateMountpoint mp (caller_home caller) = Inr plan \<longrightarrow> root_apart w plan))"

lemma account_ok_touches:
  "host_ok w \<Longrightarrow> touches k S w v \<Longrightarrow> account_ok P callerUid w \<Longrightarrow> account_ok P callerUid v"
  using touches_root_apart unfolding account_ok_def by blast

lemma prepare_facts:
  assumes "prepare P callerUid args = Inr (caller, plan, paths)"
  shows "resolveCaller P callerUid = Inr caller" "validateMountpoint (arg args ''path'') (caller_home caller) = Inr plan"
    "unitPathsFor (systemd_escape P) (plan_path plan) = Inr paths"
    "good_escape P \<Longrightarrow> good_unit_name (unitName paths)"
    "account_ok P callerUid w \<Longrightarrow> caller_uid caller \<noteq> 0 \<and> root_apart w plan"
  using assms unitPathsFor_good by (auto simp: prepare_def account_ok_def split: sum.splits)

lemma define_checks_facts:
  assumes "define_checks P callerUid args = Inr (caller, plan, paths, unc, acc)"
  shows "prepare P callerUid args = Inr (caller, plan, paths)" "validateUnc (arg args ''unc'') = Inr unc"
    "requested_access args = Inr acc" "check_fields args = Inr ()"
  using assms by (auto simp: define_checks_def split: sum.splits)

text \<open>What a define reaches before \<open>define_share\<close>.\<close>

lemma define_body_cases:
  assumes h: "host_ok w" and e: "good_escape P" and a: "account_ok P callerUid w"
    and r: "define_body P callerUid args w = (reply, w')"
  obtains (refused) "\<not> is_ok reply" "touches 0 {} w w'"
  | (defined) caller plan paths unc acc out i w1
    where "define_checks P callerUid args = Inr (caller, plan, paths, unc, acc)" "touches 0 {} w w1"
      "isValidShareId i" "define_guarantees P (helper_input args caller plan paths unc acc) i out w1 w'"
      "is_ok reply \<longleftrightarrow> out_ok out"
      "is_ok reply \<Longrightarrow> reply = ReplyOk (MsgDefined unc (plan_path plan))
         [(''id'', ReplyString (out_shareId out)), (''activated'', ReplyBool (out_activated out))]"
proof (cases "define_checks P callerUid args")
  case (Inl err)
  then show thesis using r refused touches_refl [OF h] by (auto simp: define_body_def)
next
  case (Inr ok)
  then obtain caller plan paths unc acc where ok: "define_checks P callerUid args = Inr (caller, plan, paths, unc, acc)"
    by (cases ok) auto
  note f = define_checks_facts [OF ok] and p = prepare_facts [OF define_checks_facts(1) [OF ok]]
  obtain def w1 where 1: "inspectDefinition paths (caller_uid caller) (plan_path plan) w = (def, w1)" by fastforce
  have t1: "touches 0 {} w w1" using reads_touches [OF h inspectDefinition_reads [OF 1]] .
  obtain r2 w2 where 2: "openMountpointNoFollow plan (caller_uid caller) (caller_gid caller) w1 = (r2, w2)" by fastforce
  have walk: "touches (case r2 of Inl _ \<Rightarrow> 0 | Inr _ \<Rightarrow> 1) {} w1 w2"
    using openMountpointNoFollow_touches [OF touches_host [OF t1] _ touches_root_apart [OF h t1] 2] p(5) [OF a] by simp
  obtain out w3 where 3: "define_share P (helper_input args caller plan paths unc acc) (close_fd w2) = (out, w3)" by fastforce
  show thesis
  proof (cases "def_state def = DefNone")
    case False
    then have "\<not> is_ok reply \<and> w' = w1" using r ok by (auto simp: define_body_def 1 split: if_splits)
    then show thesis using refused t1 by blast
  next
    case none: True
    show thesis
    proof (cases r2)
      case (Inl err)
      then have "\<not> is_ok reply" "w' = w2" using r ok none by (auto simp: define_body_def 1 2)
      then show thesis using refused touches_trans [OF t1 walk] Inl by simp
    next
      case (Inr fd)
      then have "touches 0 {} w (close_fd w2)"
        using touches_trans [OF touches_trans [OF t1 walk] touches_close [OF touches_host [OF walk]]] by simp
      note t2 = this
      have "in_ownerUid (helper_input args caller plan paths unc acc) \<noteq> 0"
          "root_apart (close_fd w2) (in_mountPlan (helper_input args caller plan paths unc acc))"
          "good_unit_name (in_unitName (helper_input args caller plan paths unc acc))"
        using p(4) [OF e] p(5) [OF a] touches_root_apart [OF h t2] by (simp_all add: helper_input_def)
      from define_share_outcome [OF 3 touches_host [OF t2] this] obtain i
        where i: "isValidShareId i" "define_guarantees P (helper_input args caller plan paths unc acc) i out (close_fd w2) w3"
        by blast
      have "w' = w3" "is_ok reply \<longleftrightarrow> out_ok out" "is_ok reply \<Longrightarrow> reply = ReplyOk (MsgDefined unc (plan_path plan))
           [(''id'', ReplyString (out_shareId out)), (''activated'', ReplyBool (out_activated out))]"
        using r ok none Inr by (auto simp: define_body_def 1 2 3 split: if_splits)
      then show thesis using defined [OF ok t2 i(1)] i(2) by blast
    qed
  qed
qed

section \<open>Defining\<close>

lemma units_dir_no_slash: "units_dir @ CHR ''/'' # n = ''/etc/systemd/system/'' @ n"
  by (simp add: units_dir_def)

text \<open>A unit file is found under its path.\<close>

lemma unit_slot_path:
  assumes "CHR ''/'' \<notin> set n" "slot_at w UnitsDir x \<noteq> None"
  shows "file_at_path w (''/etc/systemd/system/'' @ n) = slot_at w UnitsDir n"
proof -
  obtain d where d: "absolute w units_dir = Some d" using assms(2) by (auto simp: slot_at_def split: option.splits)
  have "dir_part (''/etc/systemd/system/'' @ n) = units_dir" "base_part (''/etc/systemd/system/'' @ n) = n"
    using dir_part_append [OF assms(1), of units_dir] base_part_append [OF assms(1), of units_dir]
    by (simp_all add: units_dir_no_slash)
  then show ?thesis using d by (simp add: file_at_path_def resolve_dir_def slot_at_def)
qed

lemma unitPathsFor_paths:
  "unitPathsFor esc mp = Inr paths \<Longrightarrow>
     mountUnitPath paths = ''/etc/systemd/system/'' @ unitName paths @ ''.mount'' \<and>
     automountUnitPath paths = ''/etc/systemd/system/'' @ unitName paths @ ''.automount''"
  by (auto simp: unitPathsFor_def Let_def split: option.splits prod.splits if_splits)

lemma written_unit_safe: "written m content UnitFile \<Longrightarrow> safe_unit_file m \<and> idata m = content"
  by (simp add: written_def safe_unit_file_def)

text \<open>The slots of the two units, seen through their path names.\<close>

lemma unit_files_at_paths:
  assumes "unitPathsFor esc mp = Inr paths" "good_unit_name (unitName paths)"
    and at: "slot_at w UnitsDir (unitName paths @ ''.mount'') = Some m" "slot_at w UnitsDir (unitName paths @ ''.automount'') = Some a"
    and none: "slot_at w UnitsDir (unitName paths @ ''.mount'' @ ''.d'') = None" "slot_at w UnitsDir (unitName paths @ ''.automount'' @ ''.d'') = None"
  shows "file_at_path w (mountUnitPath paths) = Some m" "file_at_path w (automountUnitPath paths) = Some a"
    "file_at_path w (mountUnitPath paths @ ''.d'') = None" "file_at_path w (automountUnitPath paths @ ''.d'') = None"
proof -
  let ?n = "unitName paths"
  have ns: "CHR ''/'' \<notin> set (?n @ x)" if "CHR ''/'' \<notin> set x" for x using assms(2) that by (simp add: good_unit_name_def)
  have F: "file_at_path w (''/etc/systemd/system/'' @ ?n @ x) = slot_at w UnitsDir (?n @ x)" if "CHR ''/'' \<notin> set x" for x
    by (rule unit_slot_path [OF ns [OF that], of w "?n @ ''.mount''"]) (simp add: at)
  show "file_at_path w (mountUnitPath paths) = Some m" "file_at_path w (automountUnitPath paths) = Some a"
    "file_at_path w (mountUnitPath paths @ ''.d'') = None" "file_at_path w (automountUnitPath paths @ ''.d'') = None"
    using unitPathsFor_paths [OF assms(1)] F [of "''.mount''"] F [of "''.automount''"] F [of "''.mount.d''"] F [of "''.automount.d''"] at none
    by simp_all
qed

lemma define_visible:
  assumes "doDefine P callerUid args w = (reply, w')" "is_ok reply"
    and "host_ok w" "good_escape P" "account_ok P callerUid w" "sched w' = []"
    and "\<And>name. slot_at w UnitsDir (name @ ''.mount.d'') = None" "\<And>name. slot_at w UnitsDir (name @ ''.automount.d'') = None"
  shows "\<exists>caller plan paths unc acc i chk.
    define_checks P callerUid args = Inr (caller, plan, paths, unc, acc) \<and>
    reply = ReplyOk (MsgDefined unc (plan_path plan)) [(''id'', ReplyString i), (''activated'', ReplyBool True)] \<and>
    inspectDefinition paths (caller_uid caller) (plan_path plan) w' = (chk, w') \<and>
    def_state chk = DefPair \<and> def_id chk = i \<and> def_what chk = unc \<and> def_access chk = acc \<and>
    def_authentication chk = (if arg args ''username'' = [] then Guest else Credentials) \<and>
    canonicalMountPoint chk = plan_path plan \<and>
    (if arg args ''username'' = [] then slot_at w' CredDir (fileNameFor i) = None \<and> arg args ''domain'' = [] \<and> arg args ''password'' = []
     else healthy_credential w' i)"
  using assms(1) [unfolded doDefine_def] assms(3)
proof (cases rule: under_lock_cases)
  case (refused e)
  then show ?thesis using assms(2) by simp
next
  case (locked w1 w2)
  from touches_host [OF locked(1)] assms(4) account_ok_touches [OF assms(3) locked(1) assms(5)] locked(2) show ?thesis
  proof (cases rule: define_body_cases)
    case refused
    then show ?thesis using assms(2) by simp
  next
    case (defined caller plan paths unc acc out i w0)
    let ?in = "helper_input args caller plan paths unc acc"
    let ?n = "unitName paths"
    note f = define_checks_facts [OF defined(1)] and p = prepare_facts [OF define_checks_facts(1) [OF defined(1)]]
    note g = p(4) [OF assms(4)]
    have ok: "out_ok out" using defined(5) assms(2) by simp
    obtain mc ac m a where d: "out_shareId out = i" "out_activated out" "credential_ready (define_request ?in i) w2"
        "build_units ?in i = Inr (mc, ac)"
        "slot_at w2 UnitsDir (?n @ ''.mount'') = Some m" "written m mc UnitFile"
        "slot_at w2 UnitsDir (?n @ ''.automount'') = Some a" "written a ac UnitFile"
      using defined(4) ok by (auto simp: define_guarantees_def helper_input_def)
    let ?m = "define_marker ?in i"
    have b: "buildMountUnitContent ?m unc (plan_path plan) = Inr mc" "buildAutomountUnitContent ?m (plan_path plan) = Inr ac"
      using d(4) by (simp_all add: build_units_def helper_input_def split: sum.splits)
    have m: "marker_id ?m = i" "ownerUid ?m = caller_uid caller" "access ?m = acc"
        "authentication ?m = (if arg args ''username'' = [] then Guest else Credentials)"
      by (simp_all add: define_marker_def helper_input_def define_authentication_def)
    have t: "touches 1 (insert lock_slot (share_slots ?n i True True True)) w w2"
      using touches_trans [OF locked(1) touches_trans [OF defined(2), of 0 "share_slots ?n i True True True" w2]] defined(4)
      by (simp add: define_guarantees_def helper_input_def)
    have none: "slot_at w' UnitsDir (?n @ x @ ''.d'') = None" if "x \<in> {''.mount'', ''.automount''}" for x
    proof -
      have "(UnitsDir, ?n @ x @ ''.d'') \<notin> insert lock_slot (share_slots ?n i True True True)"
        using that by (auto simp: share_slots_def)
      then have "kept w w2 UnitsDir (?n @ x @ ''.d'')" using touches_kept [OF t] good_unit_name_not_temp [OF g] by simp
      then show ?thesis using that assms(7,8) [of ?n] locked(3) by (auto simp: kept_def)
    qed
    have at: "slot_at w' UnitsDir (?n @ ''.mount'') = Some m" "slot_at w' UnitsDir (?n @ ''.automount'') = Some a"
      using d locked(3) by simp_all
    note files = unit_files_at_paths [OF p(3) g at none none, simplified]
    obtain chk where chk: "inspectDefinition paths (caller_uid caller) (plan_path plan) w' = (chk, w')"
        "def_state chk = DefPair" "def_id chk = i" "def_what chk = unc" "def_access chk = acc" "canonicalMountPoint chk = plan_path plan"
        "def_authentication chk = (if arg args ''username'' = [] then Guest else Credentials)"
      using generated_pair_check [OF _ validateUnc_idem [OF f(2)] b assms(6) files(1) _ _ files(2) _ _ files(3,4)]
        written_unit_safe [OF d(6)] written_unit_safe [OF d(8)] defined(3) m by auto
    have cred: "if arg args ''username'' = [] then slot_at w' CredDir (fileNameFor i) = None else healthy_credential w' i"
      using d(3) locked(3)
      by (cases "arg args ''username'' = []")
        (simp_all add: credential_ready_def define_request_def define_authentication_def helper_input_def healthy_credential_def)
    have "arg args ''username'' = [] \<longrightarrow> arg args ''domain'' = [] \<and> arg args ''password'' = []"
      using f(4) by (auto simp: check_fields_def guestFieldsConsistent_def split: sum.splits if_splits)
    moreover have "reply = ReplyOk (MsgDefined unc (plan_path plan)) [(''id'', ReplyString i), (''activated'', ReplyBool True)]"
      using defined(6) assms(2) d(1,2) by simp
    ultimately show ?thesis using defined(1) chk cred by (cases "arg args ''username'' = []") auto
  qed
qed

text \<open>C26. A define the helper confirms is there for good: the arguments passed every check, the reply
  names the share id, and from then on, as long as no call fails and no drop-in directory was
  planted, inspecting the definition finds a complete pair of the caller with that id, and with the UNC
  path, access mode, authentication and mount point that were asked for.  A share with a user name has its credential in place, one without has none and was asked
  for without password and domain.\<close>
theorem define_is_visible:
  assumes "doDefine P callerUid args w = (reply, w')" "is_ok reply"
    and "host_ok w" "good_escape P" "account_ok P callerUid w" "sched w' = []"
    and "\<And>name. slot_at w UnitsDir (name @ ''.mount.d'') = None" "\<And>name. slot_at w UnitsDir (name @ ''.automount.d'') = None"
  shows "\<exists>caller plan paths unc acc i chk.
    define_checks P callerUid args = Inr (caller, plan, paths, unc, acc) \<and>
    reply = ReplyOk (MsgDefined unc (plan_path plan)) [(''id'', ReplyString i), (''activated'', ReplyBool True)] \<and>
    inspectDefinition paths (caller_uid caller) (plan_path plan) w' = (chk, w') \<and>
    def_state chk = DefPair \<and> def_id chk = i \<and> def_what chk = unc \<and> def_access chk = acc \<and>
    def_authentication chk = (if arg args ''username'' = [] then Guest else Credentials) \<and>
    canonicalMountPoint chk = plan_path plan \<and>
    (if arg args ''username'' = [] then slot_at w' CredDir (fileNameFor i) = None \<and> arg args ''domain'' = [] \<and> arg args ''password'' = []
     else healthy_credential w' i)"
  using define_visible [OF assms] .

section \<open>Undefining\<close>

lemma undefine_effect:
  assumes "doUndefine P callerUid args w = (reply, w')" and "host_ok w" and "good_escape P"
  shows "touches 0 {lock_slot} w w' \<and> \<not> is_ok reply \<or>
    (\<exists>caller plan paths w1 chk. prepare P callerUid args = Inr (caller, plan, paths) \<and> touches 1 {lock_slot} w w1 \<and>
       chk = fst (inspectDefinition paths (caller_uid caller) (plan_path plan) w1) \<and>
       def_state chk \<in> {DefPair, DefPartial} \<and> def_ownerUid chk = caller_uid caller \<and>
       touches 0 (insert lock_slot (share_slots (unitName paths) (def_id chk) True True True)) w w' \<and>
       (is_ok reply \<longrightarrow> slot_at w' CredDir (fileNameFor (def_id chk)) = None \<and>
          slot_at w' UnitsDir (unitName paths @ ''.mount'') = None \<and>
          slot_at w' UnitsDir (unitName paths @ ''.automount'') = None \<and> slot_at w' IdDir (unitName paths) = None))"
  using assms(1) [unfolded doUndefine_def] assms(2)
proof (cases rule: under_lock_cases)
  case (refused e)
  then show ?thesis by simp
next
  case (locked w1 w2)
  note h1 = touches_host [OF locked(1)]
  have early: ?thesis if "touches 0 {} w1 w2" "\<not> is_ok reply"
    using locked_touches [OF locked(1) that(1)] that(2) locked(3) by simp
  show ?thesis
  proof (cases "prepare P callerUid args")
    case (Inl e)
    then show ?thesis using early locked(2) touches_refl [OF h1] by (auto simp: undefine_body_def)
  next
    case (Inr x)
    then obtain caller plan paths where p: "prepare P callerUid args = Inr (caller, plan, paths)" by (cases x) auto
    note g = prepare_facts(4) [OF p assms(3)]
    obtain chk v where 1: "inspectDefinition paths (caller_uid caller) (plan_path plan) w1 = (chk, v)" by fastforce
    note i = inspectDefinition_facts [OF 1]
    have t: "touches 0 {} w1 v" using reads_touches [OF h1] i by blast
    show ?thesis
    proof (cases "def_state chk = DefPair \<or> def_state chk = DefPartial")
      case False
      then have "\<not> is_ok reply" "w2 = v" using locked(2) p by (auto simp: undefine_body_def 1 split: if_splits)
      then show ?thesis using early t by simp
    next
      case True
      obtain r w3 where 2: "remove_share P (undefine_input chk plan paths) v = (r, w3)" by fastforce
      have valid: "def_ownerUid chk = caller_uid caller" "isValidShareId (def_id chk)" using i True by auto
      note o = remove_share_outcome [OF 2 touches_host [OF t]]
      have o': "touches 0 (share_slots (unitName paths) (def_id chk) True True True) v w3"
          "r = Inr () \<Longrightarrow> slot_at w3 CredDir (fileNameFor (def_id chk)) = None \<and>
             slot_at w3 UnitsDir (unitName paths @ ''.mount'') = None \<and>
             slot_at w3 UnitsDir (unitName paths @ ''.automount'') = None \<and> slot_at w3 IdDir (unitName paths) = None"
        using o g valid(2) by (simp_all add: undefine_input_def)
      have "w2 = w3" "is_ok reply \<Longrightarrow> r = Inr ()"
        using locked(2) p True by (auto simp: undefine_body_def 1 2 split: sum.splits)
      moreover have "touches 0 (insert lock_slot (share_slots (unitName paths) (def_id chk) True True True)) w (close_fd w3)"
        using locked_touches [OF locked(1)] touches_trans [OF t o'(1)] by simp
      moreover have "chk = fst (inspectDefinition paths (caller_uid caller) (plan_path plan) w1)" by (simp add: 1)
      ultimately show ?thesis using p locked(1,3) True valid(1) o'(2) by auto
    qed
  qed
qed

text \<open>C27. What undefine may take away: it changes no slot but the lock file, unless the definition at
  that mount point was inspected as belonging to the caller, and then only the slots of that share.
  When it confirms, those are empty.\<close>
theorem undefine_scoped:
  assumes "doUndefine P callerUid args w = (reply, w')" and "host_ok w" and "good_escape P"
  shows "touches 0 {lock_slot} w w' \<and> \<not> is_ok reply \<or>
    (\<exists>caller plan paths w1 chk. prepare P callerUid args = Inr (caller, plan, paths) \<and> touches 1 {lock_slot} w w1 \<and>
       chk = fst (inspectDefinition paths (caller_uid caller) (plan_path plan) w1) \<and>
       def_state chk \<in> {DefPair, DefPartial} \<and> def_ownerUid chk = caller_uid caller \<and>
       touches 0 (insert lock_slot (share_slots (unitName paths) (def_id chk) True True True)) w w' \<and>
       (is_ok reply \<longrightarrow> slot_at w' CredDir (fileNameFor (def_id chk)) = None \<and>
          slot_at w' UnitsDir (unitName paths @ ''.mount'') = None \<and>
          slot_at w' UnitsDir (unitName paths @ ''.automount'') = None \<and> slot_at w' IdDir (unitName paths) = None))"
  using undefine_effect [OF assms] .

section \<open>The theorems on concrete inputs\<close>

text \<open>A write that meets no failure takes everything at once; what is written need not be known.\<close>

lemma write_loop_code [code]:
  "write_loop fd rest w =
     (if rest \<noteq> [] \<and> sched w = [] \<and> inodes w fd \<noteq> None
      then (Inr (), log_event (Ev_Write fd) (set_inode fd ((the (inodes w fd))\<lparr>idata := idata (the (inodes w fd)) @ rest\<rparr>) w))
      else if rest = [] then (Inr (), w)
      else (case write_chunk fd rest w of
        (Inl e, w1) \<Rightarrow> (Inl (Some e), w1)
      | (Inr n, w1) \<Rightarrow> if n = 0 then (Inl None, w1) else write_loop fd (drop n rest) w1))"
proof (cases "rest \<noteq> [] \<and> sched w = [] \<and> inodes w fd \<noteq> None")
  case True
  then show ?thesis
    by (subst write_loop.simps, subst write_loop.simps) (auto simp: write_chunk_def Let_def update_inode_def)
next
  case False
  show ?thesis unfolding if_not_P [OF False] by (subst write_loop.simps) (rule refl)
qed

text \<open>The account of uid 1000, and the requests of the examples.\<close>

definition home_platform :: "bool platform" where
  "home_platform = one_unit\<lparr>passwd := (\<lambda>u. if u = 1000 then Some (1000, 1000, ''/home/u'') else None)\<rparr>"

definition nas_arguments :: arguments where
  "nas_arguments = [''path'' \<mapsto> ''/home/u/nas'', ''unc'' \<mapsto> ''//n/a'', ''username'' \<mapsto> ''u'', ''password'' \<mapsto> ''p'']"

lemma home_platform_escape: "good_escape home_platform"
proof -
  have "trimmed ''b'' = ''b''" by code_simp
  then show ?thesis by (simp add: good_escape_def home_platform_def one_unit_def good_unit_name_def)
qed

definition nas_paths :: unit_paths where
  "nas_paths = \<lparr>unitName = ''b'', mountUnitPath = ''/etc/systemd/system/b.mount'',
     automountUnitPath = ''/etc/systemd/system/b.automount''\<rparr>"

abbreviation nas_caller :: caller_info where
  "nas_caller \<equiv> \<lparr>caller_uid = 1000, caller_gid = 1000, caller_home = ''/home/u''\<rparr>"

abbreviation nas_input' :: define_input where
  "nas_input' \<equiv> helper_input nas_arguments nas_caller (req_plan nas_request) nas_paths ''//n/a'' ReadWrite"

lemma nas_account: "account_ok home_platform 1000 nas_host"
  unfolding account_ok_def
proof (intro allI impI)
  fix caller assume "resolveCaller home_platform 1000 = Inr caller"
  then have c: "caller = nas_caller" by (simp add: resolveCaller_def home_platform_def)
  have "root_apart nas_host plan" if v: "validateMountpoint mp ''/home/u'' = Inr plan" for mp plan
  proof -
    have "match_roots (cleanPath mp) (allowed_roots ''/home/u'') = Some (Inr plan)"
      using v by (auto simp: validateMountpoint_def split: if_splits option.splits)
    moreover have "allowed_roots ''/home/u'' = [''/mnt'', ''/media'', ''/home/u'']" by code_simp
    ultimately have "plan_root plan \<in> {''/mnt'', ''/media'', ''/home/u''}" using match_roots_Inr by fastforce
    then have "follow_path nas_host (plan_root plan) = None \<or> plan_root plan = plan_root (req_plan nas_request)"
      by (auto simp: follow_path_def host_world_def nas_request_def)
    then show ?thesis using nas_host_apart [of "[]" "[]" "[]" False] by (auto simp: root_apart_def)
  qed
  then show "caller_uid caller \<noteq> 0 \<and> (\<forall>mp plan. validateMountpoint mp (caller_home caller) = Inr plan \<longrightarrow> root_apart nas_host plan)"
    by (simp add: c)
qed

text \<open>A define of the example succeeds, whatever the two units contain.\<close>

lemma nas_define_works:
  "is_ok (fst (doDefine home_platform 1000 nas_arguments nas_host)) \<and>
   sched (snd (doDefine home_platform 1000 nas_arguments nas_host)) = []"
proof -
  let ?i = "replicate 32 CHR ''0''" and ?P = home_platform and ?plan = "req_plan nas_request"
  let ?w1 = "snd (acquire nas_host)"
  let ?w2 = "snd (inspectDefinition nas_paths 1000 ''/home/u/nas'' ?w1)"
  let ?w3 = "close_fd (snd (openMountpointNoFollow ?plan 1000 1000 ?w2))"
  let ?w4 = "snd (generateUniqueShareId ?w3)"
  let ?w5 = "snd (openUnitsDir ?w4)"
  let ?w6 = "snd (readUnitFile 3 ''b.mount'' ?w5)"
  let ?w7 = "snd (readUnitFile 3 ''b.automount'' ?w6)"
  let ?b = "build_units nas_input' ?i"
  have 1: "\<not> isl (fst (acquire nas_host))" by code_simp
  have c: "define_checks ?P 1000 nas_arguments = Inr (nas_caller, ?plan, nas_paths, ''//n/a'', ReadWrite)" by code_simp
  have 2: "def_state (fst (inspectDefinition nas_paths 1000 ''/home/u/nas'' ?w1)) = DefNone" by code_simp
  have 3: "\<not> isl (fst (openMountpointNoFollow ?plan 1000 1000 ?w2))" by code_simp
  have 4: "fst (generateUniqueShareId ?w3) = Some ?i" by code_simp
  have 5: "fst (openUnitsDir ?w4) = Inr 3" by code_simp
  have 6: "isl (fst (readUnitFile 3 ''b.mount'' ?w5))" "isl (fst (readUnitFile 3 ''b.automount'' ?w6))" by code_simp+
  have "\<not> isl ?b" "fst (projr ?b) \<noteq> []" "snd (projr ?b) \<noteq> []" by code_simp+
  then obtain x xs y ys where b: "?b = Inr (x # xs, y # ys)" by (cases ?b; cases "fst (projr ?b)"; cases "snd (projr ?b)") auto
  let ?r = "define_install ?P nas_input' ?i (x # xs) (y # ys) 3 ?w7"
  have 7: "out_ok (fst ?r)" "sched (snd ?r) = []" by code_simp+
  have n: "in_unitName nas_input' = ''b''" by (simp add: helper_input_def nas_paths_def)
  have d: "define_share ?P nas_input' ?w3 = ?r"
    using 4 5 6 b by (auto simp: define_share_def n split: prod.splits)
  have p: "plan_path ?plan = ''/home/u/nas''" by (simp add: nas_request_def)
  obtain fd where fd: "fst (openMountpointNoFollow ?plan 1000 1000 ?w2) = Inr fd"
    using 3 by (cases "fst (openMountpointNoFollow ?plan 1000 1000 ?w2)") auto
  have "is_ok (fst (define_body ?P 1000 nas_arguments ?w1)) \<and> sched (snd (define_body ?P 1000 nas_arguments ?w1)) = []"
    using 2 7 fd by (simp add: define_body_def c p d case_prod_beta)
  moreover obtain l where "fst (acquire nas_host) = Inr l" using 1 by (cases "fst (acquire nas_host)") auto
  ultimately show ?thesis by (simp add: doDefine_def under_lock_def release_lock_def case_prod_beta)
qed

text \<open>The define of the example, seen by the next inspection.\<close>
theorem define_is_visible_witness:
  "\<exists>chk. inspectDefinition nas_paths 1000 ''/home/u/nas'' (snd (doDefine home_platform 1000 nas_arguments nas_host)) =
       (chk, snd (doDefine home_platform 1000 nas_arguments nas_host)) \<and>
     def_state chk = DefPair \<and> def_what chk = ''//n/a'' \<and>
     healthy_credential (snd (doDefine home_platform 1000 nas_arguments nas_host)) (def_id chk)"
proof -
  let ?r = "doDefine home_platform 1000 nas_arguments nas_host"
  have c: "define_checks home_platform 1000 nas_arguments = Inr (nas_caller, req_plan nas_request, nas_paths, ''//n/a'', ReadWrite)"
    by code_simp
  have none: "slot_at nas_host UnitsDir (name @ x) = None" if "x = ''.mount.d'' \<or> x = ''.automount.d''" for name x
  proof -
    have "name @ x \<noteq> ''a.mount''" "name @ x \<noteq> ''a.automount''" using that by (auto dest: arg_cong [where f = last])
    then show ?thesis by (simp add: slot_at_def file_at_def entry_def host_world_def dir_inode_def units_dir_def)
  qed
  show ?thesis
    using define_is_visible [OF prod.collapse [symmetric, of ?r] _ host_world_ok home_platform_escape nas_account] nas_define_works
      none c by (fastforce simp: nas_request_def nas_arguments_def arg_def)
qed

text \<open>A caller without an account.\<close>
theorem undefine_scoped_witness:
  "touches 0 {lock_slot} nas_host (snd (doUndefine home_platform 7 nas_arguments nas_host)) \<and>
   \<not> is_ok (fst (doUndefine home_platform 7 nas_arguments nas_host))"
proof -
  let ?r = "doUndefine home_platform 7 nas_arguments nas_host"
  have "prepare home_platform 7 nas_arguments = Inl (HelpNoAccount 7)"
    by (simp add: prepare_def resolveCaller_def home_platform_def)
  then show ?thesis
    using undefine_scoped [OF prod.collapse [symmetric, of ?r] host_world_ok home_platform_escape] by simp
qed

end
