(* ===== verification/HelperInvoke.thy ===== *)
theory HelperInvoke
  imports Helper
begin

text \<open>
  Model of \<open>src/session/helperinvoke.cpp\<close>, the one place the front ends call the helper from.  KAuth is
  a parameter: what a completed job says, and what the call did to the machine.
\<close>

text \<open>\<open>KJob::error()\<close>: the helper's own error reply is - 1, the others are KAuth's.\<close>

datatype job_error =
  HelperErrorReply | NoError | NoResponderError | NoSuchActionError | InvalidActionError | AuthorizationDeniedError
| UserCancelledError | HelperBusyError | AlreadyStartedError | DBusError | BackendError | OtherJobError int

record kauth_job =
  exec_succeeded :: bool
  job_error :: job_error
  job_data :: "(qstring \<times> reply_value) list"
  job_errorText :: qstring

type_synonym 's kauth = "qstring \<Rightarrow> arguments \<Rightarrow> 's world \<Rightarrow> kauth_job \<times> 's world"

datatype HelperOutcome = ConfirmedSuccess | ConfirmedFailure | UnknownOutcome

record helper_result =
  hr_outcome :: HelperOutcome
  hr_rejected :: bool
  hr_message :: qstring
  hr_id :: qstring
  hr_activated :: bool
  hr_data :: "(qstring \<times> reply_value) list"

definition rejectedBeforeDispatch :: "bool \<Rightarrow> job_error \<Rightarrow> bool" where
  "rejectedBeforeDispatch execSucceeded e =
     (if execSucceeded then False
      else (case e of
        AuthorizationDeniedError \<Rightarrow> True | UserCancelledError \<Rightarrow> True | NoSuchActionError \<Rightarrow> True
      | InvalidActionError \<Rightarrow> True | HelperBusyError \<Rightarrow> True | AlreadyStartedError \<Rightarrow> True
      | _ \<Rightarrow> False))"

definition classifyOutcome :: "bool \<Rightarrow> job_error \<Rightarrow> HelperOutcome" where
  "classifyOutcome execSucceeded e =
     (if execSucceeded then ConfirmedSuccess
      else (case e of
        AuthorizationDeniedError \<Rightarrow> ConfirmedFailure | UserCancelledError \<Rightarrow> ConfirmedFailure
      | NoSuchActionError \<Rightarrow> ConfirmedFailure | InvalidActionError \<Rightarrow> ConfirmedFailure
      | HelperBusyError \<Rightarrow> ConfirmedFailure | AlreadyStartedError \<Rightarrow> ConfirmedFailure
      | HelperErrorReply \<Rightarrow> ConfirmedFailure
      | _ \<Rightarrow> UnknownOutcome))"

text \<open>\<open>value(key).toString()\<close> and \<open>toBool()\<close>.\<close>

definition data_text :: "(qstring \<times> reply_value) list \<Rightarrow> qstring \<Rightarrow> qstring" where
  "data_text d key = (case map_of d key of Some (ReplyString s) \<Rightarrow> s | _ \<Rightarrow> [])"

definition data_bool :: "(qstring \<times> reply_value) list \<Rightarrow> qstring \<Rightarrow> bool" where
  "data_bool d key = (case map_of d key of Some (ReplyBool b) \<Rightarrow> b | _ \<Rightarrow> False)"

definition invokeHelperAction :: "'s kauth \<Rightarrow> qstring \<Rightarrow> arguments \<Rightarrow> 's world \<Rightarrow> helper_result \<times> 's world" where
  "invokeHelperAction kauth action args w =
     (case kauth (''io.github.pakru.nasmount.'' @ action) args w of
        (job, w1) \<Rightarrow>
          (let outcome = classifyOutcome (exec_succeeded job) (job_error job);
               rejected = rejectedBeforeDispatch (exec_succeeded job) (job_error job) in
           (if exec_succeeded job
            then \<lparr>hr_outcome = outcome, hr_rejected = rejected, hr_message = data_text (job_data job) ''message'',
                  hr_id = data_text (job_data job) ''id'', hr_activated = data_bool (job_data job) ''activated'',
                  hr_data = job_data job\<rparr>
            else \<lparr>hr_outcome = outcome, hr_rejected = rejected,
                  hr_message = or_else (job_errorText job) ''the operation failed'',
                  hr_id = [], hr_activated = False, hr_data = []\<rparr>), w1))"

lemma rejected_is_failure: "rejectedBeforeDispatch b e \<Longrightarrow> classifyOutcome b e = ConfirmedFailure"
  by (cases e) (auto simp: rejectedBeforeDispatch_def classifyOutcome_def split: if_splits)

lemma confirmed_success: "classifyOutcome b e = ConfirmedSuccess \<longleftrightarrow> b"
  by (cases e) (auto simp: classifyOutcome_def)

end
