(* ===== verification/Boot.thy ===== *)
theory Boot
  imports Operations
begin

text \<open>
  Model of \<open>src/boot/main.cpp\<close>, the service that arms every complete definition when the machine
  starts.  It never fails for one share's sake: what goes wrong is a line of the log, and the run
  goes on.  The lines are constructors with the inputs of the C++ texts; the lock handle is released
  when \<open>main\<close> returns.
\<close>

datatype boot_note =
  BootNoAccount uid | BootMountpoint mountpoint_error | BootNotRederived | BootInvalid qstring
| BootNotArmed "arm_message option"

datatype boot_line =
  LogLock lock_error | LogUnit qstring boot_note | LogSkipped qstring qstring | LogProcessed nat nat

definition boot_request :: "owned_unit \<Rightarrow> mountpoint_plan \<Rightarrow> qstring \<Rightarrow> arm_request" where
  "boot_request unit plan what =
     \<lparr>req_ownerUid = own_uid unit, req_ownerGid = own_gid unit, req_shareId = own_id unit,
      req_authentication = own_authentication unit, req_plan = plan, req_unitName = own_unitName unit,
      req_what = what, req_pathPolicy = BootNoCreate\<rparr>"

definition armOneShare :: "'s platform \<Rightarrow> owned_unit \<Rightarrow> 's world \<Rightarrow> boot_line list \<times> 's world" where
  "armOneShare P unit w =
     (case passwd P (own_uid unit) of
        None \<Rightarrow> ([LogUnit (own_mountPoint unit) (BootNoAccount (own_uid unit))], w)
      | Some (u, g, homeDir) \<Rightarrow>
     (case validateMountpoint (own_mountPoint unit) homeDir of
        Inl e \<Rightarrow> ([LogUnit (own_mountPoint unit) (BootMountpoint e)], w)
      | Inr plan \<Rightarrow>
     (case unitPathsFor (systemd_escape P) (plan_path plan) of
        Inl e \<Rightarrow> ([LogUnit (own_mountPoint unit) BootNotRederived], w)
      | Inr paths \<Rightarrow>
          if unitName paths \<noteq> own_unitName unit then ([LogUnit (own_mountPoint unit) BootNotRederived], w)
          else
     (case inspectDefinition paths (own_uid unit) (plan_path plan) w of
        (def, w1) \<Rightarrow>
          if def_state def \<noteq> DefPair
          then ([LogUnit (plan_path plan) (BootInvalid (or_else (def_detail def) ''failed re-validation''))], w1)
          else
     (case armShare P (boot_request unit plan (def_what def)) w1 of
        (result, w2) \<Rightarrow>
          ((if arm_outcome result = NeedsAttention then [LogUnit (plan_path plan) (BootNotArmed (arm_message result))]
            else []), w2))))))"

definition unit_label :: "owned_unit \<Rightarrow> qstring" where
  "unit_label unit = or_else (own_mountPoint unit) (own_unitName unit)"

text \<open>The loop with its two counters.\<close>

fun boot_units :: "'s platform \<Rightarrow> owned_unit list \<Rightarrow> nat \<Rightarrow> nat \<Rightarrow> 's world \<Rightarrow> boot_line list \<times> 's world" where
  "boot_units P [] attempted skipped w = ([LogProcessed attempted skipped], w)"
| "boot_units P (unit # units) attempted skipped w =
     (if own_state unit \<noteq> DefPair then
        (case boot_units P units attempted (skipped + 1) w of
           (lines, w1) \<Rightarrow>
             (LogSkipped (unit_label unit) (or_else (own_detail unit) ''not a complete, agreeing pair'') # lines, w1))
      else
        (case armOneShare P unit w of
           (line, w1) \<Rightarrow> (case boot_units P units (attempted + 1) skipped w1 of (lines, w2) \<Rightarrow> (line @ lines, w2))))"

text \<open>The exit status, the log, and what the run left behind.\<close>

definition boot_main :: "'s platform \<Rightarrow> 's world \<Rightarrow> (int \<times> boot_line list) \<times> 's world" where
  "boot_main P w =
     (case acquire w of
        (Inl e, w1) \<Rightarrow> ((1, [LogLock e]), w1)
      | (Inr _, w1) \<Rightarrow>
     (case enumerateManagedUnits w1 of
        (units, w2) \<Rightarrow>
     (case boot_units P units 0 0 w2 of
        (lines, w3) \<Rightarrow> ((0, lines), release_lock w3))))"

section \<open>One share\<close>

text \<open>The account of the owner still authorises the mount point, both halves were inspected again, and
  arming them succeeded: now or already before, and if now then the kernel's id of the trigger is on record.\<close>

definition boot_armed :: "'s platform \<Rightarrow> owned_unit \<Rightarrow> 's world \<Rightarrow> bool" where
  "boot_armed P unit w \<longleftrightarrow>
     (\<exists>u g home plan paths v def v1 res v2.
        passwd P (own_uid unit) = Some (u, g, home) \<and> validateMountpoint (own_mountPoint unit) home = Inr plan \<and>
        unitPathsFor (systemd_escape P) (plan_path plan) = Inr paths \<and> unitName paths = own_unitName unit \<and>
        inspectDefinition paths (own_uid unit) (plan_path plan) v = (def, v1) \<and> def_state def = DefPair \<and>
        armShare P (boot_request unit plan (def_what def)) v1 = (res, v2) \<and>
        (arm_outcome res = AlreadyArmed \<or>
         arm_outcome res = Armed \<and> (\<exists>i. i \<noteq> 0 \<and> id_record w (own_unitName unit) = Some i)))"

lemma boot_armed_kept:
  assumes "boot_armed P unit w" "kept w w' IdDir (own_unitName unit)"
  shows "boot_armed P unit w'"
  using assms(1) unfolding boot_armed_def id_record_kept [OF assms(2)] .

lemma boot_armed_name: "good_escape P \<Longrightarrow> boot_armed P unit w \<Longrightarrow> \<not> is_temp_name (own_unitName unit)"
  unfolding boot_armed_def using unitPathsFor_good good_unit_name_not_temp(1) by metis

definition named_in :: "boot_line list \<Rightarrow> owned_unit \<Rightarrow> bool" where
  "named_in lines unit \<longleftrightarrow>
     (\<exists>note. LogUnit (own_mountPoint unit) note \<in> set lines \<or> LogUnit (cleanPath (own_mountPoint unit)) note \<in> set lines)"

lemma plan_path_clean: "validateMountpoint mp home = Inr plan \<Longrightarrow> plan_path plan = cleanPath mp"
  by (auto simp: validateMountpoint_def split: if_splits option.splits dest: match_roots_Inr)

lemma armOneShare_effect:
  assumes h: "host_ok w" and g: "good_escape P" and r: "armOneShare P unit w = (lines, w')"
  shows "touches 0 {(IdDir, own_unitName unit)} w w' \<and> (\<exists>note. lines = [LogUnit (own_mountPoint unit) note] \<or>
      lines = [LogUnit (cleanPath (own_mountPoint unit)) note] \<or> lines = [] \<and> boot_armed P unit w')"
proof -
  let ?S = "{(IdDir, own_unitName unit)}"
  have quiet: "touches 0 ?S w v" if "reads 0 w v" for v
    using touches_mono [OF reads_touches [OF h that]] by simp
  show ?thesis
  proof (cases "\<exists>u g home plan paths. passwd P (own_uid unit) = Some (u, g, home) \<and>
      validateMountpoint (own_mountPoint unit) home = Inr plan \<and>
      unitPathsFor (systemd_escape P) (plan_path plan) = Inr paths \<and> unitName paths = own_unitName unit")
    case False
    then have "w' = w \<and> (\<exists>note. lines = [LogUnit (own_mountPoint unit) note])"
      using r by (auto simp: armOneShare_def split: option.splits prod.splits sum.splits if_splits)
    then show ?thesis using quiet [OF reads_refl] by blast
  next
    case True
    then obtain u g home plan paths where p: "passwd P (own_uid unit) = Some (u, g, home)"
        "validateMountpoint (own_mountPoint unit) home = Inr plan"
        "unitPathsFor (systemd_escape P) (plan_path plan) = Inr paths" "unitName paths = own_unitName unit" by blast
    have x: "\<not> is_temp_name (own_unitName unit)"
      using good_unit_name_not_temp(1) [OF unitPathsFor_good [OF \<open>good_escape P\<close> p(3)]] p(4) by simp
    obtain def w1 where 1: "inspectDefinition paths (own_uid unit) (plan_path plan) w = (def, w1)" by fastforce
    have rd: "reads 0 w w1" using inspectDefinition_facts [OF 1] by blast
    show ?thesis
    proof (cases "def_state def = DefPair")
      case False
      then have "w' = w1" "\<exists>note. lines = [LogUnit (plan_path plan) note]" using r by (auto simp: armOneShare_def p 1)
      then show ?thesis using quiet [OF rd] plan_path_clean [OF p(2)] by auto
    next
      case pair: True
      obtain res w2 where 2: "armShare P (boot_request unit plan (def_what def)) w1 = (res, w2)" by fastforce
      note t1 = reads_touches [OF h rd]
      note s = armShare_result [OF touches_host [OF t1] _ _ 2]
      have t: "touches 0 ?S w w2" using touches_trans [OF t1, of 0 ?S w2] s x by (simp add: boot_request_def)
      have l: "lines = (if arm_outcome res = NeedsAttention then [LogUnit (plan_path plan) (BootNotArmed (arm_message res))] else [])"
          "w' = w2" using r pair by (simp_all add: armOneShare_def p 1 2)
      have "boot_armed P unit w2" if "arm_outcome res \<noteq> NeedsAttention"
      proof -
        have "arm_outcome res = AlreadyArmed \<or> arm_outcome res = Armed" using that by (cases "arm_outcome res") simp_all
        moreover have "\<exists>i. i \<noteq> 0 \<and> id_record w2 (own_unitName unit) = Some i" if "arm_outcome res = Armed"
          using s that x by (simp add: boot_request_def)
        ultimately show ?thesis unfolding boot_armed_def using p 1 2 pair by blast
      qed
      then show ?thesis using t l plan_path_clean [OF p(2)] by auto
    qed
  qed
qed

section \<open>The whole run\<close>

lemma boot_units_effect:
  assumes "host_ok w" "good_escape P" "boot_units P units a s w = (lines, w')" "distinct (map own_unitName units)"
  shows "touches 0 {(IdDir, own_unitName unit) | unit. unit \<in> set units \<and> own_state unit = DefPair} w w' \<and>
    last lines = LogProcessed (a + length (filter (\<lambda>unit. own_state unit = DefPair) units))
      (s + length (filter (\<lambda>unit. own_state unit \<noteq> DefPair) units)) \<and> lines \<noteq> [] \<and>
    (\<forall>unit \<in> set units. own_state unit \<noteq> DefPair \<longrightarrow> (\<exists>why. LogSkipped (unit_label unit) why \<in> set lines)) \<and>
    (\<forall>unit \<in> set units. own_state unit = DefPair \<longrightarrow> named_in lines unit \<or> boot_armed P unit w')"
  using assms
proof (induction P units a s w arbitrary: lines w' rule: boot_units.induct)
  case (1 P a s w)
  then show ?case using touches_refl by auto
next
  case (2 P unit units a s w)
  let ?S = "\<lambda>us. {(IdDir, own_unitName unit) | unit. unit \<in> set us \<and> own_state unit = DefPair}"
  show ?case
  proof (cases "own_state unit = DefPair")
    case False
    obtain l1 w1 where 1: "boot_units P units a (s + 1) w = (l1, w1)" by fastforce
    note ih = "2.IH"(1) [OF False _ _ 1]
    have l: "lines = LogSkipped (unit_label unit) (or_else (own_detail unit) ''not a complete, agreeing pair'') # l1" "w' = w1"
      using "2.prems"(3) False 1 by simp_all
    have "?S (unit # units) = ?S units" using False by auto
    then show ?thesis using ih "2.prems" False l by (auto simp: named_in_def)
  next
    case True
    obtain l1 w1 where 1: "armOneShare P unit w = (l1, w1)" by fastforce
    obtain l2 w2 where 2: "boot_units P units (a + 1) s w1 = (l2, w2)" by fastforce
    note e = armOneShare_effect [OF "2.prems"(1,2) 1]
    have t1: "touches 0 {(IdDir, own_unitName unit)} w w1" using e by blast
    have prems: "distinct (map own_unitName units)" "own_unitName unit \<notin> own_unitName ` set units"
      using "2.prems"(4) by simp_all
    have neg: "\<not> own_state unit \<noteq> DefPair" using True by simp
    note ih = "2.IH"(2) [OF neg 1 [symmetric] touches_host [OF t1] "2.prems"(2) 2 prems(1)]
    have l: "lines = l1 @ l2" "w' = w2" using "2.prems"(3) True 1 2 by simp_all
    have S: "{(IdDir, own_unitName unit)} \<union> ?S units = ?S (unit # units)" using True by auto
    have t: "touches 0 (?S (unit # units)) w w'" using touches_trans [OF t1 conjunct1 [OF ih]] l S by simp
    have "(IdDir, own_unitName unit) \<notin> ?S units" using prems(2) by auto
    then have k: "kept w1 w2 IdDir (own_unitName unit)" if "boot_armed P unit w1"
      using touches_kept [OF conjunct1 [OF ih]] boot_armed_name [OF "2.prems"(2) that] by simp
    have "named_in lines unit \<or> boot_armed P unit w'"
      using e boot_armed_kept [OF _ k] l by (auto simp: named_in_def)
    moreover have "named_in lines v" if "named_in l2 v" for v using that l by (auto simp: named_in_def)
    ultimately show ?thesis using ih t True l by auto
  qed
qed


section \<open>The theorem on a concrete input\<close>

definition boot_platform :: "bool platform" where
  "boot_platform = escape_a\<lparr>passwd := (\<lambda>u. if u = 1000 then Some (1000, 1000, ''/home/tester'') else None)\<rparr>"

abbreviation boot_host :: "bool world" where
  "boot_host \<equiv> host_world golden_mount_unit golden_automount_unit [] False"

lemma boot_host_units:
  "map (\<lambda>unit. (own_state unit, own_mountPoint unit)) (fst (enumerateManagedUnits (snd (acquire boot_host)))) =
     [(DefPair, ''/home/tester/mnt/archive'')]"
  by code_simp

lemma boot_host_owned:
  "map (\<lambda>unit. (own_state unit, own_mountPoint unit, own_access unit)) (fst (enumerateOwnedUnits 1000 boot_host)) =
     [(DefPair, ''/home/tester/mnt/archive'', ReadOnly)]"
  by code_simp


end
