(* ===== verification/Store.thy ===== *)
theory Store
  imports Verify "HOL-Library.AList"
begin

text \<open>
  Model of \<open>src/session/store.cpp\<close>, the user's own records of shares in \<open>nasmountrc\<close>.  KConfig is a
  library the source only calls: its operations on the group \<open>Shares\<close> are the fields of \<open>config_api\<close>,
  over an unknown type of configuration states, and what the source relies on are the laws of the
  locale \<open>kconfig\<close>.  Results carry the state on, since reading may re-read the file.
\<close>

text \<open>A group is named by the share id; \<open>readEntry\<close> gives the default where the entry is missing or, for
  a number, does not read as one.\<close>

record 'c config_api =
  reparseConfiguration :: "'c \<Rightarrow> 'c"
  groupList :: "'c \<Rightarrow> qstring list"
  hasGroup :: "'c \<Rightarrow> qstring \<Rightarrow> bool"
  readText :: "'c \<Rightarrow> qstring \<Rightarrow> qstring \<Rightarrow> qstring option"
  readInt :: "'c \<Rightarrow> qstring \<Rightarrow> qstring \<Rightarrow> int option"
  writeText :: "qstring \<Rightarrow> qstring \<Rightarrow> qstring \<Rightarrow> 'c \<Rightarrow> 'c"
  writeInt :: "qstring \<Rightarrow> qstring \<Rightarrow> int \<Rightarrow> 'c \<Rightarrow> 'c"
  deleteGroup :: "qstring \<Rightarrow> 'c \<Rightarrow> 'c"
  sync :: "'c \<Rightarrow> bool \<times> 'c"

record share =
  sh_id :: qstring
  sh_unc :: qstring
  sh_mountPoint :: qstring
  sh_username :: qstring
  sh_domain :: qstring
  sh_access :: qstring

record snapshot =
  sn_share :: share
  sn_generation :: "64 word"
  sn_exists :: bool
  sn_corrupt :: bool

datatype CommitResult = CommitOk | GenerationConflict | SyncFailed

definition empty_snapshot :: snapshot where
  "empty_snapshot = \<lparr>sn_share = \<lparr>sh_id = [], sh_unc = [], sh_mountPoint = [], sh_username = [], sh_domain = [], sh_access = []\<rparr>,
     sn_generation = 0, sn_exists = False, sn_corrupt = False\<rparr>"

definition text_entry :: "'c config_api \<Rightarrow> 'c \<Rightarrow> qstring \<Rightarrow> qstring \<Rightarrow> qstring \<Rightarrow> qstring" where
  "text_entry K c i key d = (case readText K c i key of None \<Rightarrow> d | Some v \<Rightarrow> v)"

definition readShareFields :: "'c config_api \<Rightarrow> 'c \<Rightarrow> qstring \<Rightarrow> share" where
  "readShareFields K c i =
     \<lparr>sh_id = i, sh_unc = text_entry K c i ''Unc'' [], sh_mountPoint = text_entry K c i ''MountPoint'' [],
      sh_username = text_entry K c i ''Username'' [], sh_domain = text_entry K c i ''Domain'' [],
      sh_access = text_entry K c i ''Access'' ''readwrite''\<rparr>"

definition writeShareFields :: "'c config_api \<Rightarrow> share \<Rightarrow> 'c \<Rightarrow> 'c" where
  "writeShareFields K s c =
     writeText K (sh_id s) ''Access'' (or_else (sh_access s) ''readwrite'')
       (writeText K (sh_id s) ''Domain'' (sh_domain s)
         (writeText K (sh_id s) ''Username'' (sh_username s)
           (writeText K (sh_id s) ''Unc'' (sh_unc s)
             (writeText K (sh_id s) ''MountPoint'' (sh_mountPoint s) c))))"

text \<open>The cast to \<open>quint64\<close> of a missing or unreadable generation is 0.\<close>

definition readSnapshot :: "'c config_api \<Rightarrow> 'c \<Rightarrow> qstring \<Rightarrow> snapshot" where
  "readSnapshot K c i =
     (if \<not> hasGroup K c i then empty_snapshot
      else (let s = readShareFields K c i in
        \<lparr>sn_share = s, sn_generation = word_of_int (case readInt K c i ''Generation'' of None \<Rightarrow> 0 | Some n \<Rightarrow> n),
         sn_exists = True, sn_corrupt = (sh_unc s = [] \<or> sh_mountPoint s = [])\<rparr>))"

definition shareSnapshots :: "'c config_api \<Rightarrow> 'c \<Rightarrow> snapshot list \<times> 'c" where
  "shareSnapshots K c = (let c1 = reparseConfiguration K c in (map (readSnapshot K c1) (groupList K c1), c1))"

definition shares :: "'c config_api \<Rightarrow> 'c \<Rightarrow> share list \<times> 'c" where
  "shares K c = (case shareSnapshots K c of (snaps, c1) \<Rightarrow> (map sn_share (filter (\<lambda>s. \<not> sn_corrupt s) snaps), c1))"

definition snapshotById :: "'c config_api \<Rightarrow> qstring \<Rightarrow> 'c \<Rightarrow> snapshot \<times> 'c" where
  "snapshotById K i c = (let c1 = reparseConfiguration K c in (readSnapshot K c1 i, c1))"

text \<open>\<open>expected + 1\<close> wraps at 64 bits and is written as a signed number.\<close>

definition commitShare :: "'c config_api \<Rightarrow> share \<Rightarrow> 64 word \<Rightarrow> 'c \<Rightarrow> CommitResult \<times> 'c" where
  "commitShare K s expected c =
     (let c1 = reparseConfiguration K c; current = readSnapshot K c1 (sh_id s) in
      if sn_exists current \<noteq> (expected \<noteq> 0) \<or> sn_exists current \<and> sn_generation current \<noteq> expected
      then (GenerationConflict, c1)
      else (case sync K (writeInt K (sh_id s) ''Generation'' (sint (expected + 1)) (writeShareFields K s c1)) of
              (ok, c2) \<Rightarrow> (if ok then CommitOk else SyncFailed, c2)))"

definition removeShare :: "'c config_api \<Rightarrow> qstring \<Rightarrow> 'c \<Rightarrow> bool \<times> 'c" where
  "removeShare K i c =
     (let c1 = reparseConfiguration K c in
      if hasGroup K c1 i then sync K (deleteGroup K i c1) else (True, c1))"

text \<open>The files of the user, as far as this is concerned: does one exist, and can it be removed.\<close>

datatype purge_data_error = NoConfigDirectory | CannotRemoveConfig qstring

definition purgeApplicationData ::
    "qstring \<Rightarrow> (qstring \<Rightarrow> 'f \<Rightarrow> bool) \<Rightarrow> (qstring \<Rightarrow> 'f \<Rightarrow> bool \<times> 'f) \<Rightarrow> 'f \<Rightarrow> (purge_data_error + unit) \<times> 'f" where
  "purgeApplicationData configDir file_exists remove f =
     (if configDir = [] then (Inl NoConfigDirectory, f)
      else (let path = configDir @ ''/nasmountrc'' in
        if \<not> file_exists path f then (Inr (), f)
        else (case remove path f of
                (ok, f1) \<Rightarrow> (if ok then Inr () else Inl (CannotRemoveConfig path), f1))))"

section \<open>What KConfig promises\<close>

text \<open>
  An entry written is the one read back, other entries and groups are left alone; deleting a group
  leaves the others alone; a successful \<open>sync\<close> makes what is in memory what the next \<open>reparse\<close> reads,
  and reparsing twice reads the same.  Nothing is promised of a \<open>sync\<close> that fails.
\<close>

definition same_view :: "'c config_api \<Rightarrow> 'c \<Rightarrow> 'c \<Rightarrow> bool" where
  "same_view K c d \<longleftrightarrow> hasGroup K d = hasGroup K c \<and> readText K d = readText K c \<and> readInt K d = readInt K c"

locale kconfig =
  fixes K :: "'c config_api"
  assumes text_group: "hasGroup K (writeText K i k v c) j \<longleftrightarrow> j = i \<or> hasGroup K c j"
    and text_text: "readText K (writeText K i k v c) j l = (if j = i \<and> l = k then Some v else readText K c j l)"
    and text_int: "(j, l) \<noteq> (i, k) \<Longrightarrow> readInt K (writeText K i k v c) j l = readInt K c j l"
    and int_group: "hasGroup K (writeInt K i k n c) j \<longleftrightarrow> j = i \<or> hasGroup K c j"
    and int_text: "(j, l) \<noteq> (i, k) \<Longrightarrow> readText K (writeInt K i k n c) j l = readText K c j l"
    and int_int: "- (2 ^ 63) \<le> n \<Longrightarrow> n < 2 ^ 63 \<Longrightarrow>
      readInt K (writeInt K i k n c) j l = (if j = i \<and> l = k then Some n else readInt K c j l)"
    and delete_group: "hasGroup K (deleteGroup K i c) j \<longleftrightarrow> j \<noteq> i \<and> hasGroup K c j"
    and delete_text: "j \<noteq> i \<Longrightarrow> readText K (deleteGroup K i c) j l = readText K c j l"
    and delete_int: "j \<noteq> i \<Longrightarrow> readInt K (deleteGroup K i c) j l = readInt K c j l"
    and sync_view: "sync K c = (True, d) \<Longrightarrow> same_view K c (reparseConfiguration K d)"
    and reparse_view: "same_view K (reparseConfiguration K c) (reparseConfiguration K (reparseConfiguration K c))"
    and groups: "set (groupList K c) = {i. hasGroup K c i}" "distinct (groupList K c)"
begin

lemma readSnapshot_view: "same_view K c d \<Longrightarrow> readSnapshot K d = readSnapshot K c"
  by (intro ext) (simp add: same_view_def readSnapshot_def readShareFields_def text_entry_def)

lemma snapshotById_again: "fst (snapshotById K i (reparseConfiguration K c)) = fst (snapshotById K i c)"
  by (simp add: snapshotById_def Let_def readSnapshot_view [OF reparse_view])

lemma sint_range: "- (2 ^ 63) \<le> sint (e :: 64 word)" "sint (e :: 64 word) < 2 ^ 63"
  using sint_ge [of e] sint_lt [of e] by simp_all

lemma readSnapshot_written:
  "readSnapshot K (writeInt K (sh_id s) ''Generation'' (sint (e :: 64 word)) (writeShareFields K s c)) i =
     (if i = sh_id s
      then \<lparr>sn_share = s\<lparr>sh_access := or_else (sh_access s) ''readwrite''\<rparr>, sn_generation = e, sn_exists = True,
            sn_corrupt = (sh_unc s = [] \<or> sh_mountPoint s = [])\<rparr>
      else readSnapshot K c i)"
  by (simp add: readSnapshot_def readShareFields_def writeShareFields_def text_entry_def text_group text_text text_int
      int_group int_text int_int [OF sint_range])

lemma readSnapshot_deleted: "readSnapshot K (deleteGroup K i c) j = (if j = i then empty_snapshot else readSnapshot K c j)"
  by (simp add: readSnapshot_def readShareFields_def text_entry_def delete_group delete_text delete_int)

lemma snapshot_synced:
  "sync K c = (True, d) \<Longrightarrow> fst (snapshotById K i d) = readSnapshot K c i"
  by (simp add: snapshotById_def Let_def readSnapshot_view [OF sync_view])

lemma commit_conflict:
  "fst (commitShare K s e c) = GenerationConflict \<longleftrightarrow>
     (let current = fst (snapshotById K (sh_id s) c) in
      \<not> (if e = 0 then \<not> sn_exists current else sn_exists current \<and> sn_generation current = e))"
  by (auto simp: commitShare_def snapshotById_def Let_def split: prod.splits)

lemma commit_ok:
  assumes "commitShare K s e c = (CommitOk, c')"
  shows "fst (snapshotById K i c') =
    (if i = sh_id s
     then \<lparr>sn_share = s\<lparr>sh_access := or_else (sh_access s) ''readwrite''\<rparr>, sn_generation = e + 1, sn_exists = True,
           sn_corrupt = (sh_unc s = [] \<or> sh_mountPoint s = [])\<rparr>
     else fst (snapshotById K i c))"
proof -
  obtain c1 where "sync K (writeInt K (sh_id s) ''Generation'' (sint (e + 1)) (writeShareFields K s (reparseConfiguration K c))) = (True, c')"
    using assms by (auto simp: commitShare_def Let_def split: prod.splits if_splits)
  from snapshot_synced [OF this, of i] show ?thesis
    unfolding readSnapshot_written by (simp add: snapshotById_def Let_def)
qed

lemma remove_ok:
  assumes "removeShare K i c = (True, c')"
  shows "fst (snapshotById K j c') = (if j = i then empty_snapshot else fst (snapshotById K j c))"
proof (cases "hasGroup K (reparseConfiguration K c) i")
  case True
  then have "sync K (deleteGroup K i (reparseConfiguration K c)) = (True, c')"
    using assms by (simp add: removeShare_def Let_def)
  from snapshot_synced [OF this, of j] show ?thesis
    unfolding readSnapshot_deleted by (simp add: snapshotById_def Let_def)
next
  case False
  then have "c' = reparseConfiguration K c" using assms by (simp add: removeShare_def Let_def)
  then have "fst (snapshotById K j c') = fst (snapshotById K j c)" using snapshotById_again by simp
  moreover have "fst (snapshotById K i c) = empty_snapshot" using False by (simp add: snapshotById_def readSnapshot_def Let_def)
  ultimately show ?thesis by simp
qed

end

text \<open>C30. Commits are compare-and-swap, so no update is lost: a commit is refused exactly when the record
  is not as the caller expects it, absent for 0 and of that very generation otherwise, and then all
  records read as before.  A commit reported as done is what every later read returns, with an empty
  access mode normalised and the next generation; no other record changes; and a second commit that
  expects the same generation is refused.\<close>
theorem commit_compare_and_swap:
  assumes "kconfig K" and "commitShare K s e c = (r, c')"
  shows "(r = GenerationConflict \<longleftrightarrow>
      (let current = fst (snapshotById K (sh_id s) c) in
       \<not> (if e = 0 then \<not> sn_exists current else sn_exists current \<and> sn_generation current = e))) \<and>
    (r = GenerationConflict \<longrightarrow> (\<forall>i. fst (snapshotById K i c') = fst (snapshotById K i c))) \<and>
    (r = CommitOk \<longrightarrow>
      fst (snapshotById K (sh_id s) c') =
        \<lparr>sn_share = s\<lparr>sh_access := or_else (sh_access s) ''readwrite''\<rparr>, sn_generation = e + 1, sn_exists = True,
         sn_corrupt = (sh_unc s = [] \<or> sh_mountPoint s = [])\<rparr> \<and>
      (\<forall>i. i \<noteq> sh_id s \<longrightarrow> fst (snapshotById K i c') = fst (snapshotById K i c)) \<and>
      (\<forall>s'. sh_id s' = sh_id s \<longrightarrow> fst (commitShare K s' e c') = GenerationConflict))"
proof (intro conjI impI)
  have r: "r = fst (commitShare K s e c)" using assms(2) by simp
  show "r = GenerationConflict \<longleftrightarrow> (let current = fst (snapshotById K (sh_id s) c) in
       \<not> (if e = 0 then \<not> sn_exists current else sn_exists current \<and> sn_generation current = e))"
    unfolding r by (rule kconfig.commit_conflict [OF assms(1)])
  show "\<forall>i. fst (snapshotById K i c') = fst (snapshotById K i c)" if "r = GenerationConflict"
    using assms(2) that kconfig.snapshotById_again [OF assms(1), of _ c]
    by (auto simp: commitShare_def Let_def split: if_splits prod.splits)
  assume "r = CommitOk"
  note ok = kconfig.commit_ok [OF assms(1) assms(2) [unfolded this]]
  show "fst (snapshotById K (sh_id s) c') = \<lparr>sn_share = s\<lparr>sh_access := or_else (sh_access s) ''readwrite''\<rparr>,
      sn_generation = e + 1, sn_exists = True, sn_corrupt = (sh_unc s = [] \<or> sh_mountPoint s = [])\<rparr>"
    unfolding ok by simp
  show "\<forall>i. i \<noteq> sh_id s \<longrightarrow> fst (snapshotById K i c') = fst (snapshotById K i c)"
    unfolding ok by simp
  show "\<forall>s'. sh_id s' = sh_id s \<longrightarrow> fst (commitShare K s' e c') = GenerationConflict"
  proof (intro allI impI)
    fix s' :: share assume "sh_id s' = sh_id s"
    then show "fst (commitShare K s' e c') = GenerationConflict"
      unfolding kconfig.commit_conflict [OF assms(1)] ok Let_def by simp
  qed
qed

section \<open>An implementation of the interface\<close>

text \<open>
  Groups of entries in memory and on disk, every entry a text.  The file is written as a whole by
  \<open>sync\<close>, unless the next fault says it cannot be; then what is in memory is lost with the next
  \<open>reparse\<close>.
\<close>

type_synonym config_groups = "(qstring \<times> (qstring \<times> qstring) list) list"

record file_state =
  in_memory :: config_groups
  on_disk :: config_groups
  sync_works :: "bool list"

definition int_text :: "int \<Rightarrow> qstring" where
  "int_text n = (if n < 0 then CHR ''-'' # decimal (nat (- n)) else decimal (nat n))"

lemma to_llong_int_text: "- (2 ^ 63) \<le> n \<Longrightarrow> n < 2 ^ 63 \<Longrightarrow> to_llong (int_text n) = Some n"
  using to_llong_decimal [of "nat n"] by (auto simp: int_text_def to_llong_def)

definition set_entry :: "qstring \<Rightarrow> qstring \<Rightarrow> qstring \<Rightarrow> config_groups \<Rightarrow> config_groups" where
  "set_entry i k v gs = AList.update i (AList.update k v (case map_of gs i of None \<Rightarrow> [] | Some es \<Rightarrow> es)) gs"

definition get_entry :: "config_groups \<Rightarrow> qstring \<Rightarrow> qstring \<Rightarrow> qstring option" where
  "get_entry gs i k = (case map_of gs i of None \<Rightarrow> None | Some es \<Rightarrow> map_of es k)"

lemma set_entry_simps [simp]:
  "get_entry (set_entry i k v gs) j l = (if j = i \<and> l = k then Some v else get_entry gs j l)"
  "(\<exists>es. map_of (set_entry i k v gs) j = Some es) \<longleftrightarrow> j = i \<or> (\<exists>es. map_of gs j = Some es)"
  by (auto simp: set_entry_def get_entry_def update_conv' split: option.splits)

lemma delete_simps [simp]:
  "(\<exists>es. map_of (AList.delete i gs) j = Some es) \<longleftrightarrow> j \<noteq> i \<and> (\<exists>es. map_of gs j = Some es)"
  "j \<noteq> i \<Longrightarrow> get_entry (AList.delete i gs) j l = get_entry gs j l"
  by (auto simp: get_entry_def delete_conv')

lemma group_names_entries: "fst ` set gs = {i. \<exists>es. map_of gs i = Some es}"
proof (intro set_eqI)
  fix i show "i \<in> fst ` set gs \<longleftrightarrow> i \<in> {i. \<exists>es. map_of gs i = Some es}"
    using map_of_eq_None_iff [of gs i] by (cases "map_of gs i") simp_all
qed

definition file_config :: "file_state config_api" where
  "file_config =
     \<lparr>reparseConfiguration = (\<lambda>c. c\<lparr>in_memory := on_disk c\<rparr>),
      groupList = (\<lambda>c. remdups (map fst (in_memory c))),
      hasGroup = (\<lambda>c i. map_of (in_memory c) i \<noteq> None),
      readText = (\<lambda>c. get_entry (in_memory c)),
      readInt = (\<lambda>c i k. Option.bind (get_entry (in_memory c) i k) to_llong),
      writeText = (\<lambda>i k v c. c\<lparr>in_memory := set_entry i k v (in_memory c)\<rparr>),
      writeInt = (\<lambda>i k n c. c\<lparr>in_memory := set_entry i k (int_text n) (in_memory c)\<rparr>),
      deleteGroup = (\<lambda>i c. c\<lparr>in_memory := AList.delete i (in_memory c)\<rparr>),
      sync = (\<lambda>c. case sync_works c of
                False # rest \<Rightarrow> (False, c\<lparr>sync_works := rest\<rparr>)
              | True # rest \<Rightarrow> (True, c\<lparr>on_disk := in_memory c, sync_works := rest\<rparr>)
              | [] \<Rightarrow> (True, c\<lparr>on_disk := in_memory c\<rparr>))\<rparr>"

interpretation file_config: kconfig file_config
proof unfold_locales
  fix c d :: file_state
  assume "sync file_config c = (True, d)"
  then show "same_view file_config c (reparseConfiguration file_config d)"
    by (auto simp: file_config_def same_view_def split: list.splits bool.splits)
qed (auto simp: file_config_def same_view_def to_llong_int_text group_names_entries)

text \<open>Two commits of the same new record.\<close>
theorem commit_compare_and_swap_witness:
  "let s = \<lparr>sh_id = ''i'', sh_unc = ''//n/a'', sh_mountPoint = ''/mnt/a'', sh_username = [], sh_domain = [], sh_access = []\<rparr>;
       c = \<lparr>in_memory = [], on_disk = [], sync_works = []\<rparr>; c' = snd (commitShare file_config s 0 c) in
   sn_generation (fst (snapshotById file_config ''i'' c')) = 1 \<and> fst (commitShare file_config s 0 c') = GenerationConflict"
proof -
  let ?s = "\<lparr>sh_id = ''i'', sh_unc = ''//n/a'', sh_mountPoint = ''/mnt/a'', sh_username = [], sh_domain = [], sh_access = []\<rparr>"
  let ?r = "commitShare file_config ?s 0 \<lparr>in_memory = [], on_disk = [], sync_works = []\<rparr>"
  have "fst ?r = CommitOk" by code_simp
  then show ?thesis
    using commit_compare_and_swap [OF file_config.kconfig_axioms prod.collapse [symmetric, of ?r]] by (simp add: Let_def)
qed

end
