(* ===== verification/ShareAddress.thy ===== *)
theory ShareAddress
  imports UnitInputs
begin

text \<open>
  Model of \<open>src/session/shareaddress.cpp\<close>: from what a user types or picks to the \<open>//host/share\<close> form
  the helper takes, and back to the \<open>smb://\<close> form the list shows.  QUrl is Qt's: how a text parses, and
  which url its setters build, are parameters collected in the record \<open>qt\<close>, as is the case folding
  behind \<open>Qt::CaseInsensitive\<close>.  Errors are constructors, one per message.
\<close>

text \<open>What the accessors of a QUrl return; \<open>url_path\<close> and \<open>url_userName\<close> are the fully decoded forms,
  \<open>url_userInfo\<close> the fully encoded one, and \<open>url_rawUser\<close> and \<open>url_rawPath\<close> the default forms.\<close>

record qurl =
  url_valid :: bool
  url_errorString :: qstring
  url_scheme :: qstring
  url_userInfo :: qstring
  url_hasQuery :: bool
  url_hasFragment :: bool
  url_port :: int
  url_host :: qstring
  url_path :: qstring
  url_userName :: qstring
  url_rawUser :: qstring
  url_rawPath :: qstring

datatype parsing_mode = StrictMode | TolerantMode

record qt =
  parse_url :: "parsing_mode \<Rightarrow> qstring \<Rightarrow> qurl"
  authority_url :: "qstring \<Rightarrow> qstring \<Rightarrow> qurl"
  fold_case :: "qstring \<Rightarrow> qstring"

datatype address_error =
  AddrBadEscape qstring | AddrNotAddress qstring | AddrScheme qstring | AddrParts qstring
| AddrNoHost qstring | AddrIPv6 qstring | AddrServerOnly | AddrUrlControl
| AddrExpected | AddrControl | AddrComma | AddrInvalid | AddrNamesUser | AddrOtherUser
| AddrEmpty | AddrNetworkRoot

definition smbPrefix :: qstring where
  "smbPrefix = ''smb://''"

definition hasSmbPrefix :: "qt \<Rightarrow> qstring \<Rightarrow> bool" where
  "hasSmbPrefix Q input \<longleftrightarrow> prefix smbPrefix (fold_case Q input)"

section \<open>Parsing an smb url\<close>

definition is_hex :: "char \<Rightarrow> bool" where
  "is_hex c \<longleftrightarrow> is_digit c \<or> CHR ''A'' \<le> c \<and> c \<le> CHR ''F'' \<or> CHR ''a'' \<le> c \<and> c \<le> CHR ''f''"

definition two_hex :: "qstring \<Rightarrow> bool" where
  "two_hex s = (case s of a # b # _ \<Rightarrow> is_hex a \<and> is_hex b | _ \<Rightarrow> False)"

text \<open>The pattern \<open>%(?![0-9A-Fa-f]{2})\<close>.\<close>

fun bad_escape :: "qstring \<Rightarrow> bool" where
  "bad_escape [] = False"
| "bad_escape (c # s) = (c = CHR ''%'' \<and> \<not> two_hex s \<or> bad_escape s)"

text \<open>\<open>section(sep, 0, 0)\<close>.\<close>

fun before :: "qstring \<Rightarrow> qstring \<Rightarrow> qstring" where
  "before sep [] = []"
| "before sep (c # s) = (if prefix sep (c # s) then [] else c # before sep s)"

definition strip_slashes :: "qstring \<Rightarrow> qstring" where
  "strip_slashes path = chop_slashes (dropWhile (\<lambda>c. c = CHR ''/'') path)"

definition unsupported_parts :: "qurl \<Rightarrow> bool" where
  "unsupported_parts url \<longleftrightarrow>
     url_hasQuery url \<or> url_hasFragment url \<or> CHR '':'' \<in> set (url_userInfo url) \<or> url_port url \<noteq> - 1"

text \<open>Strict parsing first, tolerant parsing only where no escape is malformed.\<close>

definition smb_url :: "qt \<Rightarrow> qstring \<Rightarrow> address_error + qurl" where
  "smb_url Q raw =
     (let url = parse_url Q StrictMode raw in
      if url_valid url then Inr url
      else if bad_escape raw then Inl (AddrBadEscape raw)
      else Inr (parse_url Q TolerantMode raw))"

definition parseSmbUrl :: "qt \<Rightarrow> qstring \<Rightarrow> address_error + qstring \<times> qstring" where
  "parseSmbUrl Q raw =
     (case smb_url Q raw of
        Inl e \<Rightarrow> Inl e
      | Inr url \<Rightarrow>
          if \<not> url_valid url then Inl (AddrNotAddress (before ''; source was'' (url_errorString url)))
          else if url_scheme url \<noteq> ''smb'' then Inl (AddrScheme raw)
          else if unsupported_parts url then Inl (AddrParts raw)
          else if url_host url = [] then Inl (AddrNoHost raw)
          else if CHR '':'' \<in> set (url_host url) then Inl (AddrIPv6 (url_host url))
          else (let path = strip_slashes (url_path url) in
            if path = [] then Inl AddrServerOnly
            else if hasControlChars (url_host url) \<or> hasControlChars path \<or> hasControlChars (url_userName url)
            then Inl AddrUrlControl
            else Inr (''//'' @ url_host url @ ''/'' @ path, url_userName url)))"

section \<open>Identities\<close>

text \<open>Domain and user name, split at the first of the two separators unless that is the first character.\<close>

definition splitDomainUser :: "qstring \<Rightarrow> qstring \<times> qstring" where
  "splitDomainUser combined =
     (let d = takeWhile (\<lambda>c. c \<noteq> CHR ''/'' \<and> c \<noteq> CHR 0x5C) combined in
      if d \<noteq> [] \<and> d \<noteq> combined then (d, drop (length d + 1) combined) else ([], combined))"

definition same_text :: "qt \<Rightarrow> qstring \<Rightarrow> qstring \<Rightarrow> bool" where
  "same_text Q s t \<longleftrightarrow> fold_case Q s = fold_case Q t"

definition sameIdentity :: "qt \<Rightarrow> qstring \<Rightarrow> qstring \<Rightarrow> bool" where
  "sameIdentity Q a b =
     (case (splitDomainUser a, splitDomainUser b) of
        ((dl, ul), (dr, ur)) \<Rightarrow>
          if \<not> same_text Q ul ur then False
          else dl = [] \<or> dr = [] \<or> same_text Q dl dr)"

section \<open>Display and resolution\<close>

definition url_escaped :: "qstring \<Rightarrow> qstring" where
  "url_escaped s = replace_char CHR ''?'' ''%3F'' (replace_char CHR ''#'' ''%23'' (replace_char CHR ''%'' ''%25'' s))"

definition displayUrl :: "qstring \<Rightarrow> qstring" where
  "displayUrl unc = (if \<not> prefix ''//'' unc then unc else smbPrefix @ url_escaped (drop 2 unc))"

definition address_candidate :: "qt \<Rightarrow> qstring \<Rightarrow> address_error + qstring \<times> qstring" where
  "address_candidate Q input =
     (if hasSmbPrefix Q input then parseSmbUrl Q input
      else if prefix ''//'' input then Inr (input, [])
      else Inl AddrExpected)"

definition resolveShareInput :: "qt \<Rightarrow> qstring \<Rightarrow> qstring \<Rightarrow> address_error + qstring" where
  "resolveShareInput Q input username =
     (case address_candidate Q input of
        Inl e \<Rightarrow> Inl e
      | Inr (candidate, urlUser) \<Rightarrow>
          if hasControlChars candidate then Inl AddrControl
          else if CHR '','' \<in> set candidate then Inl AddrComma
          else (case validateUnc candidate of
            Inl e \<Rightarrow> Inl AddrInvalid
          | Inr normalised \<Rightarrow>
              if urlUser \<noteq> [] \<and> username = [] then Inl AddrNamesUser
              else if urlUser \<noteq> [] \<and> \<not> sameIdentity Q urlUser username then Inl AddrOtherUser
              else Inr normalised))"

definition userInShareInput :: "qt \<Rightarrow> qstring \<Rightarrow> qstring" where
  "userInShareInput Q input =
     (if \<not> hasSmbPrefix Q input then []
      else (case parseSmbUrl Q input of Inl e \<Rightarrow> [] | Inr (unc, user) \<Rightarrow> user))"

text \<open>The live check of the form; only whether the rest is empty matters of what is cut off.\<close>

definition shareInputProblem :: "qt \<Rightarrow> qstring \<Rightarrow> qstring \<Rightarrow> address_error option" where
  "shareInputProblem Q input username =
     (let rest = (if hasSmbPrefix Q input then drop (length smbPrefix) (fold_case Q input)
                  else if prefix ''//'' input then drop 2 input else input) in
      if rest = [] then Some AddrEmpty
      else (case resolveShareInput Q input username of Inr unc \<Rightarrow> None | Inl e \<Rightarrow> Some e))"

section \<open>Browsing and looking up\<close>

text \<open>The error, or the text for the address field and the user.\<close>

definition browsedShareInput :: "qt \<Rightarrow> qurl \<Rightarrow> address_error + qstring \<times> qstring" where
  "browsedShareInput Q picked =
     (if \<not> same_text Q (url_scheme picked) ''smb'' then Inl (AddrScheme [])
      else if unsupported_parts picked then Inl (AddrParts [])
      else if url_host picked = [] then Inl AddrNetworkRoot
      else if CHR '':'' \<in> set (url_host picked) then Inl (AddrIPv6 [])
      else (let path = strip_slashes (url_path picked); host = url_host picked; user = url_userName picked in
        if hasControlChars host \<or> hasControlChars path \<or> hasControlChars user then Inl AddrUrlControl
        else Inr (displayUrl (if path = [] then ''//'' @ host else ''//'' @ host @ ''/'' @ path), user)))"

text \<open>The url a file dialog starts at: the network root, or host, user and path of what was typed.\<close>

datatype start_url = NetworkRoot | StartAt qstring "qstring option" qstring

definition browseStartUrl :: "qt \<Rightarrow> qstring \<Rightarrow> start_url" where
  "browseStartUrl Q shareInput =
     (let t = trimmed shareInput;
          t' = (if prefix ''//'' t then ''smb:'' @ t else t) in
      if \<not> hasSmbPrefix Q t' then NetworkRoot
      else (let typed = parse_url Q TolerantMode t' in
        if \<not> url_valid typed \<or> url_host typed = [] then NetworkRoot
        else StartAt (url_host typed) (if url_rawUser typed = [] then None else Some (url_rawUser typed)) (url_rawPath typed)))"

text \<open>\<open>rest.section('/', i, i)\<close>.\<close>

definition nth_section :: "nat \<Rightarrow> qstring \<Rightarrow> qstring" where
  "nth_section i s = (let ps = split_on CHR ''/'' s in if i < length ps then ps ! i else [])"

definition authLookupTarget :: "qt \<Rightarrow> qstring \<Rightarrow> qurl option" where
  "authLookupTarget Q unc =
     (let rest = dropWhile (\<lambda>c. c = CHR ''/'') unc; host = nth_section 0 rest; share = nth_section 1 rest in
      if host = [] \<or> share = [] then None
      else (let url = authority_url Q host (''/'' @ share) in
        if \<not> url_valid url \<or> url_host url \<noteq> host then None else Some url))"


section \<open>What the list shows can be typed back\<close>

text \<open>
  What is assumed of Qt: folding leaves the prefix alone, and a url made of a plain host name and an
  escaped path has these two parts and no others; the strict parser may refuse it, the tolerant one
  does not.  A plain host name is one QUrl neither lower-cases, nor takes for an address, nor encodes.
\<close>

definition plain_host :: "qstring \<Rightarrow> bool" where
  "plain_host host \<longleftrightarrow> host \<noteq> [] \<and> list_all (\<lambda>c. CHR ''a'' \<le> c \<and> c \<le> CHR ''z'') host"

definition smb_url_law :: "qt \<Rightarrow> bool" where
  "smb_url_law Q \<longleftrightarrow>
     (\<forall>s. fold_case Q (smbPrefix @ s) = smbPrefix @ fold_case Q s \<and> (fold_case Q s = [] \<longleftrightarrow> s = [])) \<and>
     (\<forall>host p mode. plain_host host \<longrightarrow> p \<noteq> [] \<longrightarrow> \<not> hasControlChars p \<longrightarrow>
        (let url = parse_url Q mode (smbPrefix @ host @ ''/'' @ url_escaped p) in
         (mode = TolerantMode \<longrightarrow> url_valid url) \<and>
         (url_valid url \<longrightarrow> url_scheme url = ''smb'' \<and> url_userInfo url = [] \<and> \<not> url_hasQuery url \<and>
            \<not> url_hasFragment url \<and> url_port url = - 1 \<and> url_host url = host \<and> url_path url = ''/'' @ p \<and>
            url_userName url = [])))"

lemma bad_escape_append_plain: "CHR ''%'' \<notin> set s \<Longrightarrow> bad_escape (s @ t) = bad_escape t"
  by (induction s) auto

definition url_escape_char :: "char \<Rightarrow> qstring" where
  "url_escape_char c = (if c = CHR ''%'' then ''%25'' else if c = CHR ''#'' then ''%23'' else if c = CHR ''?'' then ''%3F'' else [c])"

lemma url_escaped_Cons [simp]: "url_escaped [] = []" "url_escaped (c # s) = url_escape_char c @ url_escaped s"
  by (auto simp: url_escaped_def url_escape_char_def)

lemma url_escaped_no_percent: "set s \<inter> {CHR ''%'', CHR ''#'', CHR ''?''} = {} \<Longrightarrow> url_escaped s = s"
  by (induction s) (auto simp: url_escape_char_def)

lemma url_escaped_append: "url_escaped (s @ t) = url_escaped s @ url_escaped t"
  by (induction s) simp_all

lemma not_bad_escape_escaped: "\<not> bad_escape (url_escaped s)"
  by (induction s) (auto simp: url_escape_char_def two_hex_def is_hex_def)

lemma plain_host_chars:
  assumes "plain_host host"
  shows "\<not> hasControlChars host" "CHR ''%'' \<notin> set host" "CHR ''#'' \<notin> set host" "CHR ''?'' \<notin> set host"
    "CHR '':'' \<notin> set host" "CHR ''/'' \<notin> set host" "host \<noteq> []"
  using assms by (auto simp: plain_host_def list_all_iff hasControlChars_def less_eq_char_def less_char_def)

lemma plain_host_escaped: "plain_host host \<Longrightarrow> url_escaped host = host"
  by (rule url_escaped_no_percent) (simp add: plain_host_chars)

lemma strip_slashes_plain: "share \<noteq> [] \<Longrightarrow> hd share \<noteq> CHR ''/'' \<Longrightarrow> last share \<noteq> CHR ''/'' \<Longrightarrow> strip_slashes (''/'' @ share) = share"
  by (cases share) (simp_all add: strip_slashes_def chop_slashes_id)

lemma parse_displayed:
  assumes Q: "smb_url_law Q" and h: "plain_host host"
    and p: "share \<noteq> []" "\<not> hasControlChars share" "hd share \<noteq> CHR ''/''" "last share \<noteq> CHR ''/''"
  shows "parseSmbUrl Q (displayUrl (''//'' @ host @ ''/'' @ share)) = Inr (''//'' @ host @ ''/'' @ share, [])"
proof -
  let ?raw = "smbPrefix @ host @ ''/'' @ url_escaped share"
  have d: "displayUrl (''//'' @ host @ ''/'' @ share) = ?raw"
    using plain_host_escaped [OF h] by (simp add: displayUrl_def url_escaped_append url_escape_char_def)
  have law: "let url = parse_url Q mode ?raw in
         (mode = TolerantMode \<longrightarrow> url_valid url) \<and>
         (url_valid url \<longrightarrow> url_scheme url = ''smb'' \<and> url_userInfo url = [] \<and> \<not> url_hasQuery url \<and>
            \<not> url_hasFragment url \<and> url_port url = - 1 \<and> url_host url = host \<and> url_path url = ''/'' @ share \<and>
            url_userName url = [])" for mode
    using Q h p(1,2) unfolding smb_url_law_def by blast
  have "\<not> bad_escape ?raw"
    using bad_escape_append_plain [of "smbPrefix @ host @ ''/''" "url_escaped share"] plain_host_chars [OF h] not_bad_escape_escaped
    by (simp add: smbPrefix_def)
  then obtain mode where m: "smb_url Q ?raw = Inr (parse_url Q mode ?raw)" "url_valid (parse_url Q mode ?raw)"
    using law [of TolerantMode] by (cases "url_valid (parse_url Q StrictMode ?raw)") (auto simp: smb_url_def Let_def)
  define url where "url = parse_url Q mode ?raw"
  have u: "url_scheme url = ''smb''" "url_userInfo url = []" "\<not> url_hasQuery url" "\<not> url_hasFragment url" "url_port url = - 1"
      "url_host url = host" "url_path url = CHR ''/'' # share" "url_userName url = []"
    using law [of mode] m(2) by (simp_all add: url_def Let_def)
  have "strip_slashes (CHR ''/'' # share) = share" using strip_slashes_plain [OF p(1,3,4)] by simp
  moreover have "\<not> hasControlChars []" by (simp add: hasControlChars_def)
  ultimately show ?thesis
    using m [folded url_def] u p(1,2) plain_host_chars [OF h] unfolding d by (simp add: parseSmbUrl_def unsupported_parts_def)
qed

lemma resolve_Inr:
  assumes "resolveShareInput Q input username = Inr unc"
  shows "validateUnc unc = Inr unc"
  using assms validateUnc_idem
  by (auto simp: resolveShareInput_def split: sum.splits prod.splits if_splits)



section \<open>The theorem on a concrete input\<close>

text \<open>A parser of just these urls.\<close>

fun url_unescape :: "qstring \<Rightarrow> qstring" where
  "url_unescape (a # b # c # s) =
     (if [a, b, c] = ''%25'' then CHR ''%'' # url_unescape s
      else if [a, b, c] = ''%23'' then CHR ''#'' # url_unescape s
      else if [a, b, c] = ''%3F'' then CHR ''?'' # url_unescape s
      else a # url_unescape (b # c # s))"
| "url_unescape s = s"

lemma url_unescape_plain: "a \<noteq> CHR ''%'' \<Longrightarrow> url_unescape (a # s) = a # url_unescape s"
  by (cases s; cases "tl s") auto

lemma url_unescape_escaped [simp]: "url_unescape (url_escaped s) = s"
  by (induction s) (auto simp: url_escape_char_def url_unescape_plain)

definition plain_qt :: qt where
  "plain_qt = \<lparr>parse_url = (\<lambda>mode s. let r = drop (length smbPrefix) s in
       \<lparr>url_valid = True, url_errorString = [], url_scheme = ''smb'', url_userInfo = [], url_hasQuery = False,
        url_hasFragment = False, url_port = - 1, url_host = takeWhile (\<lambda>c. c \<noteq> CHR ''/'') r,
        url_path = url_unescape (dropWhile (\<lambda>c. c \<noteq> CHR ''/'') r), url_userName = [], url_rawUser = [],
        url_rawPath = dropWhile (\<lambda>c. c \<noteq> CHR ''/'') r\<rparr>),
     authority_url = (\<lambda>host path.
       \<lparr>url_valid = True, url_errorString = [], url_scheme = ''smb'', url_userInfo = [], url_hasQuery = False,
        url_hasFragment = False, url_port = - 1, url_host = host, url_path = path, url_userName = [],
        url_rawUser = [], url_rawPath = path\<rparr>),
     fold_case = (\<lambda>s. s)\<rparr>"

lemma plain_qt_law: "smb_url_law plain_qt"
  unfolding smb_url_law_def
proof (intro conjI allI impI)
  fix host p mode assume "plain_host host"
  then have "CHR ''/'' \<notin> set host" by (rule plain_host_chars)
  then have "takeWhile (\<lambda>c. c \<noteq> CHR ''/'') (host @ CHR ''/'' # q) = host"
      "dropWhile (\<lambda>c. c \<noteq> CHR ''/'') (host @ CHR ''/'' # q) = CHR ''/'' # q" for q :: qstring
    by (induction host) auto
  then show "let url = parse_url plain_qt mode (smbPrefix @ host @ ''/'' @ url_escaped p) in
      (mode = TolerantMode \<longrightarrow> url_valid url) \<and>
      (url_valid url \<longrightarrow> url_scheme url = ''smb'' \<and> url_userInfo url = [] \<and> \<not> url_hasQuery url \<and>
         \<not> url_hasFragment url \<and> url_port url = - 1 \<and> url_host url = host \<and> url_path url = ''/'' @ p \<and>
         url_userName url = [])"
    by (simp add: plain_qt_def Let_def url_unescape_plain)
qed (simp_all add: plain_qt_def)


end
