(* ===== verification/MountModel.thy ===== *)
theory MountModel
  imports HelperInvoke Boot Store ShareAddress
begin

text \<open>
  Model of \<open>src/session/mountmodel.cpp\<close>, the merged list of shares: the pure classification,
  presentation and removal of one row, and the refresh that merges the two unit halves, the records of
  the user, the inventory of the helper and the mount table.  Texts are the English ones.
\<close>

datatype DisplayState =
  StateInactive | StateArmed | StateMounted | StateMissingCredentials | StateBroken | StateBusy | StateForeign

definition definitionStateText :: "Definition \<Rightarrow> qstring" where
  "definitionStateText st =
     (case st of DefPair \<Rightarrow> ''pair'' | DefPartial \<Rightarrow> ''partial'' | DefTampered \<Rightarrow> ''tampered''
      | DefNotOurs \<Rightarrow> ''notOurs'' | DefNone \<Rightarrow> ''none'')"

section \<open>Classifying one row\<close>

record classify_input =
  cl_definitionState :: qstring
  cl_authentication :: AuthenticationKind
  cl_runtime :: runtime_snapshot
  cl_credentialApplicable :: bool
  cl_credentialHealthy :: bool
  cl_hasStoreRecord :: bool
  cl_storeCorrupt :: bool
  cl_drift :: bool

definition default_runtime :: runtime_snapshot where
  "default_runtime = \<lparr>snap_automount = AutoIndeterminate, snap_mount = MountIndeterminate,
     snap_verification = VerNotApplicable, snap_trust = TrustNotApplicable\<rparr>"

definition default_input :: classify_input where
  "default_input = \<lparr>cl_definitionState = ''none'', cl_authentication = Credentials, cl_runtime = default_runtime,
     cl_credentialApplicable = False, cl_credentialHealthy = True, cl_hasStoreRecord = False,
     cl_storeCorrupt = False, cl_drift = False\<rparr>"

record classification =
  cf_state :: DisplayState
  cf_detail :: qstring
  cf_canRemoveDefinition :: bool
  cf_canRemoveLocalRecord :: bool
  cf_requiresAdministrator :: bool

definition classified :: "DisplayState \<Rightarrow> qstring \<Rightarrow> bool \<Rightarrow> bool \<Rightarrow> bool \<Rightarrow> classification" where
  "classified st detail canDef canLocal admin =
     \<lparr>cf_state = st, cf_detail = detail, cf_canRemoveDefinition = canDef, cf_canRemoveLocalRecord = canLocal,
      cf_requiresAdministrator = admin\<rparr>"

definition credentialUnhealthy :: "classify_input \<Rightarrow> bool" where
  "credentialUnhealthy i \<longleftrightarrow> cl_authentication i = Credentials \<and> cl_credentialApplicable i \<and> \<not> cl_credentialHealthy i"

text \<open>The last three cases, of a pair whose runtime is safe.\<close>

definition classify_pair :: "classify_input \<Rightarrow> classification" where
  "classify_pair i =
     (if credentialUnhealthy i
      then classified StateMissingCredentials ''stored credential is missing or unhealthy'' True False False
      else if snap_mount (cl_runtime i) = MountPresent then classified StateMounted [] True False False
      else if snap_automount (cl_runtime i) = AutoActive then classified StateArmed [] True False False
      else classified StateInactive [] True False False)"

definition classifyRow :: "classify_input \<Rightarrow> classification" where
  "classifyRow i =
     (let rt = cl_runtime i in
      if cl_definitionState i = ''none'' then
        classified StateBroken
          (if cl_storeCorrupt i then ''this saved record is missing required data''
           else ''no definition exists for this saved record'') False (cl_hasStoreRecord i) False
      else if cl_definitionState i = ''tampered'' \<or> cl_definitionState i = ''notOurs'' then
        classified StateBroken ''requires administrator repair'' False (cl_hasStoreRecord i) True
      else if cl_drift i \<or> cl_storeCorrupt i then
        classified StateBroken
          (if cl_drift i then ''saved settings do not match the actual definition - remove the local record, then remove the resulting orphan definition''
           else ''this share's saved convenience data is incomplete - remove the local record'') False True False
      else if snap_mount rt = MountIndeterminate \<or> snap_automount rt = AutoIndeterminate then
        classified StateBusy ''runtime state could not be determined - refresh and retry'' False False False
      else if snap_mount rt = MountPresent \<and> snap_verification rt \<noteq> VerMatch then
        classified StateBusy
          ''mounted, but does not correlate with this definition - release it with its owning tool, refresh, then retry''
          False False False
      else if snap_mount rt \<noteq> MountPresent \<and> snap_automount rt = AutoActive \<and> snap_trust rt \<noteq> Trusted then
        classified StateBroken
          ''automount is active, but its instance id does not match what was recorded - reboot or seek administrator help; never stopped or adopted automatically''
          False False True
      else if cl_definitionState i = ''partial'' then
        classified StateBroken ''only one half of the pair exists - remove it, it is never repaired'' True False False
      else classify_pair i)"

section \<open>Labels\<close>

definition accessModeLabel :: "AccessMode \<Rightarrow> qstring" where
  "accessModeLabel m =
     (case m of ReadOnly \<Rightarrow> ''Read only'' | ReadWrite \<Rightarrow> ''Read & Write''
      | ReadWriteExecutable \<Rightarrow> ''Read & Write & Execute'')"

definition stateLabel :: "DisplayState \<Rightarrow> qstring" where
  "stateLabel st =
     (case st of StateInactive \<Rightarrow> ''Inactive'' | StateArmed \<Rightarrow> ''Ready'' | StateMounted \<Rightarrow> ''Mounted''
      | StateForeign \<Rightarrow> ''Mounted'' | StateMissingCredentials \<Rightarrow> ''Missing credentials''
      | StateBroken \<Rightarrow> ''Broken'' | StateBusy \<Rightarrow> ''Busy'')"

text \<open>\<open>static_cast<Enum>(value)\<close>: the enumerators are consecutive from 0; every other value falls out of
  the switch, to an empty label.\<close>

definition state_of_value :: "nat \<Rightarrow> DisplayState option" where
  "state_of_value v = (let es = [StateInactive, StateArmed, StateMounted, StateMissingCredentials, StateBroken, StateBusy, StateForeign]
     in if v < length es then Some (es ! v) else None)"

definition access_of_value :: "nat \<Rightarrow> AccessMode option" where
  "access_of_value v = (let es = [ReadWrite, ReadOnly, ReadWriteExecutable] in if v < length es then Some (es ! v) else None)"

definition label_at :: "(nat \<Rightarrow> 'e option) \<Rightarrow> ('e \<Rightarrow> qstring) \<Rightarrow> nat \<Rightarrow> qstring" where
  "label_at of_value label v = (case of_value v of None \<Rightarrow> [] | Some e \<Rightarrow> label e)"

text \<open>The loop has no bound of its own: it ends when a value has no label.\<close>

partial_function (option) labels_from :: "(nat \<Rightarrow> qstring) \<Rightarrow> nat \<Rightarrow> qstring list \<Rightarrow> qstring list option" where
  "labels_from label v labels =
     (if label v = [] then Some labels
      else labels_from label (v + 1) (if label v \<in> set labels then labels else labels @ [label v]))"

definition labelsOf :: "(nat \<Rightarrow> qstring) \<Rightarrow> qstring list option" where
  "labelsOf label = labels_from label 0 []"

definition allStateLabels :: "qstring list option" where
  "allStateLabels = labelsOf (label_at state_of_value stateLabel)"

definition allAccessLabels :: "qstring list option" where
  "allAccessLabels = labelsOf (label_at access_of_value accessModeLabel)"

definition stateSeverity :: "DisplayState \<Rightarrow> qstring" where
  "stateSeverity st =
     (case st of StateInactive \<Rightarrow> ''normal'' | StateArmed \<Rightarrow> ''normal'' | StateMounted \<Rightarrow> ''normal'' | StateForeign \<Rightarrow> ''normal''
      | StateBusy \<Rightarrow> ''warning'' | StateMissingCredentials \<Rightarrow> ''error'' | StateBroken \<Rightarrow> ''error'')"

section \<open>Removal and presentation of one row\<close>

record removal_facts =
  rf_hasStoreRecord :: bool
  rf_hasUnitFiles :: bool
  rf_canRemoveDefinition :: bool
  rf_canRemoveLocalRecord :: bool
  rf_requiresAdministrator :: bool
  rf_state :: DisplayState
  rf_detail :: qstring

text \<open>The kind, and the reason why there is none.\<close>

definition rowRemoval :: "removal_facts \<Rightarrow> qstring \<times> qstring" where
  "rowRemoval r =
     (if rf_hasStoreRecord r \<and> rf_hasUnitFiles r \<and> rf_canRemoveDefinition r then (''delete'', [])
      else if \<not> rf_hasStoreRecord r \<and> rf_hasUnitFiles r \<and> rf_canRemoveDefinition r then (''removeOrphan'', [])
      else if rf_hasStoreRecord r \<and> rf_canRemoveLocalRecord r then (''removeRecord'', [])
      else if rf_requiresAdministrator r then ([], ''Requires administrator repair'')
      else if rf_state r = StateForeign then ([], ''Mounted by another tool - unmount it with that tool'')
      else if rf_detail r \<noteq> [] then ([], ''Can't be removed right now: '' @ rf_detail r)
      else ([], ''Can't be removed right now''))"

record present_input =
  pi_definitionState :: qstring
  pi_state :: DisplayState
  pi_detail :: qstring
  pi_unc :: qstring
  pi_authentication :: AuthenticationKind
  pi_access :: AccessMode
  pi_hasStoreRecord :: bool
  pi_storeCorrupt :: bool
  pi_storeUsername :: qstring
  pi_storeDomain :: qstring

record presentation =
  pr_remoteUrl :: qstring
  pr_stateText :: qstring
  pr_severity :: qstring
  pr_detail :: qstring
  pr_access :: qstring
  pr_accessText :: qstring
  pr_authentication :: qstring
  pr_username :: qstring
  pr_domain :: qstring
  pr_section :: qstring

definition presentRow :: "present_input \<Rightarrow> presentation" where
  "presentRow i =
     (let foreign = pi_state i = StateForeign;
          markerKnown = pi_definitionState i = ''pair'' \<or> pi_definitionState i = ''partial'';
          readable = pi_hasStoreRecord i \<and> \<not> pi_storeCorrupt i in
      \<lparr>pr_remoteUrl = displayUrl (pi_unc i), pr_stateText = stateLabel (pi_state i), pr_severity = stateSeverity (pi_state i),
       pr_detail = (if foreign then [] else pi_detail i),
       pr_access = (if markerKnown then accessModeToString (pi_access i) else []),
       pr_accessText = (if markerKnown then accessModeLabel (pi_access i) else []),
       pr_authentication = (if markerKnown then (if pi_authentication i = Guest then ''guest'' else ''credentials'') else []),
       pr_username = (if readable then pi_storeUsername i else []),
       pr_domain = (if readable then pi_storeDomain i else []),
       pr_section = (if foreign then ''foreign'' else ''managed'')\<rparr>)"

section \<open>Drift\<close>

record drift_input =
  dr_storeUnc :: qstring
  dr_storeMountPoint :: qstring
  dr_storeSaysGuest :: bool
  dr_storeAccess :: qstring
  dr_definitionWhat :: qstring
  dr_definitionMountPoint :: qstring
  dr_definitionAuthentication :: AuthenticationKind
  dr_definitionAccess :: AccessMode

definition storeDefinitionDrift :: "drift_input \<Rightarrow> bool" where
  "storeDefinitionDrift i =
     (let markerSaysGuest = dr_definitionAuthentication i = Guest;
          uncDrift = dr_definitionWhat i \<noteq> [] \<and> validateUnc (dr_storeUnc i) \<noteq> Inr (dr_definitionWhat i);
          accessDrift = dr_storeAccess i \<noteq> accessModeToString (dr_definitionAccess i) in
      dr_storeMountPoint i \<noteq> dr_definitionMountPoint i \<or> dr_storeSaysGuest i \<noteq> markerSaysGuest \<or>
      uncDrift \<or> accessDrift)"


section \<open>The health of the boot service\<close>

datatype boot_health = HealthUndefined | HealthDisabled | HealthFailed | HealthEnabled

text \<open>What \<open>systemctl show\<close> ended with: whether in time, normally, with which exit code, and its output.\<close>

record process_result =
  finished :: bool
  normal_exit :: bool
  exit_code :: int
  stdout :: qstring

text \<open>One line into the map; a line without a name is skipped.\<close>

definition add_property :: "(qstring \<rightharpoonup> qstring) \<Rightarrow> qstring \<Rightarrow> (qstring \<rightharpoonup> qstring)" where
  "add_property m line =
     (let name = takeWhile (\<lambda>c. c \<noteq> CHR ''='') line in
      if name \<noteq> [] \<and> name \<noteq> line then m(name \<mapsto> drop (length name + 1) line) else m)"

definition boot_properties :: "qstring \<Rightarrow> (qstring \<rightharpoonup> qstring)" where
  "boot_properties output = foldl add_property Map.empty (split_skip_empty CHR 0x0A output)"

definition queryBootHealth :: "process_result \<Rightarrow> boot_health \<times> bool" where
  "queryBootHealth p =
     (if \<not> finished p \<or> \<not> normal_exit p \<or> exit_code p \<noteq> 0 then (HealthUndefined, False)
      else (let m = boot_properties (stdout p) in
        case (m ''UnitFileState'', m ''ActiveState'', m ''Result'', m ''ExecMainStatus'') of
          (Some unitFileState, Some activeState, Some result, Some execMainStatus) \<Rightarrow>
            if trimmed unitFileState \<noteq> ''enabled'' then (HealthDisabled, False)
            else if trimmed activeState = ''failed'' \<or> trimmed result \<noteq> ''success'' \<and> trimmed result \<noteq> [] \<or>
                    trimmed execMainStatus \<noteq> ''0'' \<and> trimmed execMainStatus \<noteq> [] then (HealthFailed, False)
            else (HealthEnabled, True)
        | _ \<Rightarrow> (HealthUndefined, False)))"

section \<open>The merged rows\<close>

record row =
  row_id :: qstring
  row_unc :: qstring
  row_mountPoint :: qstring
  row_definitionWhat :: qstring
  row_authentication :: AuthenticationKind
  row_access :: AccessMode
  row_definitionState :: qstring
  row_runtime :: runtime_snapshot
  row_state :: DisplayState
  row_detail :: qstring
  row_hasUnitFiles :: bool
  row_hasStoreRecord :: bool
  row_storeCorrupt :: bool
  row_drift :: bool
  row_credentialApplicable :: bool
  row_credentialHealthy :: bool
  row_canRemoveDefinition :: bool
  row_canRemoveLocalRecord :: bool
  row_requiresAdministrator :: bool
  row_storeUsername :: qstring
  row_storeDomain :: qstring

definition default_row :: row where
  "default_row =
     \<lparr>row_id = [], row_unc = [], row_mountPoint = [], row_definitionWhat = [], row_authentication = Credentials,
      row_access = ReadWrite, row_definitionState = ''none'', row_runtime = default_runtime, row_state = StateBroken,
      row_detail = [], row_hasUnitFiles = True, row_hasStoreRecord = False, row_storeCorrupt = False, row_drift = False,
      row_credentialApplicable = False, row_credentialHealthy = True, row_canRemoveDefinition = False,
      row_canRemoveLocalRecord = False, row_requiresAdministrator = False, row_storeUsername = [], row_storeDomain = []\<rparr>"

definition set_flags :: "classification \<Rightarrow> row \<Rightarrow> row" where
  "set_flags c r = r\<lparr>row_state := cf_state c, row_canRemoveDefinition := cf_canRemoveDefinition c,
     row_canRemoveLocalRecord := cf_canRemoveLocalRecord c, row_requiresAdministrator := cf_requiresAdministrator c\<rparr>"

text \<open>The three collections a refresh builds.\<close>

record merge =
  mg_rows :: "row list"
  mg_index :: "qstring \<rightharpoonup> nat"
  mg_covered :: "qstring set"

text \<open>The parameters of the front ends.\<close>

record ('s, 'c) front_end =
  fe_platform :: "'s platform"
  fe_uid :: uid
  fe_qt :: qt
  fe_config :: "'c config_api"
  fe_kauth :: "'s kauth"
  fe_json :: "qstring \<Rightarrow> (qstring \<times> bool \<times> bool) list"
  fe_boot :: "'s world \<Rightarrow> process_result"

subsection \<open>Source 2: the unit halves\<close>

definition unit_row :: "'s platform \<Rightarrow> owned_unit \<Rightarrow> 's world \<Rightarrow> row \<times> 's world" where
  "unit_row P u w =
     (let known = own_state u = DefPair \<or> own_state u = DefPartial in
      case (if known then inspectRuntime P (own_unitName u) (own_mountPoint u) (own_what u) w else (default_runtime, w)) of
        (runtime, w1) \<Rightarrow>
          (let c = classifyRow (default_input\<lparr>cl_definitionState := definitionStateText (own_state u),
                     cl_authentication := own_authentication u, cl_runtime := runtime\<rparr>) in
           (set_flags c (default_row\<lparr>row_mountPoint := own_mountPoint u, row_unc := own_what u,
              row_definitionWhat := own_what u, row_authentication := own_authentication u, row_access := own_access u,
              row_definitionState := definitionStateText (own_state u), row_runtime := runtime,
              row_detail := or_else (own_detail u) (cf_detail c), row_id := own_id u\<rparr>), w1)))"

fun merge_units :: "'s platform \<Rightarrow> owned_unit list \<Rightarrow> merge \<Rightarrow> 's world \<Rightarrow> merge \<times> 's world" where
  "merge_units P [] m w = (m, w)"
| "merge_units P (u # us) m w =
     (case unit_row P u w of
        (r, w1) \<Rightarrow>
          merge_units P us
            (m\<lparr>mg_rows := mg_rows m @ [r],
               mg_index := (if own_id u = [] then mg_index m else (mg_index m)(own_id u \<mapsto> length (mg_rows m))),
               mg_covered := insert (own_mountPoint u) (mg_covered m)\<rparr>) w1)"

subsection \<open>Source 1: the records of the user\<close>

text \<open>A record whose id names a row: its fields are copied, and drift or corruption reclassifies the row.\<close>

definition record_onto_row :: "snapshot \<Rightarrow> row \<Rightarrow> row" where
  "record_onto_row snap r =
     (let s = sn_share snap;
          r1 = r\<lparr>row_hasStoreRecord := True, row_storeUsername := sh_username s, row_storeDomain := sh_domain s\<rparr>;
          drift = storeDefinitionDrift
            \<lparr>dr_storeUnc = sh_unc s, dr_storeMountPoint = sh_mountPoint s, dr_storeSaysGuest = (sh_username s = []),
             dr_storeAccess = sh_access s, dr_definitionWhat = row_definitionWhat r, dr_definitionMountPoint = row_mountPoint r,
             dr_definitionAuthentication = row_authentication r, dr_definitionAccess = row_access r\<rparr>;
          r2 = (if sn_corrupt snap then r1\<lparr>row_storeCorrupt := True\<rparr>
                else r1\<lparr>row_drift := drift,
                        row_unc := (if drift then row_unc r
                                    else case validateUnc (sh_unc s) of Inl e \<Rightarrow> row_unc r | Inr n \<Rightarrow> n)\<rparr>) in
      if row_storeCorrupt r2 \<or> row_drift r2 then
        (let c = classifyRow (default_input\<lparr>cl_definitionState := row_definitionState r2, cl_hasStoreRecord := True,
                   cl_storeCorrupt := row_storeCorrupt r2, cl_drift := row_drift r2\<rparr>) in
         (set_flags c r2)\<lparr>row_detail := cf_detail c\<rparr>)
      else r2)"

text \<open>A record nothing matched: what is on disk at its mount point decides what the row says.\<close>

definition record_only_row :: "snapshot \<Rightarrow> row" where
  "record_only_row snap =
     (let s = sn_share snap in
      default_row\<lparr>row_id := sh_id s, row_unc := sh_unc s, row_mountPoint := sh_mountPoint s, row_hasStoreRecord := True,
        row_storeCorrupt := sn_corrupt snap, row_storeUsername := sh_username s, row_storeDomain := sh_domain s,
        row_hasUnitFiles := False\<rparr>)"

definition definition_onto_row :: "definition_check \<Rightarrow> row \<Rightarrow> row" where
  "definition_onto_row d r =
     (if def_state d = DefTampered \<or> def_state d = DefNotOurs then
        r\<lparr>row_definitionState := definitionStateText (def_state d), row_hasUnitFiles := True\<rparr>
      else if def_state d = DefPair \<or> def_state d = DefPartial then
        r\<lparr>row_definitionState := definitionStateText (def_state d), row_hasUnitFiles := True, row_drift := True,
          row_authentication := def_authentication d, row_access := def_access d, row_mountPoint := canonicalMountPoint d,
          row_definitionWhat := def_what d, row_unc := or_else (def_what d) (row_unc r)\<rparr>
      else r)"

definition unmatched_row :: "'s platform \<Rightarrow> uid \<Rightarrow> snapshot \<Rightarrow> 's world \<Rightarrow> row \<times> 's world" where
  "unmatched_row P u snap w =
     (let r = record_only_row snap; mp = sh_mountPoint (sn_share snap); canonical = cleanPath mp in
      case (if mp = [] then (r, w)
            else (case unitPathsFor (systemd_escape P) canonical of
              Inl e \<Rightarrow> (r, w)
            | Inr paths \<Rightarrow> (case inspectDefinition paths u canonical w of (d, w1) \<Rightarrow> (definition_onto_row d r, w1)))) of
        (r1, w1) \<Rightarrow>
          (let c = classifyRow (default_input\<lparr>cl_definitionState := row_definitionState r1,
                     cl_authentication := row_authentication r1, cl_hasStoreRecord := True,
                     cl_storeCorrupt := sn_corrupt snap, cl_drift := row_drift r1\<rparr>) in
           ((set_flags c r1)\<lparr>row_detail := cf_detail c\<rparr>, w1)))"

definition find_row :: "merge \<Rightarrow> qstring \<Rightarrow> nat option" where
  "find_row m i = (if i = [] then None else mg_index m i)"

fun merge_records :: "'s platform \<Rightarrow> uid \<Rightarrow> snapshot list \<Rightarrow> merge \<Rightarrow> 's world \<Rightarrow> merge \<times> 's world" where
  "merge_records P u [] m w = (m, w)"
| "merge_records P u (snap # snaps) m w =
     (let s = sn_share snap in
      case find_row m (sh_id s) of
        Some k \<Rightarrow> merge_records P u snaps (m\<lparr>mg_rows := (mg_rows m)[k := record_onto_row snap (mg_rows m ! k)]\<rparr>) w
      | None \<Rightarrow>
          (case unmatched_row P u snap w of
            (r, w1) \<Rightarrow>
              merge_records P u snaps
                (m\<lparr>mg_rows := mg_rows m @ [r],
                   mg_index := (if sh_id s = [] then mg_index m else (mg_index m)(sh_id s \<mapsto> length (mg_rows m))),
                   mg_covered := (if sh_mountPoint s = [] then mg_covered m else insert (sh_mountPoint s) (mg_covered m))\<rparr>) w1))"

subsection \<open>Source 3: the inventory of the helper\<close>

definition health_onto_row :: "bool \<Rightarrow> bool \<Rightarrow> row \<Rightarrow> row" where
  "health_onto_row applicable healthy r =
     (let r1 = r\<lparr>row_credentialApplicable := applicable, row_credentialHealthy := healthy\<rparr> in
      if row_storeCorrupt r1 \<or> row_drift r1 then r1
      else (let c = classifyRow (default_input\<lparr>cl_definitionState := row_definitionState r1,
                     cl_authentication := row_authentication r1, cl_runtime := row_runtime r1,
                     cl_credentialApplicable := applicable, cl_credentialHealthy := healthy\<rparr>) in
            (set_flags c r1)\<lparr>row_detail := (if cf_detail c = [] then row_detail r1 else cf_detail c)\<rparr>))"

fun merge_health :: "(qstring \<times> bool \<times> bool) list \<Rightarrow> merge \<Rightarrow> merge" where
  "merge_health [] m = m"
| "merge_health ((i, applicable, healthy) # hs) m =
     (case find_row m i of
        None \<Rightarrow> merge_health hs m
      | Some k \<Rightarrow> merge_health hs (m\<lparr>mg_rows := (mg_rows m)[k := health_onto_row applicable healthy (mg_rows m ! k)]\<rparr>))"

subsection \<open>Source 4: mounts of other tools, and the whole refresh\<close>

definition foreign_row :: "mount_entry \<Rightarrow> row" where
  "foreign_row e = default_row\<lparr>row_unc := mountSource e, row_mountPoint := entry_mountPoint e, row_state := StateForeign,
     row_detail := ''mounted by another tool''\<rparr>"

definition foreign_rows :: "merge \<Rightarrow> mount_entry list \<Rightarrow> row list" where
  "foreign_rows m es = map foreign_row (filter (\<lambda>e. filesystemType e = ''cifs'' \<and> entry_mountPoint e \<notin> mg_covered m) es)"

definition present_of :: "row \<Rightarrow> presentation" where
  "present_of r = presentRow \<lparr>pi_definitionState = row_definitionState r, pi_state = row_state r, pi_detail = row_detail r,
     pi_unc = row_unc r, pi_authentication = row_authentication r, pi_access = row_access r,
     pi_hasStoreRecord = row_hasStoreRecord r, pi_storeCorrupt = row_storeCorrupt r,
     pi_storeUsername = row_storeUsername r, pi_storeDomain = row_storeDomain r\<rparr>"

definition removal_of :: "row \<Rightarrow> qstring \<times> qstring" where
  "removal_of r = rowRemoval \<lparr>rf_hasStoreRecord = row_hasStoreRecord r, rf_hasUnitFiles = row_hasUnitFiles r,
     rf_canRemoveDefinition = row_canRemoveDefinition r, rf_canRemoveLocalRecord = row_canRemoveLocalRecord r,
     rf_requiresAdministrator = row_requiresAdministrator r, rf_state = row_state r, rf_detail = row_detail r\<rparr>"

record shown_row =
  shown :: row
  shown_presentation :: presentation
  shown_removal :: "qstring \<times> qstring"

definition finish_row :: "row \<Rightarrow> shown_row" where
  "finish_row r = \<lparr>shown = r, shown_presentation = present_of r, shown_removal = removal_of r\<rparr>"

definition currentMounts :: "'s platform \<Rightarrow> 's world \<Rightarrow> mount_entry list option" where
  "currentMounts P w = map_option parseMountinfo (mountinfo P (services w))"

record refresh_result =
  rr_rows :: "shown_row list"
  rr_health :: "boot_health \<times> bool"

definition computeRefresh :: "('s, 'c) front_end \<Rightarrow> 'c \<Rightarrow> 's world \<Rightarrow> refresh_result \<times> 'c \<times> 's world" where
  "computeRefresh E c w =
     (case enumerateOwnedUnits (fe_uid E) w of
        (units, w1) \<Rightarrow>
     (case merge_units (fe_platform E) units \<lparr>mg_rows = [], mg_index = Map.empty, mg_covered = {}\<rparr> w1 of
        (m1, w2) \<Rightarrow>
     (case shareSnapshots (fe_config E) c of
        (snaps, c1) \<Rightarrow>
     (case merge_records (fe_platform E) (fe_uid E) snaps m1 w2 of
        (m2, w3) \<Rightarrow>
     (case invokeHelperAction (fe_kauth E) ''inventory'' Map.empty w3 of
        (inventory, w4) \<Rightarrow>
          (let m3 = (if hr_outcome inventory = ConfirmedSuccess
                     then merge_health (fe_json E (data_text (hr_data inventory) ''shares'')) m2 else m2);
               foreign = (case currentMounts (fe_platform E) w4 of None \<Rightarrow> [] | Some es \<Rightarrow> foreign_rows m3 es) in
           (\<lparr>rr_rows = map finish_row (mg_rows m3 @ foreign), rr_health = queryBootHealth (fe_boot E w4)\<rparr>, c1, w4)))))))"

section \<open>The classification and the gate of the helper\<close>

lemma definitionStateText_cases:
  "definitionStateText st = ''none'' \<longleftrightarrow> st = DefNone" "definitionStateText st = ''tampered'' \<longleftrightarrow> st = DefTampered"
  "definitionStateText st = ''notOurs'' \<longleftrightarrow> st = DefNotOurs" "definitionStateText st = ''partial'' \<longleftrightarrow> st = DefPartial"
  "definitionStateText st = ''pair'' \<longleftrightarrow> st = DefPair"
  by (cases st; simp add: definitionStateText_def)+

text \<open>The runtime lets the helper go on: it would stop the share or find it stopped.\<close>

definition stoppable :: "runtime_snapshot \<Rightarrow> bool" where
  "stoppable rt \<longleftrightarrow> fst (evaluateStopPrecheck rt) \<in> {ShouldStop, PreAlreadyInactive}"

lemma stoppable_iff:
  "stoppable rt \<longleftrightarrow> snap_mount rt \<noteq> MountIndeterminate \<and> snap_automount rt \<noteq> AutoIndeterminate \<and>
     (snap_mount rt = MountPresent \<longrightarrow> snap_verification rt = VerMatch) \<and>
     (snap_mount rt \<noteq> MountPresent \<longrightarrow> snap_automount rt = AutoActive \<longrightarrow> snap_trust rt = Trusted)"
  by (auto simp: stoppable_def evaluateStopPrecheck_def)

lemmas classified_simps [simp] = classified_def [THEN arg_cong, of cf_state, simplified]
  classified_def [THEN arg_cong, of cf_canRemoveDefinition, simplified] classified_def [THEN arg_cong, of cf_canRemoveLocalRecord, simplified]
  classified_def [THEN arg_cong, of cf_requiresAdministrator, simplified]

lemma classify_pair_flags [simp]:
  "cf_canRemoveDefinition (classify_pair i)" "\<not> cf_canRemoveLocalRecord (classify_pair i)"
  by (simp_all add: classify_pair_def)

lemma classify_flags:
  assumes "cl_definitionState i = definitionStateText st"
  shows "cf_canRemoveDefinition (classifyRow i) \<longleftrightarrow>
      st \<in> {DefPair, DefPartial} \<and> \<not> cl_drift i \<and> \<not> cl_storeCorrupt i \<and> stoppable (cl_runtime i)"
    "cf_canRemoveLocalRecord (classifyRow i) \<longleftrightarrow>
      (if st \<in> {DefPair, DefPartial} then cl_drift i \<or> cl_storeCorrupt i else cl_hasStoreRecord i)"
    "st = DefPair \<Longrightarrow> cf_canRemoveDefinition (classifyRow i) \<Longrightarrow> classifyRow i = classify_pair i"
    "st \<noteq> DefPair \<or> \<not> cf_canRemoveDefinition (classifyRow i) \<Longrightarrow> cf_state (classifyRow i) \<in> {StateBroken, StateBusy}"
  using assms by (cases st; auto simp: classifyRow_def Let_def definitionStateText_cases stoppable_iff)+

text \<open>C31. The list and the helper agree on what can be removed.  The list offers to remove a definition
  exactly when it is a pair or a half, the record of the user agrees with it, and the gate that the
  helper asks before it stops a share lets this runtime pass; the local record is offered only where
  the definition is not.  A working state is shown exactly for a removable pair: the credential state
  exactly if a credential is expected and unhealthy, mounted, armed or inactive otherwise.\<close>
theorem classify_agrees_with_stop_gate:
  "let c = classifyRow (i\<lparr>cl_definitionState := definitionStateText st\<rparr>);
       working = (st = DefPair \<and> cf_canRemoveDefinition c) in
   (cf_canRemoveDefinition c \<longleftrightarrow> st \<in> {DefPair, DefPartial} \<and> \<not> cl_drift i \<and> \<not> cl_storeCorrupt i \<and>
      fst (evaluateStopPrecheck (cl_runtime i)) \<in> {ShouldStop, PreAlreadyInactive}) \<and>
   \<not> (cf_canRemoveDefinition c \<and> cf_canRemoveLocalRecord c) \<and>
   (cf_state c = StateMissingCredentials \<longleftrightarrow> working \<and> credentialUnhealthy i) \<and>
   (cf_state c = StateMounted \<longleftrightarrow> working \<and> \<not> credentialUnhealthy i \<and> snap_mount (cl_runtime i) = MountPresent) \<and>
   (cf_state c = StateArmed \<longleftrightarrow> working \<and> \<not> credentialUnhealthy i \<and> snap_mount (cl_runtime i) \<noteq> MountPresent \<and>
      snap_automount (cl_runtime i) = AutoActive) \<and>
   (cf_state c = StateInactive \<longleftrightarrow> working \<and> \<not> credentialUnhealthy i \<and> snap_mount (cl_runtime i) \<noteq> MountPresent \<and>
      snap_automount (cl_runtime i) \<noteq> AutoActive) \<and>
   cf_state c \<noteq> StateForeign"
proof -
  let ?i = "i\<lparr>cl_definitionState := definitionStateText st\<rparr>"
  have d: "cl_definitionState ?i = definitionStateText st" by simp
  have u: "credentialUnhealthy ?i = credentialUnhealthy i" by (simp add: credentialUnhealthy_def)
  obtain c where c: "classifyRow ?i = c" by blast
  note f = classify_flags [OF d, unfolded c]
  have flags: "cf_canRemoveDefinition c \<longleftrightarrow> st \<in> {DefPair, DefPartial} \<and> \<not> cl_drift i \<and> \<not> cl_storeCorrupt i \<and>
      fst (evaluateStopPrecheck (cl_runtime i)) \<in> {ShouldStop, PreAlreadyInactive}"
    using f(1) by (simp add: stoppable_def)
  have both: "\<not> (cf_canRemoveDefinition c \<and> cf_canRemoveLocalRecord c)" using f(1,2) by auto
  show ?thesis
  proof (cases "st = DefPair \<and> cf_canRemoveDefinition c")
    case True
    then have "c = classify_pair ?i" using f(3) by blast
    then have "cf_state c = (if credentialUnhealthy i then StateMissingCredentials
        else if snap_mount (cl_runtime i) = MountPresent then StateMounted
        else if snap_automount (cl_runtime i) = AutoActive then StateArmed else StateInactive)"
      by (simp add: classify_pair_def u)
    then show ?thesis unfolding Let_def c using flags both True by simp
  next
    case False
    then have "cf_state c = StateBroken \<or> cf_state c = StateBusy" using f(4) by blast
    then have ne: "cf_state c \<noteq> StateMissingCredentials" "cf_state c \<noteq> StateMounted" "cf_state c \<noteq> StateArmed"
        "cf_state c \<noteq> StateInactive" "cf_state c \<noteq> StateForeign" by auto
    show ?thesis unfolding Let_def c by (intro conjI flags both) (use False ne in blast)+
  qed
qed

section \<open>The label loops end\<close>

lemma labels_from_ends:
  assumes "v \<le> n" "label n = []" "\<And>k. k < n \<Longrightarrow> label k \<noteq> []" "distinct labels" "set labels = label ` {..<v}"
  shows "\<exists>ls. labels_from label v labels = Some ls \<and> distinct ls \<and> set ls = label ` {..<n}"
  using assms
proof (induction "n - v" arbitrary: v labels)
  case 0
  then show ?case by (subst labels_from.simps) simp
next
  case (Suc d)
  then have v: "v < n" by simp
  let ?ls = "if label v \<in> set labels then labels else labels @ [label v]"
  have "\<exists>ls. labels_from label (v + 1) ?ls = Some ls \<and> distinct ls \<and> set ls = label ` {..<n}"
    using Suc.prems Suc.hyps(2) v by (intro Suc.hyps(1)) (auto simp: lessThan_Suc)
  then show ?case using Suc.prems(3) [OF v] by (subst labels_from.simps) simp
qed

lemma labelsOf_ends:
  assumes "label n = []" "\<And>k. k < n \<Longrightarrow> label k \<noteq> []"
  shows "\<exists>ls. labelsOf label = Some ls \<and> distinct ls \<and> set ls = label ` {..<n}"
  unfolding labelsOf_def using assms by (intro labels_from_ends) auto

lemma labels_from_unlabelled:
  "labels_from label v labels = Some ls \<Longrightarrow> \<exists>n. label n = []"
  by (rule labels_from.raw_induct [where P = "\<lambda>label v labels ls. \<exists>n. label n = []"]) (auto split: if_splits)

lemma state_labels: "label_at state_of_value stateLabel ` {..<7} = range stateLabel"
proof -
  have "range stateLabel = {''Inactive'', ''Ready'', ''Mounted'', ''Missing credentials'', ''Broken'', ''Busy''}"
  proof (intro equalityI subsetI)
    fix s assume "s \<in> {''Inactive'', ''Ready'', ''Mounted'', ''Missing credentials'', ''Broken'', ''Busy''}"
    moreover have "stateLabel StateInactive = ''Inactive''" "stateLabel StateArmed = ''Ready''" "stateLabel StateMounted = ''Mounted''"
      "stateLabel StateMissingCredentials = ''Missing credentials''" "stateLabel StateBroken = ''Broken''" "stateLabel StateBusy = ''Busy''"
      by (simp_all add: stateLabel_def)
    ultimately show "s \<in> range stateLabel" by (metis insert_iff empty_iff rangeI)
  qed (auto simp: stateLabel_def split: DisplayState.splits)
  moreover have "label_at state_of_value stateLabel ` {..<7} =
      {''Inactive'', ''Ready'', ''Mounted'', ''Missing credentials'', ''Broken'', ''Busy''}"
    by (auto simp: label_at_def state_of_value_def stateLabel_def lessThan_nat_numeral lessThan_Suc numeral_eq_Suc)
  ultimately show ?thesis by simp
qed

lemma access_labels: "label_at access_of_value accessModeLabel ` {..<3} = range accessModeLabel"
proof -
  have "range accessModeLabel = {''Read only'', ''Read & Write'', ''Read & Write & Execute''}"
  proof (intro equalityI subsetI)
    fix s assume "s \<in> {''Read only'', ''Read & Write'', ''Read & Write & Execute''}"
    moreover have "accessModeLabel ReadOnly = ''Read only''" "accessModeLabel ReadWrite = ''Read & Write''"
      "accessModeLabel ReadWriteExecutable = ''Read & Write & Execute''" by (simp_all add: accessModeLabel_def)
    ultimately show "s \<in> range accessModeLabel" by (metis insert_iff empty_iff rangeI)
  qed (auto simp: accessModeLabel_def split: AccessMode.splits)
  moreover have "label_at access_of_value accessModeLabel ` {..<3} = {''Read only'', ''Read & Write'', ''Read & Write & Execute''}"
    by (auto simp: label_at_def access_of_value_def accessModeLabel_def lessThan_Suc numeral_eq_Suc)
  ultimately show ?thesis by simp
qed

text \<open>C32. The loops that collect the column texts end: such a loop returns exactly if some value has no
  label, and the two the list uses return every text their column can show, each once.\<close>
theorem label_loops_end:
  "((\<exists>ls. labelsOf label = Some ls) \<longleftrightarrow> (\<exists>n. label n = [])) \<and>
   (\<exists>ls. allStateLabels = Some ls \<and> distinct ls \<and> set ls = range stateLabel) \<and>
   (\<exists>ls. allAccessLabels = Some ls \<and> distinct ls \<and> set ls = range accessModeLabel)"
proof (intro conjI iffI)
  show "\<exists>n. label n = []" if "\<exists>ls. labelsOf label = Some ls"
    using that labels_from_unlabelled unfolding labelsOf_def by blast
  show "\<exists>ls. labelsOf label = Some ls" if "\<exists>n. label n = []"
  proof -
    have "label (LEAST n. label n = []) = []" using that by (rule LeastI_ex)
    moreover have "label k \<noteq> []" if "k < (LEAST n. label n = [])" for k using not_less_Least [OF that] .
    ultimately show ?thesis using labelsOf_ends by blast
  qed
  have "label_at state_of_value stateLabel k \<noteq> []" if "k < 7" for k
    using that by (cases "the (state_of_value k)") (auto simp: label_at_def state_of_value_def stateLabel_def)
  then show "\<exists>ls. allStateLabels = Some ls \<and> distinct ls \<and> set ls = range stateLabel"
    unfolding allStateLabels_def state_labels [symmetric] by (intro labelsOf_ends) (simp_all add: label_at_def state_of_value_def)
  have "label_at access_of_value accessModeLabel k \<noteq> []" if "k < 3" for k
    using that by (cases "the (access_of_value k)") (auto simp: label_at_def access_of_value_def accessModeLabel_def)
  then show "\<exists>ls. allAccessLabels = Some ls \<and> distinct ls \<and> set ls = range accessModeLabel"
    unfolding allAccessLabels_def access_labels [symmetric] by (intro labelsOf_ends) (simp_all add: label_at_def access_of_value_def)
qed

section \<open>What a refresh shows\<close>

text \<open>What later sources never take from a row, and what the flags of a row mean.\<close>

definition row_le :: "row \<Rightarrow> row \<Rightarrow> bool" where
  "row_le r r' \<longleftrightarrow> row_id r' = row_id r \<and> row_mountPoint r' = row_mountPoint r \<and> row_access r' = row_access r \<and>
     row_authentication r' = row_authentication r \<and> row_definitionState r' = row_definitionState r \<and>
     row_runtime r' = row_runtime r \<and> (row_hasStoreRecord r \<longrightarrow> row_hasStoreRecord r')"

definition row_good :: "row \<Rightarrow> bool" where
  "row_good r \<longleftrightarrow> (\<exists>st. row_definitionState r = definitionStateText st \<and>
     (row_canRemoveDefinition r \<longrightarrow> st \<in> {DefPair, DefPartial} \<and> \<not> row_drift r \<and> \<not> row_storeCorrupt r \<and>
        stoppable (row_runtime r)) \<and>
     (st \<in> {DefPair, DefPartial} \<longrightarrow> row_hasUnitFiles r) \<and>
     (row_canRemoveLocalRecord r \<longrightarrow> row_hasStoreRecord r \<and> \<not> row_canRemoveDefinition r) \<and>
     row_state r \<noteq> StateForeign)"

lemma row_le_refl [simp]: "row_le r r"
  by (simp add: row_le_def)

lemma row_le_trans: "row_le r s \<Longrightarrow> row_le s t \<Longrightarrow> row_le r t"
  by (simp add: row_le_def)

lemma set_flags_simps [simp]:
  "row_state (set_flags c r) = cf_state c" "row_canRemoveDefinition (set_flags c r) = cf_canRemoveDefinition c"
  "row_canRemoveLocalRecord (set_flags c r) = cf_canRemoveLocalRecord c" "row_id (set_flags c r) = row_id r"
  "row_mountPoint (set_flags c r) = row_mountPoint r" "row_access (set_flags c r) = row_access r"
  "row_authentication (set_flags c r) = row_authentication r" "row_definitionState (set_flags c r) = row_definitionState r"
  "row_runtime (set_flags c r) = row_runtime r" "row_hasStoreRecord (set_flags c r) = row_hasStoreRecord r"
  "row_storeCorrupt (set_flags c r) = row_storeCorrupt r" "row_drift (set_flags c r) = row_drift r"
  "row_hasUnitFiles (set_flags c r) = row_hasUnitFiles r"
  by (simp_all add: set_flags_def)

lemma classify_not_foreign: "cl_definitionState i = definitionStateText st \<Longrightarrow> cf_state (classifyRow i) \<noteq> StateForeign"
  using classify_flags(3,4) [of i st] by (cases "st = DefPair \<and> cf_canRemoveDefinition (classifyRow i)") (auto simp: classify_pair_def)

lemma default_input_simps [simp]:
  "cl_drift default_input = False" "cl_storeCorrupt default_input = False" "cl_hasStoreRecord default_input = False"
  by (simp_all add: default_input_def)

text \<open>A row flagged by a classification of its own state, drift, corruption and runtime is good.\<close>

lemma row_good_classified:
  assumes "cl_definitionState i = definitionStateText st" "row_definitionState r = definitionStateText st"
    and "st \<in> {DefPair, DefPartial} \<Longrightarrow> row_hasUnitFiles r"
    and "cl_hasStoreRecord i \<or> cl_drift i \<or> cl_storeCorrupt i \<Longrightarrow> row_hasStoreRecord r"
    and "cl_drift i \<longleftrightarrow> row_drift r" "cl_storeCorrupt i \<longleftrightarrow> row_storeCorrupt r"
    and "\<not> row_drift r \<Longrightarrow> \<not> row_storeCorrupt r \<Longrightarrow> st \<in> {DefPair, DefPartial} \<Longrightarrow> cl_runtime i = row_runtime r"
  shows "row_good (set_flags (classifyRow i) r)"
  unfolding row_good_def using assms classify_flags(1,2) [OF assms(1)] classify_not_foreign [OF assms(1)]
  by (intro exI [of _ st]) auto

lemma row_good_detail [simp]: "row_good (r\<lparr>row_detail := d\<rparr>) = row_good r" "row_le r (s\<lparr>row_detail := d\<rparr>) = row_le r s"
  by (simp_all add: row_good_def row_le_def)

definition shows_unit :: "owned_unit \<Rightarrow> row \<Rightarrow> bool" where
  "shows_unit u r \<longleftrightarrow> row_id r = own_id u \<and> row_mountPoint r = own_mountPoint u \<and> row_access r = own_access u \<and>
     row_authentication r = own_authentication u \<and> row_definitionState r = definitionStateText (own_state u)"

lemma shows_unit_le: "shows_unit u r \<Longrightarrow> row_le r s \<Longrightarrow> shows_unit u s"
  by (simp add: shows_unit_def row_le_def)

lemma unit_row_good:
  assumes "unit_row P u w = (r, w')"
  shows "row_good r \<and> shows_unit u r"
proof -
  obtain rt w1 where "(if own_state u = DefPair \<or> own_state u = DefPartial
      then inspectRuntime P (own_unitName u) (own_mountPoint u) (own_what u) w else (default_runtime, w)) = (rt, w1)" by fastforce
  then have r: "r = set_flags (classifyRow (default_input\<lparr>cl_definitionState := definitionStateText (own_state u),
         cl_authentication := own_authentication u, cl_runtime := rt\<rparr>))
       (default_row\<lparr>row_mountPoint := own_mountPoint u, row_unc := own_what u,
          row_definitionWhat := own_what u, row_authentication := own_authentication u, row_access := own_access u,
          row_definitionState := definitionStateText (own_state u), row_runtime := rt,
          row_detail := row_detail r, row_id := own_id u\<rparr>)"
    using assms by (auto simp: unit_row_def Let_def set_flags_def default_row_def)
  have "row_good r" by (subst r, rule row_good_classified [where st = "own_state u"]) (simp_all add: default_row_def)
  moreover have "shows_unit u r" by (subst r) (simp add: shows_unit_def)
  ultimately show ?thesis ..
qed

lemma record_onto_row_good:
  assumes "row_good r"
  shows "row_good (record_onto_row snap r) \<and> row_le r (record_onto_row snap r) \<and>
    row_hasStoreRecord (record_onto_row snap r)"
proof -
  obtain st where st: "row_definitionState r = definitionStateText st" "st \<in> {DefPair, DefPartial} \<longrightarrow> row_hasUnitFiles r"
    using assms unfolding row_good_def by blast
  let ?r2 = "\<lambda>drift unc. r\<lparr>row_hasStoreRecord := True, row_storeUsername := sh_username (sn_share snap),
     row_storeDomain := sh_domain (sn_share snap), row_storeCorrupt := sn_corrupt snap \<or> row_storeCorrupt r, row_drift := drift, row_unc := unc\<rparr>"
  let ?f = "\<lambda>r2. if row_storeCorrupt r2 \<or> row_drift r2 then
      (let c = classifyRow (default_input\<lparr>cl_definitionState := row_definitionState r2, cl_hasStoreRecord := True,
                cl_storeCorrupt := row_storeCorrupt r2, cl_drift := row_drift r2\<rparr>) in
      (set_flags c r2)\<lparr>row_detail := cf_detail c\<rparr>)
    else r2"
  have "\<exists>drift unc. record_onto_row snap r = ?f (?r2 drift unc)"
  proof (cases "sn_corrupt snap")
    case True
    then have "record_onto_row snap r = ?f (?r2 (row_drift r) (row_unc r))"
      unfolding record_onto_row_def Let_def by (cases r) simp
    then show ?thesis by blast
  next
    case False
    obtain d unc where "record_onto_row snap r = ?f (r\<lparr>row_hasStoreRecord := True, row_storeUsername := sh_username (sn_share snap),
       row_storeDomain := sh_domain (sn_share snap), row_drift := d, row_unc := unc\<rparr>)"
      unfolding record_onto_row_def Let_def if_not_P [OF False] by blast
    moreover have "r\<lparr>row_hasStoreRecord := True, row_storeUsername := sh_username (sn_share snap),
       row_storeDomain := sh_domain (sn_share snap), row_drift := d, row_unc := unc\<rparr> = ?r2 d unc" using False by (cases r) simp
    ultimately show ?thesis by metis
  qed
  then obtain drift unc where f: "record_onto_row snap r = ?f (?r2 drift unc)" by blast
  show ?thesis
  proof (cases "sn_corrupt snap \<or> row_storeCorrupt r \<or> drift")
    case True
    then show ?thesis unfolding f Let_def
      by (auto simp: st row_le_def intro!: row_good_classified [where st = st])
  next
    case False
    then show ?thesis using assms unfolding f Let_def by (auto simp: row_le_def row_good_def)
  qed
qed


lemma health_onto_row_good:
  assumes "row_good r"
  shows "row_good (health_onto_row a h r) \<and> row_le r (health_onto_row a h r)"
proof -
  obtain st where st: "row_definitionState r = definitionStateText st" "st \<in> {DefPair, DefPartial} \<longrightarrow> row_hasUnitFiles r"
    using assms unfolding row_good_def by blast
  let ?r1 = "r\<lparr>row_credentialApplicable := a, row_credentialHealthy := h\<rparr>"
  show ?thesis
  proof (cases "row_storeCorrupt r \<or> row_drift r")
    case True
    then have "health_onto_row a h r = ?r1" by (simp add: health_onto_row_def)
    then show ?thesis using assms by (simp add: row_good_def row_le_def)
  next
    case False
    have "row_good (set_flags (classifyRow (default_input\<lparr>cl_definitionState := row_definitionState r,
            cl_authentication := row_authentication r, cl_runtime := row_runtime r,
            cl_credentialApplicable := a, cl_credentialHealthy := h\<rparr>)) ?r1)"
      using False st by (intro row_good_classified [where st = st]) auto
    then show ?thesis using False by (simp add: health_onto_row_def Let_def row_le_def)
  qed
qed

lemma definition_onto_row_facts:
  assumes "row_definitionState r = ''none''" "\<not> row_drift r"
  shows "\<exists>st. row_definitionState (definition_onto_row d r) = definitionStateText st \<and>
      (st \<in> {DefPair, DefPartial} \<longrightarrow> row_hasUnitFiles (definition_onto_row d r) \<and> row_drift (definition_onto_row d r)) \<and>
      (st \<notin> {DefPair, DefPartial} \<longrightarrow> \<not> row_drift (definition_onto_row d r))"
    "row_id (definition_onto_row d r) = row_id r" "row_hasStoreRecord (definition_onto_row d r) = row_hasStoreRecord r"
    "row_storeCorrupt (definition_onto_row d r) = row_storeCorrupt r"
  using assms definitionStateText_cases(1) [of DefNone]
  by (cases "def_state d"; auto simp: definition_onto_row_def intro: exI [of _ "def_state d"] exI [of _ DefNone])+

lemma unmatched_row_good:
  assumes "unmatched_row P u snap w = (r, w')"
  shows "row_good r \<and> row_id r = sh_id (sn_share snap) \<and> row_hasStoreRecord r"
proof -
  let ?r = "record_only_row snap"
  obtain r1 w1 where 1: "(if sh_mountPoint (sn_share snap) = [] then (?r, w)
            else (case unitPathsFor (systemd_escape P) (cleanPath (sh_mountPoint (sn_share snap))) of
              Inl e \<Rightarrow> (?r, w)
            | Inr paths \<Rightarrow> (case inspectDefinition paths u (cleanPath (sh_mountPoint (sn_share snap))) w of
                (d, w1) \<Rightarrow> (definition_onto_row d ?r, w1)))) = (r1, w1)" by fastforce
  have base: "row_definitionState ?r = ''none''" "\<not> row_drift ?r" "row_id ?r = sh_id (sn_share snap)" "row_hasStoreRecord ?r"
      "row_storeCorrupt ?r = sn_corrupt snap"
    by (simp_all add: record_only_row_def default_row_def Let_def)
  have "r1 = ?r \<or> (\<exists>d. r1 = definition_onto_row d ?r)" using 1 by (auto split: if_splits sum.splits prod.splits)
  moreover have "definition_onto_row d ?r = ?r" if "def_state d = DefNone" for d using that by (simp add: definition_onto_row_def)
  ultimately obtain d where r1: "r1 = definition_onto_row d ?r" by (metis (no_types) definition_check.select_convs(1))
  note f = definition_onto_row_facts [OF base(1,2), of d, folded r1]
  obtain st where st: "row_definitionState r1 = definitionStateText st" "st \<in> {DefPair, DefPartial} \<longrightarrow> row_hasUnitFiles r1 \<and> row_drift r1"
    using f(1) by blast
  have r: "\<exists>detail. r = (set_flags (classifyRow (default_input\<lparr>cl_definitionState := row_definitionState r1,
                     cl_authentication := row_authentication r1, cl_hasStoreRecord := True,
                     cl_storeCorrupt := sn_corrupt snap, cl_drift := row_drift r1\<rparr>)) r1)\<lparr>row_detail := detail\<rparr>"
    using assms 1 by (auto simp: unmatched_row_def Let_def)
  have "row_good (set_flags (classifyRow (default_input\<lparr>cl_definitionState := row_definitionState r1,
                     cl_authentication := row_authentication r1, cl_hasStoreRecord := True,
                     cl_storeCorrupt := sn_corrupt snap, cl_drift := row_drift r1\<rparr>)) r1)"
    using st f base by (intro row_good_classified [where st = st]) auto
  then show ?thesis using r f base by auto
qed

text \<open>The index leads to a row with the id it is asked for, and all rows are good.\<close>

definition merge_ok :: "merge \<Rightarrow> bool" where
  "merge_ok m \<longleftrightarrow> list_all row_good (mg_rows m) \<and>
     (\<forall>i k. mg_index m i = Some k \<longrightarrow> k < length (mg_rows m) \<and> row_id (mg_rows m ! k) = i)"

text \<open>Later rows are appended, earlier ones grow.\<close>

definition grows :: "merge \<Rightarrow> merge \<Rightarrow> bool" where
  "grows m m' \<longleftrightarrow> length (mg_rows m) \<le> length (mg_rows m') \<and>
     (\<forall>k < length (mg_rows m). row_le (mg_rows m ! k) (mg_rows m' ! k))"

lemma grows_refl [simp]: "grows m m"
  by (simp add: grows_def)

lemma grows_trans: "grows m m1 \<Longrightarrow> grows m1 m' \<Longrightarrow> grows m m'"
  unfolding grows_def by (meson le_trans less_le_trans row_le_trans)

lemma find_row_ok:
  assumes "merge_ok m" "find_row m i = Some k"
  shows "k < length (mg_rows m)" "row_id (mg_rows m ! k) = i" "row_good (mg_rows m ! k)" "i \<noteq> []"
  using assms by (auto simp: merge_ok_def find_row_def list_all_length split: if_splits)

lemma merge_update:
  assumes "merge_ok m" "k < length (mg_rows m)" "row_good r" "row_le (mg_rows m ! k) r"
  shows "merge_ok (m\<lparr>mg_rows := (mg_rows m)[k := r]\<rparr>)" "grows m (m\<lparr>mg_rows := (mg_rows m)[k := r]\<rparr>)"
  using assms by (auto simp: merge_ok_def grows_def list_all_length nth_list_update row_le_def)

lemma merge_append:
  assumes "merge_ok m" "row_good r" "row_id r = i"
  shows "merge_ok (m\<lparr>mg_rows := mg_rows m @ [r], mg_index := (if i = [] then mg_index m else (mg_index m)(i \<mapsto> length (mg_rows m))),
      mg_covered := cov\<rparr>)"
    "grows m (m\<lparr>mg_rows := mg_rows m @ [r], mg_index := ix, mg_covered := cov\<rparr>)"
  using assms by (auto simp: merge_ok_def grows_def nth_append intro: less_SucI split: if_splits)

lemma merge_units_rows:
  assumes "merge_units P us m w = (m', w')" "merge_ok m"
  shows "merge_ok m' \<and> (\<exists>new. mg_rows m' = mg_rows m @ new \<and> list_all2 shows_unit us new)"
  using assms
proof (induction P us m w arbitrary: m' w' rule: merge_units.induct)
  case (2 P u us m w)
  obtain r w1 where 1: "unit_row P u w = (r, w1)" by fastforce
  note g = unit_row_good [OF 1]
  have "row_id r = own_id u" using g by (simp add: shows_unit_def)
  note ok = merge_append(1) [OF "2.prems"(2) conjunct1 [OF g] this, of "insert (own_mountPoint u) (mg_covered m)"]
  show ?case using "2.IH" [OF 1 [symmetric] _ ok] "2.prems"(1) 1 g by fastforce
qed simp

lemma merge_records_rows:
  assumes "merge_records P u snaps m w = (m', w')" "merge_ok m"
  shows "merge_ok m' \<and> grows m m' \<and>
    (\<forall>snap \<in> set snaps. sh_id (sn_share snap) \<noteq> [] \<longrightarrow>
       (\<exists>k < length (mg_rows m'). row_id (mg_rows m' ! k) = sh_id (sn_share snap) \<and> row_hasStoreRecord (mg_rows m' ! k)))"
  using assms
proof (induction P u snaps m w arbitrary: m' w' rule: merge_records.induct)
  case (2 P u snap snaps m w)
  let ?i = "sh_id (sn_share snap)"
  have "\<exists>m1 w1. merge_records P u snaps m1 w1 = (m', w') \<and> merge_ok m1 \<and> grows m m1 \<and>
      (\<exists>k < length (mg_rows m1). row_id (mg_rows m1 ! k) = ?i \<and> row_hasStoreRecord (mg_rows m1 ! k)) \<and>
      (merge_records P u snaps m1 w1 = (m', w') \<longrightarrow> merge_ok m1 \<longrightarrow> merge_ok m' \<and> grows m1 m' \<and>
        (\<forall>snap \<in> set snaps. sh_id (sn_share snap) \<noteq> [] \<longrightarrow>
          (\<exists>k < length (mg_rows m'). row_id (mg_rows m' ! k) = sh_id (sn_share snap) \<and> row_hasStoreRecord (mg_rows m' ! k))))"
  proof (cases "find_row m ?i")
    case (Some k)
    let ?m1 = "m\<lparr>mg_rows := (mg_rows m)[k := record_onto_row snap (mg_rows m ! k)]\<rparr>"
    note k = find_row_ok [OF "2.prems"(2) Some]
    note g = record_onto_row_good [OF k(3), of snap]
    have "row_id (record_onto_row snap (mg_rows m ! k)) = ?i" using g k(2) by (simp add: row_le_def)
    then have "\<exists>j < length (mg_rows ?m1). row_id (mg_rows ?m1 ! j) = ?i \<and> row_hasStoreRecord (mg_rows ?m1 ! j)"
      using g k(1) by (intro exI [of _ k]) simp
    moreover have "merge_records P u snaps ?m1 w = (m', w')" using "2.prems"(1) Some by simp
    ultimately show ?thesis
      using merge_update [OF "2.prems"(2) k(1)] g "2.IH"(2) [OF refl Some] by (intro exI [of _ ?m1] exI [of _ w]) auto
  next
    case None
    obtain r w1 where 1: "unmatched_row P u snap w = (r, w1)" by fastforce
    note g = unmatched_row_good [OF 1]
    let ?m1 = "m\<lparr>mg_rows := mg_rows m @ [r], mg_index := (if ?i = [] then mg_index m else (mg_index m)(?i \<mapsto> length (mg_rows m))),
        mg_covered := (if sh_mountPoint (sn_share snap) = [] then mg_covered m else insert (sh_mountPoint (sn_share snap)) (mg_covered m))\<rparr>"
    have "\<exists>j < length (mg_rows ?m1). row_id (mg_rows ?m1 ! j) = ?i \<and> row_hasStoreRecord (mg_rows ?m1 ! j)"
      using g by (intro exI [of _ "length (mg_rows m)"]) simp
    moreover have "merge_records P u snaps ?m1 w1 = (m', w')" using "2.prems"(1) None 1 by (simp add: Let_def)
    ultimately show ?thesis
      using merge_append [OF "2.prems"(2)] g "2.IH"(1) [OF refl None 1 [symmetric]] by (intro exI [of _ ?m1] exI [of _ w1]) auto
  qed
  then obtain m1 k where m1: "grows m m1" "k < length (mg_rows m1)" "row_id (mg_rows m1 ! k) = ?i"
      "row_hasStoreRecord (mg_rows m1 ! k)" "merge_ok m'" "grows m1 m'"
      "\<forall>snap \<in> set snaps. sh_id (sn_share snap) \<noteq> [] \<longrightarrow>
          (\<exists>k < length (mg_rows m'). row_id (mg_rows m' ! k) = sh_id (sn_share snap) \<and> row_hasStoreRecord (mg_rows m' ! k))"
    by blast
  have "k < length (mg_rows m')" "row_le (mg_rows m1 ! k) (mg_rows m' ! k)"
    using m1(2,6) unfolding grows_def by auto
  then have "\<exists>k < length (mg_rows m'). row_id (mg_rows m' ! k) = ?i \<and> row_hasStoreRecord (mg_rows m' ! k)"
    using m1(3,4) by (intro exI [of _ k]) (simp add: row_le_def)
  then show ?case using m1 grows_trans by auto
qed simp

lemma merge_health_rows:
  "merge_ok m \<Longrightarrow> merge_ok (merge_health hs m) \<and> grows m (merge_health hs m) \<and> mg_covered (merge_health hs m) = mg_covered m"
proof (induction hs m rule: merge_health.induct)
  case (2 i a h hs m)
  show ?case
  proof (cases "find_row m i")
    case (Some k)
    note k = find_row_ok [OF "2.prems" Some]
    note u = merge_update [OF "2.prems" k(1) conjunct1 [OF health_onto_row_good [OF k(3)]] conjunct2 [OF health_onto_row_good [OF k(3)]], of a h]
    show ?thesis using "2.IH"(2) [OF Some u(1)] u(2) grows_trans Some by simp
  qed (use 2 in simp)
qed simp

lemma removal_of_good:
  assumes "row_good r"
  shows "fst (removal_of r) \<in> {''delete'', ''removeOrphan''} \<Longrightarrow> row_definitionState r \<in> {''pair'', ''partial''} \<and>
      \<not> row_drift r \<and> \<not> row_storeCorrupt r \<and> stoppable (row_runtime r)"
    "fst (removal_of r) = ''removeRecord'' \<Longrightarrow> row_hasStoreRecord r \<and> \<not> row_canRemoveDefinition r"
    "pr_section (present_of r) = ''managed''"
proof -
  obtain st where st: "row_definitionState r = definitionStateText st"
     "row_canRemoveDefinition r \<longrightarrow> st \<in> {DefPair, DefPartial} \<and> \<not> row_drift r \<and> \<not> row_storeCorrupt r \<and> stoppable (row_runtime r)"
     "row_canRemoveLocalRecord r \<longrightarrow> row_hasStoreRecord r \<and> \<not> row_canRemoveDefinition r" "row_state r \<noteq> StateForeign"
    using assms unfolding row_good_def by blast
  then show "pr_section (present_of r) = ''managed''" by (simp add: present_of_def presentRow_def Let_def)
  show "row_definitionState r \<in> {''pair'', ''partial''} \<and> \<not> row_drift r \<and> \<not> row_storeCorrupt r \<and> stoppable (row_runtime r)"
    if "fst (removal_of r) \<in> {''delete'', ''removeOrphan''}"
  proof -
    have "row_canRemoveDefinition r" using that by (auto simp: removal_of_def rowRemoval_def split: if_splits)
    then show ?thesis using st(1,2) by (auto simp: definitionStateText_def)
  qed
  show "row_hasStoreRecord r \<and> \<not> row_canRemoveDefinition r" if "fst (removal_of r) = ''removeRecord''"
    using that st(3) by (auto simp: removal_of_def rowRemoval_def split: if_splits)
qed

lemma shows_unit_presented:
  "shows_unit u r \<Longrightarrow> pr_access (present_of r) =
     (if own_state u \<in> {DefPair, DefPartial} then accessModeToString (own_access u) else [])"
  by (simp add: shows_unit_def present_of_def presentRow_def Let_def definitionStateText_cases)

text \<open>The rows before the last step: all good, growing from the units, with every record in one of them.\<close>

lemma computeRefresh_merge:
  assumes "computeRefresh E c w = (res, c', w')"
  obtains m es where "rr_rows res = map finish_row (mg_rows m @ foreign_rows m es)" "merge_ok m"
    "length (fst (enumerateOwnedUnits (fe_uid E) w)) \<le> length (mg_rows m)"
    "\<And>k. k < length (fst (enumerateOwnedUnits (fe_uid E) w)) \<Longrightarrow> shows_unit (fst (enumerateOwnedUnits (fe_uid E) w) ! k) (mg_rows m ! k)"
    "\<And>snap. snap \<in> set (fst (shareSnapshots (fe_config E) c)) \<Longrightarrow> sh_id (sn_share snap) \<noteq> [] \<Longrightarrow>
       \<exists>r \<in> set (mg_rows m). row_id r = sh_id (sn_share snap) \<and> row_hasStoreRecord r"
proof -
  obtain units w1 where 1: "enumerateOwnedUnits (fe_uid E) w = (units, w1)" by fastforce
  obtain m1 w2 where 2: "merge_units (fe_platform E) units \<lparr>mg_rows = [], mg_index = Map.empty, mg_covered = {}\<rparr> w1 = (m1, w2)" by fastforce
  obtain snaps c1 where 3: "shareSnapshots (fe_config E) c = (snaps, c1)" by fastforce
  obtain m2 w3 where 4: "merge_records (fe_platform E) (fe_uid E) snaps m1 w2 = (m2, w3)" by fastforce
  obtain inv w4 where 5: "invokeHelperAction (fe_kauth E) ''inventory'' Map.empty w3 = (inv, w4)" by fastforce
  define m3 where "m3 = (if hr_outcome inv = ConfirmedSuccess then merge_health (fe_json E (data_text (hr_data inv) ''shares'')) m2 else m2)"
  obtain es where res: "rr_rows res = map finish_row (mg_rows m3 @ foreign_rows m3 es)"
  proof (cases "currentMounts (fe_platform E) w4")
    case None
    then have "rr_rows res = map finish_row (mg_rows m3 @ foreign_rows m3 [])"
      using assms by (auto simp: computeRefresh_def 1 2 3 4 5 Let_def m3_def foreign_rows_def)
    then show thesis using that by blast
  next
    case (Some es)
    then have "rr_rows res = map finish_row (mg_rows m3 @ foreign_rows m3 es)"
      using assms by (auto simp: computeRefresh_def 1 2 3 4 5 Let_def m3_def)
    then show thesis using that by blast
  qed
  have m1: "merge_ok m1" "list_all2 shows_unit units (mg_rows m1)"
    using merge_units_rows [OF 2] by (simp_all add: merge_ok_def)
  note m2 = merge_records_rows [OF 4 m1(1)]
  have m3: "merge_ok m3" "grows m2 m3" using m2 merge_health_rows by (simp_all add: m3_def)
  have g: "grows m1 m3" using m2 m3(2) grows_trans by blast
  have "length units \<le> length (mg_rows m3)" using g list_all2_lengthD [OF m1(2)] by (simp add: grows_def)
  moreover have "shows_unit (units ! k) (mg_rows m3 ! k)" if "k < length units" for k
    using g m1(2) that shows_unit_le unfolding grows_def list_all2_conv_all_nth by metis
  moreover have "\<exists>r \<in> set (mg_rows m3). row_id r = sh_id (sn_share snap) \<and> row_hasStoreRecord r"
    if snap: "snap \<in> set snaps" "sh_id (sn_share snap) \<noteq> []" for snap
  proof -
    obtain k where k: "k < length (mg_rows m2)" "row_id (mg_rows m2 ! k) = sh_id (sn_share snap)" "row_hasStoreRecord (mg_rows m2 ! k)"
      using m2 snap by blast
    then have "k < length (mg_rows m3)" "row_le (mg_rows m2 ! k) (mg_rows m3 ! k)" using m3(2) unfolding grows_def by auto
    then show ?thesis using k by (intro bexI [of _ "mg_rows m3 ! k"]) (auto simp: row_le_def)
  qed
  ultimately show thesis using that [OF res m3(1)] by (simp add: 1 3)
qed

lemma foreign_presented:
  "r \<in> set (map finish_row (foreign_rows m es)) \<Longrightarrow>
   pr_section (shown_presentation r) = ''foreign'' \<and> fst (shown_removal r) = [] \<and> pr_access (shown_presentation r) = []"
  by (auto simp: foreign_rows_def finish_row_def foreign_row_def default_row_def present_of_def presentRow_def
      removal_of_def rowRemoval_def Let_def)



section \<open>The refresh on a concrete input\<close>

text \<open>A user without records whose helper does not answer.\<close>

definition quiet_front_end :: "(bool, file_state) front_end" where
  "quiet_front_end = \<lparr>fe_platform = boot_platform, fe_uid = 1000, fe_qt = plain_qt, fe_config = file_config,
     fe_kauth = (\<lambda>action args w. (\<lparr>exec_succeeded = False, job_error = NoResponderError, job_data = [], job_errorText = []\<rparr>, w)),
     fe_json = (\<lambda>s. []), fe_boot = (\<lambda>w. \<lparr>finished = False, normal_exit = False, exit_code = 0, stdout = []\<rparr>)\<rparr>"


end
