(* ===== verification/MountActions.thy ===== *)
theory MountActions
  imports MountModel
begin

text \<open>
  Model of \<open>src/session/mountactions.cpp\<close>, \<open>mountpointcheck.cpp\<close> and \<open>userlock.cpp\<close>: what the front ends
  do when the user adds or removes a share, and the checks of the form while the user types.  The
  functions given to \<open>QtConcurrent::run\<close> are one definition each; they hold the lock of the user from
  the first to the last step, so the records change only by their own hand.
\<close>

section \<open>The mount point of the form\<close>

definition canonicalMountPoint' :: "qstring \<Rightarrow> qstring \<Rightarrow> qstring" where
  "canonicalMountPoint' raw homeDir =
     (let path = trimmed raw; ownHome = path = ''~'' \<or> prefix ''~/'' path in
      cleanPath (if ownHome \<and> homeDir \<noteq> [] then homeDir @ drop 1 path else path))"

datatype form_problem =
  ChooseFolder | OnlyOwnTilde | BadMountpoint mountpoint_error | FolderUsed | InsideMount qstring | WalkProblem preview

definition mountPointProblem :: "qstring \<Rightarrow> qstring \<Rightarrow> form_problem option" where
  "mountPointProblem raw homeDir =
     (if trimmed raw = [] then Some ChooseFolder
      else (let canonical = canonicalMountPoint' raw homeDir in
        if prefix ''~'' canonical then Some OnlyOwnTilde
        else (case validateMountpoint canonical homeDir of Inl e \<Rightarrow> Some (BadMountpoint e) | Inr plan \<Rightarrow> None)))"

definition has_units :: "'s platform \<Rightarrow> (qstring \<Rightarrow> bool) \<Rightarrow> qstring \<Rightarrow> bool" where
  "has_units P unitFileExists path =
     (case unitPathsFor (systemd_escape P) path of
        Inl e \<Rightarrow> False
      | Inr paths \<Rightarrow> unitFileExists (mountUnitPath paths) \<or> unitFileExists (automountUnitPath paths))"

text \<open>Every folder between the root and the path, the path itself left out.\<close>

fun inner_ancestors :: "qstring \<Rightarrow> qstring list \<Rightarrow> qstring list" where
  "inner_ancestors ancestor (s # t # ss) = (let a = ancestor @ ''/'' @ s in a # inner_ancestors a (t # ss))"
| "inner_ancestors ancestor ss = []"

definition unitCollisionProblem :: "'s platform \<Rightarrow> mountpoint_plan \<Rightarrow> (qstring \<Rightarrow> bool) \<Rightarrow> form_problem option" where
  "unitCollisionProblem P plan unitFileExists =
     (if has_units P unitFileExists (plan_path plan) then Some FolderUsed
      else (case filter (has_units P unitFileExists) (inner_ancestors (plan_root plan) (plan_suffix plan)) of
              [] \<Rightarrow> None | a # as \<Rightarrow> Some (InsideMount a)))"

text \<open>\<open>QFile::exists\<close> on the path of a unit; a link counts for what it points to.\<close>

definition unit_exists :: "'s world \<Rightarrow> qstring \<Rightarrow> bool" where
  "unit_exists w path =
     (case file_at_path w path of
        None \<Rightarrow> False
      | Some n \<Rightarrow> (case ikind n of SymbolicLink None \<Rightarrow> False | SymbolicLink (Some j) \<Rightarrow> inodes w j \<noteq> None | _ \<Rightarrow> True))"

definition mountPointFsProblem :: "'s platform \<Rightarrow> qstring \<Rightarrow> qstring \<Rightarrow> uid \<Rightarrow> 's world \<Rightarrow> form_problem option \<times> 's world" where
  "mountPointFsProblem P raw homeDir u w =
     (case validateMountpoint (canonicalMountPoint' raw homeDir) homeDir of
        Inl e \<Rightarrow> (None, w)
      | Inr plan \<Rightarrow>
          (case unitCollisionProblem P plan (unit_exists w) of
             Some p \<Rightarrow> (Some p, w)
           | None \<Rightarrow>
              (case previewMountpointProblem plan u w of
                 (p, w1) \<Rightarrow> (if p = NoProblem then None else Some (WalkProblem p), w1))))"

section \<open>One check at a time\<close>

text \<open>
  The check that runs, the latest request that waits for it, and the requests answered so far.  While
  a result is delivered its receiver may ask for another check, before the waiting one is started.
\<close>

record check_state =
  ck_running :: "qstring option"
  ck_pending :: "qstring option"
  ck_answered :: "qstring list"

definition startMountPointCheck :: "qstring \<Rightarrow> check_state \<Rightarrow> check_state" where
  "startMountPointCheck raw st = st\<lparr>ck_running := Some raw\<rparr>"

definition checkMountPoint :: "qstring \<Rightarrow> check_state \<Rightarrow> check_state" where
  "checkMountPoint raw st =
     (if ck_running st \<noteq> None then st\<lparr>ck_pending := Some raw\<rparr> else startMountPointCheck raw st)"

definition check_finished :: "qstring \<Rightarrow> qstring option \<Rightarrow> check_state \<Rightarrow> check_state" where
  "check_finished raw receiver st =
     (let next = ck_pending st;
          st1 = st\<lparr>ck_running := None, ck_pending := None, ck_answered := ck_answered st @ [raw]\<rparr>;
          st2 = (case receiver of None \<Rightarrow> st1 | Some r \<Rightarrow> checkMountPoint r st1) in
      case next of None \<Rightarrow> st2 | Some n \<Rightarrow> checkMountPoint n st2)"

section \<open>The lock of the user\<close>

datatype user_lock_error = NoRuntimeDir | CannotOpenLock errno | CannotLock errno

text \<open>What the runtime directory is and what \<open>open\<close> and \<open>flock\<close> answer.\<close>

record lock_env =
  runtime_dir :: qstring
  lock_open :: "errno option"
  lock_flock :: "errno option"

definition user_lock :: "lock_env \<Rightarrow> user_lock_error option" where
  "user_lock L =
     (if runtime_dir L = [] then Some NoRuntimeDir
      else (case lock_open L of
        Some e \<Rightarrow> Some (CannotOpenLock e)
      | None \<Rightarrow> (case lock_flock L of Some e \<Rightarrow> Some (CannotLock e) | None \<Rightarrow> None)))"

section \<open>Adding and removing\<close>

datatype action_message =
  ActAddress address_error | ActGuestFields | ActLock user_lock_error | ActHelper helper_result
| ActInvalidId | ActNotSaved CommitResult | ActAdded bool | ActNoSuchShare | ActNotRemoved qstring helper_result
| ActRemoved | ActRecordLeft | ActNotConfirmed | ActPaths paths_error | ActNoDefinition qstring

record work_result =
  wr_success :: bool
  wr_id :: qstring
  wr_message :: action_message

definition failed_with :: "qstring \<Rightarrow> action_message \<Rightarrow> work_result" where
  "failed_with i m = \<lparr>wr_success = False, wr_id = i, wr_message = m\<rparr>"

definition define_arguments :: "qstring \<Rightarrow> qstring \<Rightarrow> qstring \<Rightarrow> qstring \<Rightarrow> qstring \<Rightarrow> qstring \<Rightarrow> arguments" where
  "define_arguments unc mp username domain password acc =
     [''unc'' \<mapsto> unc, ''path'' \<mapsto> mp, ''username'' \<mapsto> username, ''domain'' \<mapsto> domain, ''password'' \<mapsto> password, ''access'' \<mapsto> acc]"

definition new_record :: "qstring \<Rightarrow> qstring \<Rightarrow> qstring \<Rightarrow> qstring \<Rightarrow> qstring \<Rightarrow> qstring \<Rightarrow> share" where
  "new_record i unc mp username domain acc =
     \<lparr>sh_id = i, sh_unc = unc, sh_mountPoint = mp, sh_username = username, sh_domain = domain,
      sh_access = or_else acc (accessModeToString ReadWrite)\<rparr>"

text \<open>The worker of \<open>addShare\<close>: lock, helper, record.\<close>

definition add_work ::
    "('s, 'c) front_end \<Rightarrow> lock_env \<Rightarrow> qstring \<Rightarrow> qstring \<Rightarrow> qstring \<Rightarrow> qstring \<Rightarrow> qstring \<Rightarrow> qstring \<Rightarrow>
     'c \<Rightarrow> 's world \<Rightarrow> work_result \<times> 'c \<times> 's world" where
  "add_work E L unc mp username domain password acc c w =
     (case user_lock L of
        Some e \<Rightarrow> (failed_with [] (ActLock e), c, w)
      | None \<Rightarrow>
     (case invokeHelperAction (fe_kauth E) ''definesystem'' (define_arguments unc mp username domain password acc) w of
        (r, w1) \<Rightarrow>
          if hr_outcome r \<noteq> ConfirmedSuccess then (failed_with [] (ActHelper r), c, w1)
          else if \<not> isValidShareId (hr_id r) then (failed_with [] ActInvalidId, c, w1)
          else (case commitShare (fe_config E) (new_record (hr_id r) unc mp username domain acc) 0 c of
            (cr, c1) \<Rightarrow>
              if cr \<noteq> CommitOk then (failed_with (hr_id r) (ActNotSaved cr), c1, w1)
              else (\<lparr>wr_success = True, wr_id = hr_id r, wr_message = ActAdded (hr_activated r)\<rparr>, c1, w1))))"

definition addShare ::
    "('s, 'c) front_end \<Rightarrow> lock_env \<Rightarrow> qstring \<Rightarrow> qstring \<Rightarrow> qstring \<Rightarrow> qstring \<Rightarrow> qstring \<Rightarrow> qstring \<Rightarrow> qstring \<Rightarrow>
     'c \<Rightarrow> 's world \<Rightarrow> work_result \<times> 'c \<times> 's world" where
  "addShare E L homeDir shareInput rawMountPoint username domain password acc c w =
     (let mp = canonicalMountPoint' rawMountPoint homeDir in
      case resolveShareInput (fe_qt E) shareInput username of
        Inl e \<Rightarrow> (failed_with [] (ActAddress e), c, w)
      | Inr unc \<Rightarrow>
          if \<not> guestFieldsConsistent username domain password then (failed_with [] ActGuestFields, c, w)
          else add_work E L unc mp username domain password acc c w)"

definition deleteShare ::
    "('s, 'c) front_end \<Rightarrow> lock_env \<Rightarrow> qstring \<Rightarrow> 'c \<Rightarrow> 's world \<Rightarrow> work_result \<times> 'c \<times> 's world" where
  "deleteShare E L i c w =
     (case user_lock L of
        Some e \<Rightarrow> (failed_with i (ActLock e), c, w)
      | None \<Rightarrow>
     (case snapshotById (fe_config E) i c of
        (snap, c1) \<Rightarrow>
          if \<not> sn_exists snap then (failed_with i ActNoSuchShare, c1, w)
          else
     (case invokeHelperAction (fe_kauth E) ''undefinesystem'' [''path'' \<mapsto> sh_mountPoint (sn_share snap)] w of
        (r, w1) \<Rightarrow>
          if hr_outcome r \<noteq> ConfirmedSuccess
          then (failed_with i (ActNotRemoved (sh_mountPoint (sn_share snap)) r), c1, w1)
          else (case removeShare (fe_config E) i c1 of
            (ok, c2) \<Rightarrow>
              (\<lparr>wr_success = ok, wr_id = i, wr_message = if ok then ActRemoved else ActRecordLeft\<rparr>, c2, w1)))))"

definition removeOrphanedRecord ::
    "('s, 'c) front_end \<Rightarrow> lock_env \<Rightarrow> qstring \<Rightarrow> 'c \<Rightarrow> work_result \<times> 'c" where
  "removeOrphanedRecord E L i c =
     (case user_lock L of
        Some e \<Rightarrow> (failed_with i (ActLock e), c)
      | None \<Rightarrow>
          (case removeShare (fe_config E) i c of
             (ok, c1) \<Rightarrow> (\<lparr>wr_success = ok, wr_id = i, wr_message = if ok then ActRemoved else ActNotConfirmed\<rparr>, c1)))"

definition removeOrphanByPath ::
    "('s, 'c) front_end \<Rightarrow> lock_env \<Rightarrow> qstring \<Rightarrow> 's world \<Rightarrow> work_result \<times> 's world" where
  "removeOrphanByPath E L mp w =
     (case user_lock L of
        Some e \<Rightarrow> (failed_with [] (ActLock e), w)
      | None \<Rightarrow>
     (case unitPathsFor (systemd_escape (fe_platform E)) mp of
        Inl e \<Rightarrow> (failed_with [] (ActPaths e), w)
      | Inr paths \<Rightarrow>
     (case inspectDefinition paths (fe_uid E) mp w of
        (def, w1) \<Rightarrow>
          if def_state def \<noteq> DefPair \<and> def_state def \<noteq> DefPartial then (failed_with [] (ActNoDefinition mp), w1)
          else (case invokeHelperAction (fe_kauth E) ''undefinesystem'' [''path'' \<mapsto> mp] w1 of
            (r, w2) \<Rightarrow>
              (\<lparr>wr_success = (hr_outcome r = ConfirmedSuccess), wr_id = [],
                wr_message = if hr_outcome r = ConfirmedSuccess then ActRemoved else ActHelper r\<rparr>, w2)))))"

text \<open>A local path only for a file url without a host; and the share a typed address names, as a url.\<close>

definition localPathFromUrl :: "bool \<Rightarrow> qstring \<Rightarrow> qstring \<Rightarrow> qstring" where
  "localPathFromUrl isLocalFile host localFile = (if \<not> isLocalFile \<or> host \<noteq> [] then [] else localFile)"

definition lookupTargetOf :: "qt \<Rightarrow> qstring \<Rightarrow> qurl option" where
  "lookupTargetOf Q shareInput =
     (case resolveShareInput Q shareInput [] of Inl e \<Rightarrow> None | Inr unc \<Rightarrow> authLookupTarget Q unc)"

section \<open>The check of the form\<close>

text \<open>What can happen while the form is open: the user edits the field, or the running check ends.\<close>

inductive check_reachable :: "check_state \<Rightarrow> bool" where
  opened_form: "check_reachable \<lparr>ck_running = None, ck_pending = None, ck_answered = []\<rparr>"
| edited: "check_reachable st \<Longrightarrow> check_reachable (checkMountPoint raw st)"
| answered: "check_reachable st \<Longrightarrow> ck_running st = Some raw \<Longrightarrow> check_reachable (check_finished raw receiver st)"

lemmas check_defs = checkMountPoint_def startMountPointCheck_def check_finished_def Let_def

lemma check_reachable_pending: "check_reachable st \<Longrightarrow> ck_running st = None \<Longrightarrow> ck_pending st = None"
  by (induction rule: check_reachable.induct) (auto simp: check_defs split: option.splits if_splits)

text \<open>At most \<open>n\<close> checks end, nobody asking for more.\<close>

fun let_finish :: "nat \<Rightarrow> check_state \<Rightarrow> check_state" where
  "let_finish 0 st = st"
| "let_finish (Suc n) st = (case ck_running st of None \<Rightarrow> st | Some raw \<Rightarrow> let_finish n (check_finished raw None st))"

text \<open>C34. The check of the form never gets stuck and never answers late: in every state the form can
  reach, once the user has stopped at some text, at most two checks end, then none runs or waits and the
  last answer is for exactly that text.\<close>
theorem last_edit_answered:
  assumes "check_reachable st"
  shows "let st' = let_finish 2 (checkMountPoint raw st) in
    ck_running st' = None \<and> ck_pending st' = None \<and> last (ck_answered st') = raw \<and>
    length (ck_answered st') \<le> length (ck_answered st) + 2"
  using check_reachable_pending [OF assms]
  by (cases "ck_running st") (auto simp: check_defs numeral_2_eq_2)

text \<open>Two edits while a check runs.\<close>
theorem last_edit_answered_witness:
  "last (ck_answered (let_finish 2 (checkMountPoint ''/mnt/abc'' (checkMountPoint ''/mnt/ab''
     (checkMountPoint ''/mnt/a'' \<lparr>ck_running = None, ck_pending = None, ck_answered = []\<rparr>))))) = ''/mnt/abc''"
  using last_edit_answered [OF edited [OF edited [OF opened_form]], of "''/mnt/abc''" "''/mnt/ab''" "''/mnt/a''"]
  by (simp add: Let_def)

section \<open>The channel to the helper\<close>

text \<open>
  What KAuth promises: a call that succeeded ran the action of that name with those arguments, and its
  data hold the values the action replied with; a call rejected before dispatch changed nothing.
\<close>

locale helper_channel =
  fixes P :: "'s platform" and callerUid :: int and kauth :: "'s kauth"
  assumes defined: "kauth ''io.github.pakru.nasmount.definesystem'' args w = (job, w') \<Longrightarrow> exec_succeeded job \<Longrightarrow>
      \<exists>m kvs. doDefine P callerUid args w = (ReplyOk m kvs, w') \<and>
        (\<forall>k v. map_of kvs k = Some v \<longrightarrow> map_of (job_data job) k = Some v)"
    and undefined: "kauth ''io.github.pakru.nasmount.undefinesystem'' args w = (job, w') \<Longrightarrow> exec_succeeded job \<Longrightarrow>
      \<exists>m kvs. doUndefine P callerUid args w = (ReplyOk m kvs, w')"
    and rejected: "kauth action args w = (job, w') \<Longrightarrow> rejectedBeforeDispatch (exec_succeeded job) (job_error job) \<Longrightarrow> w' = w"
begin

lemma define_confirmed:
  assumes "invokeHelperAction kauth ''definesystem'' args w = (r, w')" "hr_outcome r = ConfirmedSuccess"
  obtains m kvs where "doDefine P callerUid args w = (ReplyOk m kvs, w')"
    "\<And>i. map_of kvs ''id'' = Some (ReplyString i) \<Longrightarrow> hr_id r = i"
proof -
  obtain job w1 where j: "kauth ''io.github.pakru.nasmount.definesystem'' args w = (job, w1)" by fastforce
  have s: "exec_succeeded job" "w1 = w'" "hr_id r = data_text (job_data job) ''id''"
    using assms j by (auto simp: invokeHelperAction_def Let_def confirmed_success split: if_splits)
  obtain m kvs where "doDefine P callerUid args w = (ReplyOk m kvs, w')" "\<forall>k v. map_of kvs k = Some v \<longrightarrow> map_of (job_data job) k = Some v"
    using defined [OF j s(1)] s(2) by blast
  then show thesis using that s(3) by (auto simp: data_text_def)
qed

lemma undefine_confirmed:
  assumes "invokeHelperAction kauth ''undefinesystem'' args w = (r, w')" "hr_outcome r = ConfirmedSuccess"
  shows "\<exists>m kvs. doUndefine P callerUid args w = (ReplyOk m kvs, w')"
proof -
  obtain job w1 where j: "kauth ''io.github.pakru.nasmount.undefinesystem'' args w = (job, w1)" by fastforce
  have "exec_succeeded job" "w1 = w'"
    using assms j by (auto simp: invokeHelperAction_def Let_def confirmed_success split: if_splits)
  then show ?thesis using undefined [OF j] by simp
qed

lemma rejected_unchanged:
  assumes "invokeHelperAction kauth action args w = (r, w')" "hr_rejected r"
  shows "w' = w \<and> hr_outcome r = ConfirmedFailure"
  using assms rejected [of "''io.github.pakru.nasmount.'' @ action" args w] rejected_is_failure
  by (auto simp: invokeHelperAction_def Let_def split: prod.splits if_splits)

end

text \<open>A channel that calls the action at once.\<close>

definition job_of :: "action_reply \<Rightarrow> kauth_job" where
  "job_of r = (case r of
      ReplyOk m kvs \<Rightarrow> \<lparr>exec_succeeded = True, job_error = NoError, job_data = kvs, job_errorText = []\<rparr>
    | ReplyError e \<Rightarrow> \<lparr>exec_succeeded = False, job_error = HelperErrorReply, job_data = [], job_errorText = []\<rparr>)"

definition direct_kauth :: "'s platform \<Rightarrow> int \<Rightarrow> 's kauth" where
  "direct_kauth P callerUid action args w =
     (if action = ''io.github.pakru.nasmount.definesystem'' then apfst job_of (doDefine P callerUid args w)
      else if action = ''io.github.pakru.nasmount.undefinesystem'' then apfst job_of (doUndefine P callerUid args w)
      else if action = ''io.github.pakru.nasmount.inventory'' then apfst job_of (helper_inventory P callerUid w)
      else if action = ''io.github.pakru.nasmount.purge'' then apfst job_of (helper_purge P callerUid w)
      else (\<lparr>exec_succeeded = False, job_error = NoSuchActionError, job_data = [], job_errorText = []\<rparr>, w))"

lemma job_of_simps: "exec_succeeded (job_of r) = is_ok r" "\<not> rejectedBeforeDispatch (exec_succeeded (job_of r)) (job_error (job_of r))"
  by (simp_all add: job_of_def is_ok_def rejectedBeforeDispatch_def split: action_reply.split)

interpretation direct: helper_channel P callerUid "direct_kauth P callerUid"
proof unfold_locales
  fix args w job w'
  show "\<exists>m kvs. doDefine P callerUid args w = (ReplyOk m kvs, w') \<and> (\<forall>k v. map_of kvs k = Some v \<longrightarrow> map_of (job_data job) k = Some v)"
    if "direct_kauth P callerUid ''io.github.pakru.nasmount.definesystem'' args w = (job, w')" "exec_succeeded job"
    using that by (cases "fst (doDefine P callerUid args w)") (auto simp: direct_kauth_def job_of_def apfst_def map_prod_def split: prod.splits)
  show "\<exists>m kvs. doUndefine P callerUid args w = (ReplyOk m kvs, w')"
    if "direct_kauth P callerUid ''io.github.pakru.nasmount.undefinesystem'' args w = (job, w')" "exec_succeeded job"
    using that by (cases "fst (doUndefine P callerUid args w)") (auto simp: direct_kauth_def job_of_def apfst_def map_prod_def split: prod.splits)
  fix action
  show "w' = w" if "direct_kauth P callerUid action args w = (job, w')" "rejectedBeforeDispatch (exec_succeeded job) (job_error job)"
    using that job_of_simps(2) by (auto simp: direct_kauth_def apfst_def map_prod_def split: prod.splits if_splits)
qed

section \<open>A share just added agrees with its definition\<close>

text \<open>A clean stack has \<open>..\<close> only at its bottom; going through its segments again rebuilds it.\<close>

fun clean_stack :: "qstring list \<Rightarrow> bool" where
  "clean_stack [] = True"
| "clean_stack (s # st) = (clean_stack st \<and> s \<noteq> ''.'' \<and> (s = ''..'' \<longrightarrow> st = [] \<or> hd st = ''..''))"

lemma clean_step_stack: "clean_stack st \<Longrightarrow> clean_stack (clean_step st seg)"
  by (cases st) (auto simp: clean_step_def)

lemma foldl_clean_stack: "clean_stack st \<Longrightarrow> clean_stack (foldl clean_step st segs)"
  by (induction segs arbitrary: st) (simp_all add: clean_step_stack)

lemma clean_stack_again: "clean_stack st \<Longrightarrow> foldl clean_step [] (rev st) = st"
  by (induction st) (auto simp: clean_step_def split: list.splits)

lemma cleanPath_idem: "prefix ''/'' p \<Longrightarrow> cleanPath (cleanPath p) = cleanPath p"
  using split_cleanPath [of p] clean_stack_again [OF foldl_clean_stack, of "[]" "split_skip_empty CHR ''/'' p"]
  by (simp add: cleanPath_absolute clean_segments_def)

lemma cleanPath_prefix: "prefix ''/'' (cleanPath p) \<Longrightarrow> prefix ''/'' p"
proof (rule ccontr)
  assume a: "prefix ''/'' (cleanPath p)" and n: "\<not> prefix ''/'' p"
  obtain s ss where s: "clean_segments p = s # ss"
    using a n by (cases "clean_segments p") (auto simp: cleanPath_def split: if_splits)
  have "component s" using clean_segments_components [of p] s by simp
  then show False using a n s by (cases s; cases ss) (auto simp: cleanPath_def component_def split: if_splits)
qed

lemma canonical_plan:
  assumes "validateMountpoint (canonicalMountPoint' raw home) home' = Inr plan"
  shows "plan_path plan = canonicalMountPoint' raw home" "canonicalMountPoint' raw home \<noteq> []"
proof -
  obtain p where p: "canonicalMountPoint' raw home = cleanPath p" by (simp add: canonicalMountPoint'_def Let_def)
  have "prefix ''/'' (cleanPath p)" using assms p by (auto simp: validateMountpoint_def split: if_splits)
  then show "plan_path plan = canonicalMountPoint' raw home" "canonicalMountPoint' raw home \<noteq> []"
    using plan_path_clean [OF assms] cleanPath_idem [OF cleanPath_prefix] p by auto
qed

lemma define_arguments_arg [simp]:
  "arg (define_arguments unc mp username domain password acc) ''unc'' = unc"
  "arg (define_arguments unc mp username domain password acc) ''path'' = mp"
  "arg (define_arguments unc mp username domain password acc) ''username'' = username"
  "arg (define_arguments unc mp username domain password acc) ''domain'' = domain"
  "arg (define_arguments unc mp username domain password acc) ''password'' = password"
  "define_arguments unc mp username domain password acc ''access'' = Some acc"
  by (simp_all add: arg_def define_arguments_def)

definition checked_record :: "share \<Rightarrow> definition_check \<Rightarrow> drift_input" where
  "checked_record s d =
     \<lparr>dr_storeUnc = sh_unc s, dr_storeMountPoint = sh_mountPoint s, dr_storeSaysGuest = (sh_username s = []),
      dr_storeAccess = sh_access s, dr_definitionWhat = def_what d, dr_definitionMountPoint = canonicalMountPoint d,
      dr_definitionAuthentication = def_authentication d, dr_definitionAccess = def_access d\<rparr>"

lemma access_text_not_Nil [simp]: "accessModeToString a \<noteq> []"
  by (cases a) simp_all

lemma requested_access_text:
  assumes "requested_access (define_arguments unc mp username domain password acc) = Inr a"
  shows "acc \<noteq> [] \<and> acc = accessModeToString a"
proof -
  have "accessModeFromString acc = Some a"
    using assms by (auto simp: requested_access_def split: option.splits)
  then have "acc = accessModeToString a" using access_text.decode_iff by blast
  then show ?thesis by simp
qed

text \<open>A successful add went through every step.\<close>

lemma addShare_success:
  assumes "addShare E L homeDir input raw username domain password acc c w = (res, c', w')" "wr_success res"
  obtains unc r where "resolveShareInput (fe_qt E) input username = Inr unc"
    "invokeHelperAction (fe_kauth E) ''definesystem''
       (define_arguments unc (canonicalMountPoint' raw homeDir) username domain password acc) w = (r, w')"
    "hr_outcome r = ConfirmedSuccess" "hr_id r = wr_id res"
    "commitShare (fe_config E) (new_record (wr_id res) unc (canonicalMountPoint' raw homeDir) username domain acc) 0 c = (CommitOk, c')"
proof -
  let ?mp = "canonicalMountPoint' raw homeDir"
  obtain unc where 1: "resolveShareInput (fe_qt E) input username = Inr unc"
      "add_work E L unc ?mp username domain password acc c w = (res, c', w')"
    using assms by (auto simp: addShare_def failed_with_def Let_def split: sum.splits if_splits)
  obtain r w1 where 2: "invokeHelperAction (fe_kauth E) ''definesystem'' (define_arguments unc ?mp username domain password acc) w = (r, w1)"
    by fastforce
  obtain cr c1 where 3: "commitShare (fe_config E) (new_record (hr_id r) unc ?mp username domain acc) 0 c = (cr, c1)" by fastforce
  have "hr_outcome r = ConfirmedSuccess" "cr = CommitOk" "res = \<lparr>wr_success = True, wr_id = hr_id r, wr_message = ActAdded (hr_activated r)\<rparr>"
      "c' = c1" "w' = w1"
    using assms(2) 1(2) by (auto simp: add_work_def 2 3 failed_with_def split: option.splits if_splits)
  then show thesis using that [OF 1(1)] 2 3 by simp
qed



section \<open>Deleting a share\<close>

text \<open>The helper found a definition of the caller at the mount point and removed its four artifacts.\<close>

definition undefined_at :: "'s platform \<Rightarrow> int \<Rightarrow> qstring \<Rightarrow> 's world \<Rightarrow> 's world \<Rightarrow> bool" where
  "undefined_at P callerUid mp w w' \<longleftrightarrow>
     (\<exists>caller plan paths w1. prepare P callerUid [''path'' \<mapsto> mp] = Inr (caller, plan, paths) \<and> touches 1 {lock_slot} w w1 \<and>
        (let def = fst (inspectDefinition paths (caller_uid caller) (plan_path plan) w1) in
         def_state def \<in> {DefPair, DefPartial} \<and> slot_at w' CredDir (fileNameFor (def_id def)) = None \<and>
         slot_at w' UnitsDir (unitName paths @ ''.mount'') = None \<and>
         slot_at w' UnitsDir (unitName paths @ ''.automount'') = None \<and> slot_at w' IdDir (unitName paths) = None))"

lemma undefine_confirmed_at:
  assumes "doUndefine P callerUid [''path'' \<mapsto> mp] w = (ReplyOk m kvs, w')" "host_ok w" "good_escape P"
  shows "undefined_at P callerUid mp w w'"
proof -
  obtain caller plan paths w1 chk where "prepare P callerUid [''path'' \<mapsto> mp] = Inr (caller, plan, paths)"
      "touches 1 {lock_slot} w w1" "chk = fst (inspectDefinition paths (caller_uid caller) (plan_path plan) w1)"
      "def_state chk \<in> {DefPair, DefPartial}" "slot_at w' CredDir (fileNameFor (def_id chk)) = None"
      "slot_at w' UnitsDir (unitName paths @ ''.mount'') = None"
      "slot_at w' UnitsDir (unitName paths @ ''.automount'') = None" "slot_at w' IdDir (unitName paths) = None"
    using undefine_effect [OF assms] by (elim disjE exE conjE) simp_all
  then show ?thesis unfolding undefined_at_def Let_def by blast
qed

text \<open>C36. Deleting a share never leaves a definition without the record that points to it.  If any record
  reads differently afterwards, or if deleting reports success, then the helper confirmed that it
  found the definition at the mount point of the record and removed its credential, both unit files
  and its automount record.  Success means that the record is gone too, and no other one changed.\<close>
theorem delete_keeps_pointer:
  assumes "deleteShare E L i c w = (res, c', w')"
    and "kconfig (fe_config E)" "helper_channel (fe_platform E) callerUid (fe_kauth E)"
    and "host_ok w" "good_escape (fe_platform E)"
    and "wr_success res \<or> (\<exists>j. fst (snapshotById (fe_config E) j c') \<noteq> fst (snapshotById (fe_config E) j c))"
  shows "undefined_at (fe_platform E) callerUid (sh_mountPoint (sn_share (fst (snapshotById (fe_config E) i c)))) w w' \<and>
    (wr_success res \<longrightarrow> (\<forall>j. fst (snapshotById (fe_config E) j c') =
       (if j = i then empty_snapshot else fst (snapshotById (fe_config E) j c))))"
proof -
  let ?K = "fe_config E"
  obtain snap c1 where 1: "snapshotById ?K i c = (snap, c1)" by fastforce
  let ?mp = "sh_mountPoint (sn_share snap)"
  have c1: "c1 = reparseConfiguration ?K c" using 1 by (auto simp: snapshotById_def Let_def)
  have same: "fst (snapshotById ?K j c1) = fst (snapshotById ?K j c)" for j
    using kconfig.snapshotById_again [OF assms(2)] c1 by simp
  obtain r w1 where 2: "invokeHelperAction (fe_kauth E) ''undefinesystem'' [''path'' \<mapsto> ?mp] w = (r, w1)" by fastforce
  have "hr_outcome r = ConfirmedSuccess \<and> user_lock L = None \<and> sn_exists snap"
  proof (rule ccontr)
    assume "\<not> ?thesis"
    then have "\<not> wr_success res \<and> (c' = c \<or> c' = c1)"
      using assms(1) by (auto simp: deleteShare_def 1 2 failed_with_def split: option.splits if_splits)
    then show False using assms(6) same by metis
  qed
  then obtain ok where 3: "removeShare ?K i c1 = (ok, c')" "wr_success res = ok" "w' = w1" "hr_outcome r = ConfirmedSuccess"
    using assms(1) by (auto simp: deleteShare_def 1 2 split: prod.splits)
  obtain m kvs where "doUndefine (fe_platform E) callerUid [''path'' \<mapsto> ?mp] w = (ReplyOk m kvs, w')"
    using helper_channel.undefine_confirmed [OF assms(3) 2 3(4)] 3(3) by blast
  from undefine_confirmed_at [OF this assms(4,5)] have "undefined_at (fe_platform E) callerUid ?mp w w'" .
  moreover have "fst (snapshotById ?K j c') = (if j = i then empty_snapshot else fst (snapshotById ?K j c))" if "wr_success res" for j
    using kconfig.remove_ok [OF assms(2), of i c1 c' j] 3(1,2) that same by simp
  ultimately show ?thesis by (simp add: 1)
qed

section \<open>The theorems on concrete inputs\<close>

definition nas_front_end :: "(bool, file_state) front_end" where
  "nas_front_end = \<lparr>fe_platform = home_platform, fe_uid = 1000, fe_qt = plain_qt, fe_config = file_config,
     fe_kauth = direct_kauth home_platform 1000, fe_json = (\<lambda>s. []),
     fe_boot = (\<lambda>w. \<lparr>finished = False, normal_exit = False, exit_code = 0, stdout = []\<rparr>)\<rparr>"

definition free_lock :: lock_env where
  "free_lock = \<lparr>runtime_dir = ''/run/user/1000'', lock_open = None, lock_flock = None\<rparr>"

abbreviation no_records :: file_state where
  "no_records \<equiv> \<lparr>in_memory = [], on_disk = [], sync_works = []\<rparr>"

lemma doDefine_cong:
  assumes "define_checks P u args = define_checks P u args'"
    and "\<And>key. key \<in> {''username'', ''domain'', ''password''} \<Longrightarrow> arg args key = arg args' key"
  shows "doDefine P u args = doDefine P u args'"
proof -
  have h: "helper_input args = helper_input args'" by (intro ext) (simp add: helper_input_def assms(2))
  have "define_body P u args w = define_body P u args' w" for w
    unfolding define_body_def assms(1) h by (rule refl)
  then have "define_body P u args = define_body P u args'" by (rule ext)
  then show ?thesis by (simp add: doDefine_def)
qed

abbreviation "nas_added \<equiv> addShare nas_front_end free_lock ''/home/u'' ''smb://n/a'' ''~/nas/'' ''u'' [] ''p'' ''readwrite'' no_records nas_host"

lemma nas_slot_none:
  "slot_at nas_host UnitsDir (name @ ''.mount.d'') = None" "slot_at nas_host UnitsDir (name @ ''.automount.d'') = None"
proof -
  have "slot_at nas_host UnitsDir (name @ x) = None" if "x = ''.mount.d'' \<or> x = ''.automount.d''" for x
  proof -
    have "name @ x \<noteq> ''a.mount''" "name @ x \<noteq> ''a.automount''" using that by (auto dest: arg_cong [where f = last])
    then show ?thesis by (simp add: slot_at_def file_at_def entry_def host_world_def dir_inode_def units_dir_def)
  qed
  then show "slot_at nas_host UnitsDir (name @ ''.mount.d'') = None" "slot_at nas_host UnitsDir (name @ ''.automount.d'') = None" by simp_all
qed


text \<open>The share installed on that host, inspected and removed under the lock.\<close>

abbreviation "archive_locked \<equiv> snd (acquire boot_host)"

definition archive_removal :: removal_input where
  "archive_removal = \<lparr>rem_shareId = marker_id golden_marker, rem_mountPoint = ''/home/tester/mnt/archive'',
     rem_unitName = ''a'', rem_what = ''//nas.example.org/archive''\<rparr>"

lemma archive_files:
  "sched archive_locked = []"
  "file_at_path archive_locked (mountUnitPath unit_world_paths) = Some (file_inode 420 golden_mount_unit)"
  "file_at_path archive_locked (automountUnitPath unit_world_paths) = Some (file_inode 420 golden_automount_unit)"
  "file_at_path archive_locked (mountUnitPath unit_world_paths @ ''.d'') = None"
  "file_at_path archive_locked (automountUnitPath unit_world_paths @ ''.d'') = None"
  by code_simp+

lemma archive_inspected:
  "\<exists>chk. inspectDefinition unit_world_paths 1000 ''/home/tester/mnt/archive'' archive_locked = (chk, archive_locked) \<and>
     def_state chk = DefPair \<and> def_id chk = marker_id golden_marker \<and> def_what chk = ''//nas.example.org/archive''"
  using generated_pair_check [OF unit_world_generated archive_files(1,2) unit_world_files(3,4) archive_files(3)
      unit_world_files(6,7) archive_files(4,5), unfolded golden_uid] by blast

lemma archive_removed:
  "\<not> isl (fst (acquire boot_host))" "\<not> isl (fst (remove_share boot_platform archive_removal archive_locked))"
  by code_simp+

definition archive_front_end :: "(bool, file_state) front_end" where
  "archive_front_end = nas_front_end\<lparr>fe_platform := boot_platform, fe_kauth := direct_kauth boot_platform 1000\<rparr>"

abbreviation "archive_path \<equiv> ''/home/tester/mnt/archive''"

abbreviation archive_records :: file_state where
  "archive_records \<equiv> \<lparr>in_memory = [], on_disk = [(''k'', [(''MountPoint'', archive_path), (''Unc'', ''//nas.example.org/archive'')])],
     sync_works = []\<rparr>"

lemma archive_undefined: "\<exists>m w'. doUndefine boot_platform 1000 [''path'' \<mapsto> archive_path] boot_host = (ReplyOk m [], w')"
proof -
  have "map_sum id (\<lambda>(c, p, q). (caller_uid c, plan_path p, q)) (prepare boot_platform 1000 [''path'' \<mapsto> archive_path]) =
      Inr (1000, archive_path, unit_world_paths)" by code_simp
  then obtain c p where p: "prepare boot_platform 1000 [''path'' \<mapsto> archive_path] = Inr (c, p, unit_world_paths)"
      "caller_uid c = 1000" "plan_path p = archive_path"
    by (cases "prepare boot_platform 1000 [''path'' \<mapsto> archive_path]") auto
  obtain l w1 where l: "acquire boot_host = (Inr l, w1)"
    using archive_removed(1) by (cases "acquire boot_host"; cases "fst (acquire boot_host)") auto
  obtain chk where chk: "inspectDefinition unit_world_paths 1000 archive_path w1 = (chk, w1)"
      "def_state chk = DefPair" "undefine_input chk p unit_world_paths = archive_removal"
    using archive_inspected p(3) l by (auto simp: undefine_input_def archive_removal_def unit_world_paths_def)
  obtain r w2 where r: "remove_share boot_platform archive_removal w1 = (r, w2)" by fastforce
  then have "r = Inr ()" using archive_removed(2) l by (cases r) simp_all
  then show ?thesis using r by (simp add: doUndefine_def under_lock_def undefine_body_def p chk l)
qed

text \<open>The installed share, with a record of the user.\<close>
theorem delete_keeps_pointer_witness:
  "let r = deleteShare archive_front_end free_lock ''k'' archive_records boot_host in
     wr_success (fst r) \<and> undefined_at boot_platform 1000 archive_path boot_host (snd (snd r)) \<and>
     fst (snapshotById file_config ''k'' (fst (snd r))) = empty_snapshot"
proof -
  let ?E = archive_front_end
  let ?r = "deleteShare ?E free_lock ''k'' archive_records boot_host"
  have E: "fe_config ?E = file_config" "fe_platform ?E = boot_platform" "fe_kauth ?E = direct_kauth boot_platform 1000"
    by (simp_all add: archive_front_end_def nas_front_end_def)
  have "snapshotById file_config ''k'' archive_records =
      (fst (snapshotById file_config ''k'' archive_records), archive_records\<lparr>in_memory := on_disk archive_records\<rparr>)" by code_simp
  moreover have snap: "sn_exists (fst (snapshotById file_config ''k'' archive_records)) \<and>
      sh_mountPoint (sn_share (fst (snapshotById file_config ''k'' archive_records))) = archive_path" by code_simp
  moreover have "fst (removeShare file_config ''k'' (archive_records\<lparr>in_memory := on_disk archive_records\<rparr>))" by code_simp
  moreover obtain m w' where "doUndefine boot_platform 1000 [''path'' \<mapsto> archive_path] boot_host = (ReplyOk m [], w')"
    using archive_undefined by blast
  ultimately have s: "wr_success (fst ?r)"
    by (cases "snapshotById file_config ''k'' archive_records")
      (simp add: deleteShare_def E free_lock_def user_lock_def invokeHelperAction_def direct_kauth_def job_of_def classifyOutcome_def
        data_text_def case_prod_beta Let_def)
  have "trimmed ''a'' = ''a''" by code_simp
  then have g: "good_escape (fe_platform ?E)" by (simp add: E boot_platform_def escape_a_def good_escape_def good_unit_name_def)
  have "?r = (fst ?r, fst (snd ?r), snd (snd ?r))" by simp
  from delete_keeps_pointer [OF this, unfolded E, OF file_config.kconfig_axioms direct.helper_channel_axioms host_world_ok g [unfolded E]] s
  show ?thesis by (simp add: Let_def snap)
qed

end
