(* ===== verification/CredentialLookup.thy ===== *)
theory CredentialLookup
  imports Complex_Main Helper ShareAddress
begin

text \<open>
  Model of \<open>src/session/credentiallookup.cpp\<close> and of its other end, \<open>src/dialog/credentiallookupworker.cpp\<close>:
  the messages of the autofill protocol, the child that asks the password service, the policy that
  accepts or rejects what it answers, the transport that runs the child, and the controller that
  delivers one answer.  QUrl, QJsonDocument and the password service are parameters; error messages
  are the texts of the source, because the child sends them over the wire.
\<close>

section \<open>JSON and urls\<close>

text \<open>A number is a double, so a rational number here.  An object is the list of its members.\<close>

datatype json = JNull | JBool bool | JNumber rat | JString qstring | JArray "json list" | JObject "(qstring \<times> json) list"

record wire =
  lk_qt :: qt
  encoded_url :: "qurl \<Rightarrow> qstring"
  to_json :: "(qstring \<times> json) list \<Rightarrow> qstring"
  from_json :: "qstring \<Rightarrow> qstring + json"

definition MaxMessageBytes :: nat where "MaxMessageBytes = 65536"

text \<open>\<open>static_cast<double>\<close> of a 64-bit integer: 53 bits are kept, rounded to the nearest, ties to even.\<close>

fun bit_count :: "nat \<Rightarrow> nat" where
  "bit_count n = (if n = 0 then 0 else 1 + bit_count (n div 2))"

declare bit_count.simps [simp del]

definition round_double :: "nat \<Rightarrow> nat" where
  "round_double n =
     (if n < 2 ^ 53 then n
      else (let e = bit_count n - 53; q = n div 2 ^ e; r = n mod 2 ^ e; half = 2 ^ (e - 1) in
            (if half < r \<or> r = half \<and> odd q then q + 1 else q) * 2 ^ e))"

definition double_of :: "64 word \<Rightarrow> rat" where
  "double_of v = of_nat (round_double (unat v))"

section \<open>Reading a message\<close>

definition field_error :: "qstring \<Rightarrow> qstring \<Rightarrow> qstring" where
  "field_error key what = ''field '' @ [CHR 0x27] @ key @ [CHR 0x27] @ '' is not '' @ what"

definition take_string :: "(qstring \<times> json) list \<Rightarrow> qstring \<Rightarrow> qstring + qstring" where
  "take_string o' key =
     (case map_of o' key of
        None \<Rightarrow> Inr [] | Some JNull \<Rightarrow> Inr []
      | Some (JString s) \<Rightarrow> Inr s
      | Some _ \<Rightarrow> Inl (field_error key ''a string''))"

definition take_unsigned :: "(qstring \<times> json) list \<Rightarrow> qstring \<Rightarrow> qstring + 64 word" where
  "take_unsigned o' key =
     (case map_of o' key of
        None \<Rightarrow> Inr 0 | Some JNull \<Rightarrow> Inr 0
      | Some (JNumber q) \<Rightarrow>
          if q < 0 \<or> 2 ^ 53 \<le> q \<or> q \<noteq> of_int \<lfloor>q\<rfloor> then Inl (field_error key ''a whole number in range'')
          else Inr (word_of_int \<lfloor>q\<rfloor>)
      | Some _ \<Rightarrow> Inl (field_error key ''a number''))"

text \<open>The first key of the object, in its order, that the schema does not have.\<close>

definition unknown_keys :: "qstring list \<Rightarrow> (qstring \<times> json) list \<Rightarrow> qstring list" where
  "unknown_keys allowed o' = sort (filter (\<lambda>k. k \<notin> set allowed) (map fst o'))"

definition openEnvelope :: "wire \<Rightarrow> qstring \<Rightarrow> qstring list \<Rightarrow> qstring + (qstring \<times> json) list" where
  "openEnvelope W raw allowed =
     (if raw = [] then Inl ''empty message''
      else if MaxMessageBytes < length raw then Inl (''message exceeds '' @ decimal MaxMessageBytes @ '' bytes'')
      else (case from_json W raw of
        Inl e \<Rightarrow> Inl (''not a JSON object: '' @ e)
      | Inr (JObject o') \<Rightarrow>
          if map_of o' ''protocol'' \<noteq> Some (JNumber 1) then Inl ''unsupported protocol version''
          else (case unknown_keys allowed o' of
            [] \<Rightarrow> Inr o'
          | k # ks \<Rightarrow> Inl (''unknown field '' @ [CHR 0x27] @ k @ [CHR 0x27]))
      | Inr v \<Rightarrow> Inl ''not a JSON object: no error occurred''))"

definition serialise :: "wire \<Rightarrow> (qstring \<times> json) list \<Rightarrow> qstring" where
  "serialise W o' = (let encoded = to_json W o' in if MaxMessageBytes < length encoded then [] else encoded)"

definition fieldAcceptable :: "qstring \<Rightarrow> bool" where
  "fieldAcceptable v \<longleftrightarrow> \<not> hasControlChars v \<and> length v \<le> MaxCredentialFieldBytes"

definition shareOf :: "qurl \<Rightarrow> qstring" where
  "shareOf url = (case split_skip_empty CHR ''/'' (url_path url) of [s] \<Rightarrow> s | _ \<Rightarrow> [])"

section \<open>Requests and replies\<close>

record lookup_request =
  rq_target :: qurl
  rq_username :: qstring
  rq_windowId :: "64 word"
  rq_userTime :: "64 word"

datatype reply_outcome = OutcomeCandidate | OutcomeMiss | OutcomeError

record lookup_reply =
  rp_outcome :: reply_outcome
  rp_resultUrl :: qurl
  rp_username :: qstring
  rp_domain :: qstring
  rp_password :: qstring
  rp_message :: qstring

definition request_keys :: "qstring list" where
  "request_keys = [''protocol'', ''target'', ''username'', ''windowId'', ''userTime'']"

definition request_object :: "wire \<Rightarrow> lookup_request \<Rightarrow> (qstring \<times> json) list" where
  "request_object W r =
     [(''protocol'', JNumber 1), (''target'', JString (encoded_url W (rq_target r))), (''username'', JString (rq_username r)),
      (''windowId'', JNumber (double_of (rq_windowId r))), (''userTime'', JNumber (double_of (rq_userTime r)))]"

definition encodeRequest :: "wire \<Rightarrow> lookup_request \<Rightarrow> qstring" where
  "encodeRequest W r = serialise W (request_object W r)"

definition target_shape :: "qurl \<Rightarrow> bool" where
  "target_shape url \<longleftrightarrow> url_valid url \<and> url_scheme url = ''smb'' \<and> url_host url \<noteq> [] \<and> \<not> url_hasQuery url \<and>
     \<not> url_hasFragment url \<and> url_userInfo url = [] \<and> url_port url = - 1 \<and> shareOf url \<noteq> []"

definition decodeRequest :: "wire \<Rightarrow> qstring \<Rightarrow> qstring + lookup_request" where
  "decodeRequest W raw =
     (case openEnvelope W raw request_keys of
        Inl e \<Rightarrow> Inl e
      | Inr o' \<Rightarrow>
     (case take_string o' ''target'' of Inl e \<Rightarrow> Inl e | Inr target \<Rightarrow>
     (case take_string o' ''username'' of Inl e \<Rightarrow> Inl e | Inr username \<Rightarrow>
     (case take_unsigned o' ''windowId'' of Inl e \<Rightarrow> Inl e | Inr windowId \<Rightarrow>
     (case take_unsigned o' ''userTime'' of Inl e \<Rightarrow> Inl e | Inr userTime \<Rightarrow>
       (let url = parse_url (lk_qt W) StrictMode target in
        if \<not> target_shape url then Inl ''target is not an smb://host/share URL''
        else if \<not> fieldAcceptable username then Inl ''requested username is not a valid credential field''
        else Inr \<lparr>rq_target = url, rq_username = username, rq_windowId = windowId, rq_userTime = userTime\<rparr>))))))"

definition reply_keys :: "qstring list" where
  "reply_keys = [''protocol'', ''outcome'', ''resultUrl'', ''username'', ''domain'', ''password'', ''message'']"

definition outcome_text :: "reply_outcome \<Rightarrow> qstring" where
  "outcome_text x = (case x of OutcomeCandidate \<Rightarrow> ''candidate'' | OutcomeMiss \<Rightarrow> ''miss'' | OutcomeError \<Rightarrow> ''error'')"

definition reply_object :: "wire \<Rightarrow> lookup_reply \<Rightarrow> (qstring \<times> json) list" where
  "reply_object W r =
     [(''protocol'', JNumber 1), (''outcome'', JString (outcome_text (rp_outcome r))),
      (''resultUrl'', JString (encoded_url W (rp_resultUrl r))), (''username'', JString (rp_username r)),
      (''domain'', JString (rp_domain r)), (''password'', JString (rp_password r)), (''message'', JString (rp_message r))]"

definition encodeReply :: "wire \<Rightarrow> lookup_reply \<Rightarrow> qstring" where
  "encodeReply W r = serialise W (reply_object W r)"

definition decodeReply :: "wire \<Rightarrow> qstring \<Rightarrow> qstring + lookup_reply" where
  "decodeReply W raw =
     (case openEnvelope W raw reply_keys of
        Inl e \<Rightarrow> Inl e
      | Inr o' \<Rightarrow>
     (case take_string o' ''outcome'' of Inl e \<Rightarrow> Inl e | Inr outcome \<Rightarrow>
     (case take_string o' ''resultUrl'' of Inl e \<Rightarrow> Inl e | Inr resultUrl \<Rightarrow>
     (case take_string o' ''username'' of Inl e \<Rightarrow> Inl e | Inr username \<Rightarrow>
     (case take_string o' ''domain'' of Inl e \<Rightarrow> Inl e | Inr domain \<Rightarrow>
     (case take_string o' ''password'' of Inl e \<Rightarrow> Inl e | Inr password \<Rightarrow>
     (case take_string o' ''message'' of Inl e \<Rightarrow> Inl e | Inr message \<Rightarrow>
       (let reply = (\<lambda>x. Inr \<lparr>rp_outcome = x, rp_resultUrl = parse_url (lk_qt W) StrictMode resultUrl, rp_username = username,
                           rp_domain = domain, rp_password = password, rp_message = message\<rparr>) in
        if outcome = ''candidate'' then reply OutcomeCandidate
        else if outcome = ''miss'' then reply OutcomeMiss
        else if outcome = ''error'' then reply OutcomeError
        else Inl ''unknown outcome''))))))))"

section \<open>The acceptance policy\<close>

datatype rejection =
  NoStoredCredential | OtherLocation | UnusableFields | NoUsableUsername | TwoDomains | OtherAccount | OtherDomain

definition empty_url :: "qurl \<Rightarrow> bool" where
  "empty_url u \<longleftrightarrow> url_scheme u = [] \<and> url_userInfo u = [] \<and> url_host u = [] \<and> url_port u = - 1 \<and> url_path u = [] \<and>
     \<not> url_hasQuery u \<and> \<not> url_hasFragment u"

definition contradicts :: "qt \<Rightarrow> qurl \<Rightarrow> qurl \<Rightarrow> bool" where
  "contradicts Q answered requested \<longleftrightarrow>
     url_valid answered \<and> \<not> empty_url answered \<and>
     (\<not> same_text Q (url_scheme answered) (url_scheme requested) \<or>
      \<not> same_text Q (url_host answered) (url_host requested) \<or>
      shareOf answered \<noteq> [] \<and> shareOf answered \<noteq> shareOf requested)"

definition acceptCandidate ::
    "qt \<Rightarrow> lookup_reply \<Rightarrow> qurl \<Rightarrow> qstring \<Rightarrow> rejection + qstring \<times> qstring \<times> qstring" where
  "acceptCandidate Q reply requestedTarget requestedUsername =
     (if rp_outcome reply \<noteq> OutcomeCandidate then Inl NoStoredCredential
      else if contradicts Q (rp_resultUrl reply) requestedTarget then Inl OtherLocation
      else if \<not> fieldAcceptable (rp_username reply) \<or> \<not> fieldAcceptable (rp_domain reply) \<or> \<not> fieldAcceptable (rp_password reply)
      then Inl UnusableFields
      else (case splitDomainUser (rp_username reply) of (foundDomain, foundUser) \<Rightarrow>
        if foundUser = [] then Inl NoUsableUsername
        else if foundDomain \<noteq> [] \<and> rp_domain reply \<noteq> [] \<and> \<not> same_text Q foundDomain (rp_domain reply) then Inl TwoDomains
        else (case splitDomainUser requestedUsername of (askedDomain, askedUser) \<Rightarrow>
          if requestedUsername \<noteq> [] \<and> \<not> same_text Q foundUser askedUser then Inl OtherAccount
          else if requestedUsername \<noteq> [] \<and> askedDomain \<noteq> [] \<and> foundDomain \<noteq> [] \<and> \<not> same_text Q askedDomain foundDomain
          then Inl OtherDomain
          else Inr (foundUser, foundDomain, rp_password reply))))"

section \<open>The child\<close>

text \<open>What the password service says to a query: whether the call went through and whether it
  changed the query, and the fields it left in it.\<close>

record service_answer =
  sv_answered :: bool
  sv_modified :: bool
  sv_url :: qurl
  sv_username :: qstring
  sv_realm :: qstring
  sv_password :: qstring

text \<open>Standard input and output: is each a pipe or a socket, can it be opened, and what is on the input.\<close>

record child_pipes =
  in_pipe :: bool
  out_pipe :: bool
  in_opens :: bool
  out_opens :: bool
  in_bytes :: qstring

definition no_url :: "wire \<Rightarrow> qurl" where
  "no_url W = parse_url (lk_qt W) StrictMode []"

definition barrenReply :: "wire \<Rightarrow> reply_outcome \<Rightarrow> qstring \<Rightarrow> lookup_reply" where
  "barrenReply W x m = \<lparr>rp_outcome = x, rp_resultUrl = no_url W, rp_username = [], rp_domain = [], rp_password = [], rp_message = m\<rparr>"

definition readRequest :: "child_pipes \<Rightarrow> qstring option" where
  "readRequest p =
     (if \<not> in_opens p then None
      else (let raw = take (MaxMessageBytes + 1) (in_bytes p) in if length raw \<le> MaxMessageBytes then Some raw else None))"

definition writeReply :: "wire \<Rightarrow> child_pipes \<Rightarrow> lookup_reply \<Rightarrow> qstring" where
  "writeReply W p reply = (if out_opens p then encodeReply W reply else [])"

definition service_reply :: "wire \<Rightarrow> service_answer \<Rightarrow> lookup_reply" where
  "service_reply W a =
     (if \<not> sv_answered a \<or> \<not> sv_modified a then barrenReply W OutcomeMiss ''no stored credential''
      else \<lparr>rp_outcome = OutcomeCandidate, rp_resultUrl = sv_url a, rp_username = sv_username a, rp_domain = sv_realm a,
            rp_password = sv_password a, rp_message = []\<rparr>)"

text \<open>The exit code and what is written.\<close>

definition lookup_worker :: "wire \<Rightarrow> (lookup_request \<Rightarrow> service_answer) \<Rightarrow> child_pipes \<Rightarrow> int \<times> qstring" where
  "lookup_worker W checkAuthInfo p =
     (if \<not> in_pipe p \<or> \<not> out_pipe p then (2, [])
      else (case readRequest p of
        None \<Rightarrow> (2, writeReply W p (barrenReply W OutcomeError ''unreadable request''))
      | Some raw \<Rightarrow>
     (case decodeRequest W raw of
        Inl e \<Rightarrow> (2, writeReply W p (barrenReply W OutcomeError e))
      | Inr request \<Rightarrow> (0, writeReply W p (service_reply W (checkAuthInfo request))))))"

section \<open>What was written is what is read\<close>

text \<open>
  What is assumed of Qt: a message object can be read back, its members in any order, and the url
  that is none is written as the empty text.  \<open>readable\<close> is what the fully encoded form is for: the
  strict parser makes the same url of it.
\<close>

definition readable :: "wire \<Rightarrow> qurl \<Rightarrow> bool" where
  "readable W u \<longleftrightarrow> parse_url (lk_qt W) StrictMode (encoded_url W u) = u"

definition wire_value :: "json \<Rightarrow> bool" where
  "wire_value v \<longleftrightarrow> (case v of JString s \<Rightarrow> True | JNumber q \<Rightarrow> \<exists>n. q = of_nat n | _ \<Rightarrow> False)"

definition wire_law :: "wire \<Rightarrow> bool" where
  "wire_law W \<longleftrightarrow> encoded_url W (no_url W) = [] \<and>
     (\<forall>o'. distinct (map fst o') \<longrightarrow> list_all wire_value (map snd o') \<longrightarrow>
        to_json W o' \<noteq> [] \<and> (\<exists>o''. from_json W (to_json W o') = Inr (JObject o'') \<and> map_of o'' = map_of o'))"

lemma bit_count_bounds: "0 < n \<Longrightarrow> 2 ^ (bit_count n - 1) \<le> n \<and> n < 2 ^ bit_count n"
proof (induction n rule: bit_count.induct)
  case (1 n)
  show ?case
  proof (cases "n div 2 = 0")
    case True
    then have "n = 1" using 1(2) by simp
    then show ?thesis by (simp add: bit_count.simps)
  next
    case False
    then have "2 ^ (bit_count (n div 2) - 1) \<le> n div 2" "n div 2 < 2 ^ bit_count (n div 2)" "bit_count (n div 2) \<noteq> 0"
      using 1 by (auto simp: bit_count.simps [of "n div 2"])
    then show ?thesis using 1(2) by (cases "bit_count (n div 2)") (auto simp: bit_count.simps [of n])
  qed
qed

text \<open>Small numbers are exact, and rounding never brings a large one below the bound.\<close>

lemma round_double_large: "2 ^ 53 \<le> n \<Longrightarrow> 2 ^ 53 \<le> round_double n"
proof -
  assume n: "2 ^ 53 \<le> n"
  define e where "e = bit_count n - 53"
  have b: "2 ^ (bit_count n - 1) \<le> n" "n < 2 ^ bit_count n" using bit_count_bounds [of n] n by auto
  have "53 < bit_count n" using b(2) n power_increasing [of "bit_count n" 53 "2 :: nat"] by (cases "bit_count n \<le> 53") auto
  then have "bit_count n - 1 = 52 + e" by (simp add: e_def)
  then have "2 ^ (bit_count n - 1) = (2 :: nat) ^ 52 * 2 ^ e" by (simp only: power_add)
  then have q: "2 ^ 52 \<le> n div 2 ^ e" using b(1) by (simp add: less_eq_div_iff_mult_less_eq)
  have "1 \<le> e" using \<open>53 < bit_count n\<close> by (simp add: e_def)
  then have "(2 :: nat) ^ 53 \<le> 2 ^ 52 * 2 ^ e" using power_increasing [of 1 e "2 :: nat"] by simp
  also have "\<dots> \<le> n div 2 ^ e * 2 ^ e" using q by (rule mult_le_mono1)
  also have "\<dots> \<le> round_double n" using n by (simp add: round_double_def e_def Let_def)
  finally show ?thesis .
qed

lemma take_unsigned_nat:
  assumes "map_of o' key = Some (JNumber (of_nat n))"
  shows "take_unsigned o' key = (if n < 2 ^ 53 then Inr (of_nat n) else Inl (field_error key ''a whole number in range''))"
proof -
  have "(2 :: rat) ^ 53 \<le> of_nat n \<longleftrightarrow> 2 ^ 53 \<le> n" by (metis of_nat_le_iff of_nat_numeral of_nat_power)
  then show ?thesis using assms by (simp add: take_unsigned_def)
qed

lemma take_unsigned_number:
  assumes "map_of o' key = Some (JNumber (double_of v))"
  shows "take_unsigned o' key = (if unat v < 2 ^ 53 then Inr v else Inl (field_error key ''a whole number in range''))"
  using take_unsigned_nat [OF assms [unfolded double_of_def]] round_double_large [of "unat v"]
  by (cases "unat v < 2 ^ 53") (simp_all add: round_double_def)

lemma take_string_text: "map_of o' key = Some (JString s) \<Longrightarrow> take_string o' key = Inr s"
  by (simp add: take_string_def)

lemma map_of_keys: "map_of o' = map_of o'' \<Longrightarrow> set (map fst o') = set (map fst o'')"
  by (metis dom_map_of_conv_image_fst list.set_map)

text \<open>A message that is not too large passes the envelope of its own schema.\<close>

lemma openEnvelope_serialised:
  assumes "wire_law W" "distinct (map fst o')" "list_all wire_value (map snd o')" "map_of o' ''protocol'' = Some (JNumber 1)"
    and "set (map fst o') \<subseteq> set allowed" "serialise W o' \<noteq> []"
  shows "\<exists>o''. openEnvelope W (serialise W o') allowed = Inr o'' \<and> map_of o'' = map_of o'"
proof -
  obtain o'' where o'': "from_json W (to_json W o') = Inr (JObject o'')" "map_of o'' = map_of o'"
    using assms(1-3) unfolding wire_law_def by blast
  have s: "serialise W o' = to_json W o'" "length (to_json W o') \<le> MaxMessageBytes"
    using assms(6) by (auto simp: serialise_def Let_def split: if_splits)
  have "unknown_keys allowed o'' = []"
    using map_of_keys [OF o''(2)] assms(5) by (simp add: unknown_keys_def filter_empty_conv subset_iff)
  then show ?thesis using o'' s assms(4,6) by (auto simp: openEnvelope_def)
qed

definition request_ok :: "lookup_request \<Rightarrow> bool" where
  "request_ok r \<longleftrightarrow> target_shape (rq_target r) \<and> fieldAcceptable (rq_username r) \<and>
     unat (rq_windowId r) < 2 ^ 53 \<and> unat (rq_userTime r) < 2 ^ 53"

lemma request_object_ok:
  "distinct (map fst (request_object W r))" "list_all wire_value (map snd (request_object W r))"
  "map_of (request_object W r) ''protocol'' = Some (JNumber 1)" "set (map fst (request_object W r)) \<subseteq> set request_keys"
proof -
  have "wire_value (JNumber 1)" by (simp add: wire_value_def exI [of _ 1])
  then show "list_all wire_value (map snd (request_object W r))"
    by (auto simp: request_object_def wire_value_def double_of_def)
qed (simp_all add: request_object_def request_keys_def)

lemma reply_object_ok:
  "distinct (map fst (reply_object W r))" "list_all wire_value (map snd (reply_object W r))"
  "map_of (reply_object W r) ''protocol'' = Some (JNumber 1)" "set (map fst (reply_object W r)) \<subseteq> set reply_keys"
proof -
  have "wire_value (JNumber 1)" by (simp add: wire_value_def exI [of _ 1])
  then show "list_all wire_value (map snd (reply_object W r))"
    by (auto simp: reply_object_def wire_value_def)
qed (simp_all add: reply_object_def reply_keys_def)

lemma decode_encoded_request:
  assumes "wire_law W" "readable W (rq_target r)" "encodeRequest W r \<noteq> []"
  shows "if request_ok r then decodeRequest W (encodeRequest W r) = Inr r else \<exists>e. decodeRequest W (encodeRequest W r) = Inl e"
proof -
  obtain o' where env: "openEnvelope W (encodeRequest W r) request_keys = Inr o'" and m: "map_of o' = map_of (request_object W r)"
    using openEnvelope_serialised [OF assms(1) request_object_ok assms(3) [unfolded encodeRequest_def]] unfolding encodeRequest_def by blast
  have t: "take_string o' ''target'' = Inr (encoded_url W (rq_target r))" "take_string o' ''username'' = Inr (rq_username r)"
    by (simp_all add: take_string_text m request_object_def)
  have u: "take_unsigned o' ''windowId'' = (if unat (rq_windowId r) < 2 ^ 53 then Inr (rq_windowId r) else Inl (field_error ''windowId'' ''a whole number in range''))"
      "take_unsigned o' ''userTime'' = (if unat (rq_userTime r) < 2 ^ 53 then Inr (rq_userTime r) else Inl (field_error ''userTime'' ''a whole number in range''))"
    by (rule take_unsigned_number; simp add: m request_object_def)+
  have "parse_url (lk_qt W) StrictMode (encoded_url W (rq_target r)) = rq_target r" using assms(2) by (simp add: readable_def)
  then show ?thesis
    by (simp add: decodeRequest_def env t u request_ok_def Let_def)
qed

lemma decode_encoded_reply:
  assumes "wire_law W" "readable W (rp_resultUrl r)" "encodeReply W r \<noteq> []"
  shows "decodeReply W (encodeReply W r) = Inr r"
proof -
  obtain o' where env: "openEnvelope W (encodeReply W r) reply_keys = Inr o'" and m: "map_of o' = map_of (reply_object W r)"
    using openEnvelope_serialised [OF assms(1) reply_object_ok assms(3) [unfolded encodeReply_def]] unfolding encodeReply_def by blast
  have t: "take_string o' ''outcome'' = Inr (outcome_text (rp_outcome r))"
      "take_string o' ''resultUrl'' = Inr (encoded_url W (rp_resultUrl r))" "take_string o' ''username'' = Inr (rp_username r)"
      "take_string o' ''domain'' = Inr (rp_domain r)" "take_string o' ''password'' = Inr (rp_password r)"
      "take_string o' ''message'' = Inr (rp_message r)"
    by (simp_all add: take_string_text m reply_object_def)
  have "parse_url (lk_qt W) StrictMode (encoded_url W (rp_resultUrl r)) = rp_resultUrl r" using assms(2) by (simp add: readable_def)
  then show ?thesis
    by (cases "rp_outcome r") (simp_all add: decodeReply_def env t outcome_text_def Let_def)
qed

lemma readable_barren: "wire_law W \<Longrightarrow> readable W (rp_resultUrl (barrenReply W x m))"
  by (simp add: wire_law_def readable_def barrenReply_def no_url_def)

lemma readable_service: "wire_law W \<Longrightarrow> readable W (sv_url a) \<Longrightarrow> readable W (rp_resultUrl (service_reply W a))"
  using readable_barren by (simp add: service_reply_def)

lemma serialise_Nil: "wire_law W \<Longrightarrow> distinct (map fst o') \<Longrightarrow> list_all wire_value (map snd o') \<Longrightarrow>
    serialise W o' = [] \<longleftrightarrow> MaxMessageBytes < length (to_json W o')"
  unfolding wire_law_def serialise_def Let_def by auto

text \<open>C37. The protocol carries a lookup there and back.  Whatever request the front end manages to encode,
  the child, given that text on its pipe, asks the password service exactly this request and answers
  so that the front end decodes exactly what the service said; there is no answer only when it would
  be larger than the bound on a message.  A request whose target is not a share, whose user name is
  not a credential field, or whose numbers a double cannot hold exactly is refused: the service is
  not asked, and the front end decodes an error.\<close>
theorem lookup_worker_answers:
  assumes "wire_law W" and "readable W (rq_target r)" and "encodeRequest W r \<noteq> []"
    and "in_pipe p" "out_pipe p" "in_opens p" "out_opens p" "in_bytes p = encodeRequest W r"
    and "readable W (sv_url (checkAuthInfo r))"
    and "lookup_worker W checkAuthInfo p = (code, out)"
  shows "if request_ok r
    then code = 0 \<and> (out = [] \<longleftrightarrow> MaxMessageBytes < length (to_json W (reply_object W (service_reply W (checkAuthInfo r))))) \<and>
      (out \<noteq> [] \<longrightarrow> decodeReply W out = Inr (service_reply W (checkAuthInfo r)))
    else code = 2 \<and> (out \<noteq> [] \<longrightarrow> (\<exists>e. decodeReply W out = Inr (barrenReply W OutcomeError e)))"
proof -
  have len: "length (encodeRequest W r) \<le> MaxMessageBytes"
    by (simp add: encodeRequest_def serialise_def Let_def)
  then have raw: "readRequest p = Some (encodeRequest W r)" using assms(6,8) by (simp add: readRequest_def)
  show ?thesis
  proof (cases "request_ok r")
    case True
    then have "decodeRequest W (encodeRequest W r) = Inr r" using decode_encoded_request [OF assms(1-3)] by simp
    then have "code = 0" "out = encodeReply W (service_reply W (checkAuthInfo r))"
      using assms(4,5,7,10) raw by (simp_all add: lookup_worker_def writeReply_def)
    then show ?thesis
      using True decode_encoded_reply [OF assms(1) readable_service [OF assms(1,9)]] serialise_Nil [OF assms(1) reply_object_ok(1,2)]
      by (simp add: encodeReply_def)
  next
    case False
    then obtain e where "decodeRequest W (encodeRequest W r) = Inl e" using decode_encoded_request [OF assms(1-3)] by auto
    then have "code = 2" "out = encodeReply W (barrenReply W OutcomeError e)"
      using assms(4,5,7,10) raw by (simp_all add: lookup_worker_def writeReply_def)
    then show ?thesis using False decode_encoded_reply [OF assms(1) readable_barren [OF assms(1)]] by auto
  qed
qed

section \<open>What is accepted\<close>

lemma splitDomainUser_parts:
  assumes "splitDomainUser s = (d, u)"
  shows "set d \<subseteq> set s" "set u \<subseteq> set s" "length d \<le> length s" "length u \<le> length s"
proof -
  let ?t = "takeWhile (\<lambda>c. c \<noteq> CHR ''/'' \<and> c \<noteq> CHR 0x5C) s"
  have t: "length ?t \<le> length s" "set ?t \<subseteq> set s" using set_takeWhileD by (fastforce simp: length_takeWhile_le)+
  show "set d \<subseteq> set s" "set u \<subseteq> set s" "length d \<le> length s" "length u \<le> length s"
    using assms t set_drop_subset [of "length ?t + 1" s]
    by (auto simp: splitDomainUser_def Let_def split: if_splits)
qed

lemma fieldAcceptable_part: "fieldAcceptable s \<Longrightarrow> set t \<subseteq> set s \<Longrightarrow> length t \<le> length s \<Longrightarrow> fieldAcceptable t"
  using hasControlChars_subset by (auto simp: fieldAcceptable_def)

lemma acceptable_fields_validate:
  "fieldAcceptable u \<Longrightarrow> fieldAcceptable d \<Longrightarrow> fieldAcceptable p \<Longrightarrow> validateCredentialFields u d p = Inr ()"
  by (simp add: validateCredentialFields_def fieldAcceptable_def)

text \<open>C38. What autofill accepts is safe to put into the form: the helper would take the three fields as
  they are, they do not stand for a guest, the password is the one the service stored with that user
  name, which is the account the address names if it names one, and the service did not answer for
  another host or share.\<close>
theorem accepted_candidate_safe:
  assumes "acceptCandidate Q reply target asked = Inr (username, domain, password)"
  shows "validateCredentialFields username domain password = Inr () \<and> username \<noteq> [] \<and>
    guestFieldsConsistent username domain password \<and>
    rp_outcome reply = OutcomeCandidate \<and> password = rp_password reply \<and> splitDomainUser (rp_username reply) = (domain, username) \<and>
    (asked \<noteq> [] \<longrightarrow> sameIdentity Q (rp_username reply) asked) \<and>
    (url_valid (rp_resultUrl reply) \<and> \<not> empty_url (rp_resultUrl reply) \<longrightarrow>
       same_text Q (url_scheme (rp_resultUrl reply)) (url_scheme target) \<and>
       same_text Q (url_host (rp_resultUrl reply)) (url_host target) \<and>
       (shareOf (rp_resultUrl reply) = [] \<or> shareOf (rp_resultUrl reply) = shareOf target))"
proof -
  obtain d u where s: "splitDomainUser (rp_username reply) = (d, u)" by fastforce
  obtain d' u' where s': "splitDomainUser asked = (d', u')" by fastforce
  have a: "rp_outcome reply = OutcomeCandidate" "\<not> contradicts Q (rp_resultUrl reply) target" "fieldAcceptable (rp_username reply)"
      "fieldAcceptable (rp_password reply)" "u \<noteq> []" "username = u" "domain = d" "password = rp_password reply"
      "asked \<noteq> [] \<longrightarrow> same_text Q u u'" "asked \<noteq> [] \<longrightarrow> d' = [] \<or> d = [] \<or> same_text Q d' d"
    using assms by (auto simp: acceptCandidate_def s s' split: if_splits)
  note p = splitDomainUser_parts [OF s]
  have "validateCredentialFields u d (rp_password reply) = Inr ()"
    using fieldAcceptable_part [OF a(3)] p a(4) by (intro acceptable_fields_validate) simp_all
  moreover have "asked \<noteq> [] \<longrightarrow> sameIdentity Q (rp_username reply) asked"
    using a(9,10) by (simp add: sameIdentity_def s s' same_text_def) metis
  ultimately show ?thesis using a s by (auto simp: guestFieldsConsistent_def contradicts_def)
qed

section \<open>The controller\<close>

datatype miss = MissProtocol qstring | MissRejected rejection | MissTransport qstring | MissDeadline

datatype lookup_signal = CandidateReady qstring qstring qstring | Missed miss

text \<open>\<open>ctl_tag\<close> is the generation the connections of the one lookup captured; what was sent and signalled
  is kept.\<close>

record controller =
  ctl_transport :: bool
  ctl_deadline :: bool
  ctl_request :: lookup_request
  ctl_generation :: "64 word"
  ctl_started :: bool
  ctl_delivered :: bool
  ctl_tag :: "64 word option"
  ctl_sent :: "qstring list"
  ctl_signals :: "lookup_signal list"

definition new_controller :: "lookup_request \<Rightarrow> controller" where
  "new_controller r = \<lparr>ctl_transport = False, ctl_deadline = False, ctl_request = r, ctl_generation = 0, ctl_started = False,
     ctl_delivered = False, ctl_tag = None, ctl_sent = [], ctl_signals = []\<rparr>"

definition ctl_start :: "wire \<Rightarrow> lookup_request \<Rightarrow> controller \<Rightarrow> controller" where
  "ctl_start W r c =
     (if ctl_started c \<or> \<not> url_valid (rq_target r) then c
      else (let encoded = encodeRequest W r in
        if encoded = [] then c
        else c\<lparr>ctl_started := True, ctl_request := r, ctl_generation := ctl_generation c + 1, ctl_transport := True,
               ctl_deadline := True, ctl_tag := Some (ctl_generation c + 1), ctl_sent := ctl_sent c @ [encoded]\<rparr>))"

definition ctl_cancel :: "controller \<Rightarrow> controller" where
  "ctl_cancel c = c\<lparr>ctl_generation := ctl_generation c + 1, ctl_deadline := False, ctl_transport := False\<rparr>"

definition ctl_signal :: "lookup_signal \<Rightarrow> controller \<Rightarrow> controller" where
  "ctl_signal x c = c\<lparr>ctl_signals := ctl_signals c @ [x]\<rparr>"

definition finishWith :: "miss \<Rightarrow> controller \<Rightarrow> controller" where
  "finishWith reason c = ctl_signal (Missed reason) (ctl_cancel c)"

definition stale :: "64 word \<Rightarrow> controller \<Rightarrow> bool" where
  "stale g c \<longleftrightarrow> g \<noteq> ctl_generation c \<or> ctl_delivered c"

definition ctl_reply :: "wire \<Rightarrow> 64 word \<Rightarrow> qstring \<Rightarrow> controller \<Rightarrow> controller" where
  "ctl_reply W g raw c =
     (if stale g c then c
      else (case decodeReply W raw of
        Inl e \<Rightarrow> finishWith (MissProtocol e) c
      | Inr reply \<Rightarrow>
     (case acceptCandidate (lk_qt W) reply (rq_target (ctl_request c)) (rq_username (ctl_request c)) of
        Inl e \<Rightarrow> finishWith (MissRejected e) c
      | Inr (username, domain, password) \<Rightarrow>
          ctl_signal (CandidateReady username domain password) (ctl_cancel (c\<lparr>ctl_delivered := True\<rparr>)))))"

definition ctl_failed :: "64 word \<Rightarrow> qstring \<Rightarrow> controller \<Rightarrow> controller" where
  "ctl_failed g reason c = (if stale g c then c else finishWith (MissTransport reason) c)"

definition ctl_expired :: "64 word \<Rightarrow> controller \<Rightarrow> controller" where
  "ctl_expired g c = (if stale g c then c else finishWith MissDeadline c)"

text \<open>What can happen, in any order and any number of times: the form asks, the user edits a field or
  closes the window, or a slot runs that was connected, or queued, with the captured generation.\<close>

inductive lookup_run :: "wire \<Rightarrow> nat \<Rightarrow> controller \<Rightarrow> bool" for W where
  created: "lookup_run W 0 (new_controller r)"
| asked: "lookup_run W n c \<Longrightarrow> lookup_run W (Suc n) (ctl_start W r c)"
| cancelled: "lookup_run W n c \<Longrightarrow> lookup_run W (Suc n) (ctl_cancel c)"
| replied: "lookup_run W n c \<Longrightarrow> ctl_tag c = Some g \<Longrightarrow> lookup_run W (Suc n) (ctl_reply W g raw c)"
| broken: "lookup_run W n c \<Longrightarrow> ctl_tag c = Some g \<Longrightarrow> lookup_run W (Suc n) (ctl_failed g reason c)"
| expired: "lookup_run W n c \<Longrightarrow> ctl_tag c = Some g \<Longrightarrow> lookup_run W (Suc n) (ctl_expired g c)"

definition was_accepted :: "wire \<Rightarrow> lookup_request \<Rightarrow> lookup_signal \<Rightarrow> bool" where
  "was_accepted W r x \<longleftrightarrow>
     (\<forall>u d p. x = CandidateReady u d p \<longrightarrow>
        (\<exists>raw reply. decodeReply W raw = Inr reply \<and> acceptCandidate (lk_qt W) reply (rq_target r) (rq_username r) = Inr (u, d, p)))"

text \<open>After \<open>k\<close> invalidations the generation is \<open>k\<close> past the captured one.\<close>

definition ctl_inv :: "wire \<Rightarrow> nat \<Rightarrow> controller \<Rightarrow> bool" where
  "ctl_inv W n c \<longleftrightarrow>
     (case ctl_tag c of
        None \<Rightarrow> \<not> ctl_started c \<and> \<not> ctl_delivered c \<and> \<not> ctl_transport c \<and> ctl_signals c = []
      | Some g \<Rightarrow> ctl_started c \<and> length (ctl_signals c) \<le> 1 \<and> list_all (was_accepted W (ctl_request c)) (ctl_signals c) \<and>
          (\<exists>k \<le> n. ctl_generation c = g + of_nat k \<and> (ctl_transport c \<longleftrightarrow> k = 0) \<and>
             (k = 0 \<longrightarrow> ctl_signals c = [] \<and> \<not> ctl_delivered c)))"

lemma generation_shift: "k < 2 ^ 64 \<Longrightarrow> g + of_nat k = (g :: 64 word) \<longleftrightarrow> k = 0"
  by (auto simp: word_of_nat_eq_0_iff dest: nat_dvd_not_less)

lemma ctl_inv_Suc:
  assumes "ctl_inv W n c"
  shows "ctl_inv W (Suc n) c"
proof (cases "ctl_tag c")
  case (Some g)
  note h = assms [unfolded ctl_inv_def Some option.case]
  from h obtain k where "k \<le> n" "ctl_generation c = g + of_nat k" "ctl_transport c \<longleftrightarrow> k = 0"
      "k = 0 \<longrightarrow> ctl_signals c = [] \<and> \<not> ctl_delivered c" by blast
  then show ?thesis
    unfolding ctl_inv_def Some option.case using h by (intro conjI exI [of _ k]) simp_all
qed (use assms in \<open>simp add: ctl_inv_def\<close>)

lemma ctl_simps [simp]:
  "ctl_tag (ctl_cancel c) = ctl_tag c" "ctl_started (ctl_cancel c) = ctl_started c" "ctl_signals (ctl_cancel c) = ctl_signals c"
  "ctl_generation (ctl_cancel c) = ctl_generation c + 1" "\<not> ctl_transport (ctl_cancel c)" "ctl_request (ctl_cancel c) = ctl_request c"
  "ctl_delivered (ctl_cancel c) = ctl_delivered c"
  "ctl_tag (ctl_signal x c) = ctl_tag c" "ctl_started (ctl_signal x c) = ctl_started c" "ctl_signals (ctl_signal x c) = ctl_signals c @ [x]"
  "ctl_generation (ctl_signal x c) = ctl_generation c" "ctl_transport (ctl_signal x c) = ctl_transport c"
  "ctl_request (ctl_signal x c) = ctl_request c" "ctl_delivered (ctl_signal x c) = ctl_delivered c"
  by (simp_all add: ctl_cancel_def ctl_signal_def)

text \<open>An answer that is not stale ends the lookup with one signal.\<close>

definition answered_with :: "controller \<Rightarrow> lookup_signal \<Rightarrow> controller \<Rightarrow> bool" where
  "answered_with c x c' \<longleftrightarrow> ctl_tag c' = ctl_tag c \<and> ctl_started c' = ctl_started c \<and> ctl_signals c' = ctl_signals c @ [x] \<and>
     ctl_generation c' = ctl_generation c + 1 \<and> \<not> ctl_transport c' \<and> ctl_request c' = ctl_request c"

lemma answers:
  assumes "\<not> stale g c"
  shows "answered_with c (Missed (MissTransport reason)) (ctl_failed g reason c)"
    "answered_with c (Missed MissDeadline) (ctl_expired g c)"
    "\<exists>x. answered_with c x (ctl_reply W g raw c) \<and> was_accepted W (ctl_request c) x"
proof -
  show "answered_with c (Missed (MissTransport reason)) (ctl_failed g reason c)" "answered_with c (Missed MissDeadline) (ctl_expired g c)"
    using assms by (simp_all add: answered_with_def ctl_failed_def ctl_expired_def finishWith_def)
  show "\<exists>x. answered_with c x (ctl_reply W g raw c) \<and> was_accepted W (ctl_request c) x"
  proof (cases "decodeReply W raw")
    case (Inl e)
    then show ?thesis using assms by (simp add: answered_with_def ctl_reply_def finishWith_def was_accepted_def)
  next
    case (Inr reply)
    then show ?thesis
    proof (cases "acceptCandidate (lk_qt W) reply (rq_target (ctl_request c)) (rq_username (ctl_request c))")
      case (Inl e)
      then show ?thesis using assms Inr by (simp add: answered_with_def ctl_reply_def finishWith_def was_accepted_def)
    next
      case a: (Inr t)
      obtain u d p where t: "t = (u, d, p)" by (cases t)
      have "was_accepted W (ctl_request c) (CandidateReady u d p)" using Inr a t by (auto simp: was_accepted_def)
      moreover have "answered_with c (CandidateReady u d p) (ctl_reply W g raw c)"
        using assms Inr a t by (simp add: answered_with_def ctl_reply_def)
      ultimately show ?thesis by blast
    qed
  qed
qed

lemma answered_inv:
  assumes "ctl_inv W n c" "n < 2 ^ 64" "ctl_tag c = Some g" "\<not> stale g c" "answered_with c x c'" "was_accepted W (ctl_request c) x"
  shows "ctl_inv W (Suc n) c'"
proof -
  obtain k where k: "k \<le> n" "ctl_generation c = g + of_nat k" "k = 0 \<longrightarrow> ctl_signals c = []" and st: "ctl_started c"
    using assms(1,3) by (auto simp: ctl_inv_def)
  have "k = 0" using generation_shift [of k g] k assms(2,4) by (simp add: stale_def)
  then have "ctl_signals c' = [x]" "ctl_generation c' = g + of_nat 1" "ctl_tag c' = Some g" "\<not> ctl_transport c'" "ctl_started c'"
      "ctl_request c' = ctl_request c"
    using assms(3,5) k st by (simp_all add: answered_with_def)
  then show ?thesis using assms(6) unfolding ctl_inv_def by (auto intro!: exI [of _ 1])
qed

lemma lookup_run_inv: "lookup_run W n c \<Longrightarrow> n \<le> 2 ^ 64 \<Longrightarrow> ctl_inv W n c"
proof (induction rule: lookup_run.induct)
  case (created r)
  then show ?case by (simp add: ctl_inv_def new_controller_def)
next
  case (asked n c r)
  then have i: "ctl_inv W n c" by simp
  then have "ctl_inv W (Suc n) c" by (rule ctl_inv_Suc)
  moreover have "ctl_inv W (Suc n) (ctl_start W r c)" if "\<not> ctl_started c" "ctl_start W r c \<noteq> c"
    using that i unfolding ctl_inv_def ctl_start_def Let_def by (auto split: option.splits if_splits intro: exI [of _ 0])
  ultimately show ?case by (cases "ctl_start W r c = c") (auto simp: ctl_start_def)
next
  case (cancelled n c)
  show ?case
  proof (cases "ctl_tag c")
    case (Some g)
    obtain k where "k \<le> n" "ctl_generation c = g + of_nat k" using cancelled Some by (auto simp: ctl_inv_def)
    then have "Suc k \<le> Suc n" "ctl_generation (ctl_cancel c) = g + of_nat (Suc k)" by (simp_all add: add.assoc)
    then show ?thesis using cancelled Some unfolding ctl_inv_def by (auto intro!: exI [of _ "Suc k"])
  qed (use cancelled in \<open>simp add: ctl_inv_def\<close>)
next
  case (replied n c g raw)
  then have i: "ctl_inv W n c" "n < 2 ^ 64" by simp_all
  show ?case
  proof (cases "stale g c")
    case True
    then have "ctl_reply W g raw c = c" by (simp add: ctl_reply_def)
    then show ?thesis using ctl_inv_Suc [OF i(1)] by simp
  next
    case False
    then show ?thesis using answers(3) [OF False] answered_inv [OF i replied(2) False] by metis
  qed
next
  case (broken n c g reason)
  then have i: "ctl_inv W n c" "n < 2 ^ 64" by simp_all
  show ?case
  proof (cases "stale g c")
    case True
    then have "ctl_failed g reason c = c" by (simp add: ctl_failed_def)
    then show ?thesis using ctl_inv_Suc [OF i(1)] by simp
  next
    case False
    show ?thesis using answered_inv [OF i broken(2) False answers(1) [OF False]] by (simp add: was_accepted_def)
  qed
next
  case (expired n c g)
  then have i: "ctl_inv W n c" "n < 2 ^ 64" by simp_all
  show ?case
  proof (cases "stale g c")
    case True
    then have "ctl_expired g c = c" by (simp add: ctl_expired_def)
    then show ?thesis using ctl_inv_Suc [OF i(1)] by simp
  next
    case False
    show ?thesis using answered_inv [OF i expired(2) False answers(2) [OF False]] by (simp add: was_accepted_def)
  qed
qed

text \<open>C39. One lookup, one answer.  In every run of fewer than \<open>2 ^ 64\<close> steps, of edits, closings, replies,
  failures and timeouts in any order, at most one signal is ever emitted, and a credential is handed
  out only if the acceptance policy took it for the request that was sent.  While the lookup runs
  nothing has been signalled, and the first reply, failure or timeout ends it with exactly one
  signal.  Once it has ended or was cancelled, a slot that was already queued changes nothing, and
  no second lookup starts.  The bound is the width of the generation counter.\<close>
theorem lookup_delivers_once:
  assumes "lookup_run W n c" and "n < 2 ^ 64"
  shows "length (ctl_signals c) \<le> 1 \<and>
    (\<forall>u d p. CandidateReady u d p \<in> set (ctl_signals c) \<longrightarrow>
       (\<exists>raw reply. decodeReply W raw = Inr reply \<and>
          acceptCandidate (lk_qt W) reply (rq_target (ctl_request c)) (rq_username (ctl_request c)) = Inr (u, d, p))) \<and>
    (\<forall>g. ctl_tag c = Some g \<longrightarrow>
       (\<forall>r. ctl_start W r c = c) \<and>
       (if ctl_transport c
        then ctl_signals c = [] \<and>
          (\<forall>c' raw reason. c' \<in> {ctl_reply W g raw c, ctl_failed g reason c, ctl_expired g c} \<longrightarrow>
             length (ctl_signals c') = 1 \<and> \<not> ctl_transport c')
        else (\<forall>raw reason. ctl_reply W g raw c = c \<and> ctl_failed g reason c = c \<and> ctl_expired g c = c)))"
proof -
  have i: "ctl_inv W n c" using lookup_run_inv assms by simp
  have one: "length (ctl_signals c) \<le> 1" "list_all (was_accepted W (ctl_request c)) (ctl_signals c)"
    using i by (auto simp: ctl_inv_def split: option.splits)
  have tagged: "(\<forall>r. ctl_start W r c = c) \<and>
      (if ctl_transport c
       then ctl_signals c = [] \<and> \<not> stale g c
       else stale g c)" if tag: "ctl_tag c = Some g" for g
  proof -
    obtain k where k: "ctl_started c" "k \<le> n" "ctl_generation c = g + of_nat k" "ctl_transport c \<longleftrightarrow> k = 0"
        "k = 0 \<longrightarrow> ctl_signals c = [] \<and> \<not> ctl_delivered c"
      using i [unfolded ctl_inv_def tag option.case] by blast
    have "g = ctl_generation c \<longleftrightarrow> k = 0" using generation_shift [of k g] k(2,3) assms(2) by auto
    then show ?thesis using k by (auto simp: ctl_start_def stale_def)
  qed
  show ?thesis
  proof (intro conjI allI impI)
    fix u d p assume "CandidateReady u d p \<in> set (ctl_signals c)"
    then show "\<exists>raw reply. decodeReply W raw = Inr reply \<and>
        acceptCandidate (lk_qt W) reply (rq_target (ctl_request c)) (rq_username (ctl_request c)) = Inr (u, d, p)"
      using one(2) by (auto simp: list_all_iff was_accepted_def)
  next
    fix g assume g: "ctl_tag c = Some g"
    show "if ctl_transport c
        then ctl_signals c = [] \<and>
          (\<forall>c' raw reason. c' \<in> {ctl_reply W g raw c, ctl_failed g reason c, ctl_expired g c} \<longrightarrow>
             length (ctl_signals c') = 1 \<and> \<not> ctl_transport c')
        else (\<forall>raw reason. ctl_reply W g raw c = c \<and> ctl_failed g reason c = c \<and> ctl_expired g c = c)"
    proof (cases "ctl_transport c")
      case True
      then have s: "ctl_signals c = []" "\<not> stale g c" using tagged [OF g] by simp_all
      have "length (ctl_signals c') = 1 \<and> \<not> ctl_transport c'"
        if e: "c' \<in> {ctl_reply W g raw c, ctl_failed g reason c, ctl_expired g c}" for c' raw reason
      proof -
        obtain x where "answered_with c x c'" using e answers [OF s(2)] by blast
        then show ?thesis using s(1) by (simp add: answered_with_def)
      qed
      then show ?thesis unfolding if_P [OF True] using s(1) by blast
    qed (use tagged [OF g] in \<open>simp add: ctl_reply_def ctl_failed_def ctl_expired_def\<close>)
  qed (use one tagged in simp_all)
qed

section \<open>The transport\<close>

datatype transport_signal = ReplyReceived qstring | TransportFailed qstring

record transport =
  tp_process :: bool
  tp_buffer :: qstring
  tp_abandoned :: bool
  tp_settled :: bool
  tp_signals :: "transport_signal list"

definition tp_emit :: "transport_signal \<Rightarrow> transport \<Rightarrow> transport" where
  "tp_emit x t = t\<lparr>tp_signals := tp_signals t @ [x]\<rparr>"

definition tp_send :: "transport \<Rightarrow> transport" where
  "tp_send t = t\<lparr>tp_process := True\<rparr>"

definition tp_abandon :: "transport \<Rightarrow> transport" where
  "tp_abandon t =
     (let t1 = t\<lparr>tp_settled := True\<rparr> in
      if tp_abandoned t \<or> \<not> tp_process t then t1 else t1\<lparr>tp_abandoned := True, tp_process := False\<rparr>)"

text \<open>Output of the child, an error of the process, and its end with the rest of the output.\<close>

definition tp_output :: "qstring \<Rightarrow> transport \<Rightarrow> transport" where
  "tp_output chunk t =
     (if tp_settled t then t
      else (let t1 = t\<lparr>tp_buffer := tp_buffer t @ chunk\<rparr> in
        if MaxMessageBytes < length (tp_buffer t1)
        then tp_emit (TransportFailed ''the lookup produced too much output'') (tp_abandon (t1\<lparr>tp_settled := True\<rparr>))
        else t1))"

definition tp_error :: "qstring \<Rightarrow> transport \<Rightarrow> transport" where
  "tp_error reason t =
     (if tp_settled t then t else tp_emit (TransportFailed reason) (tp_abandon (t\<lparr>tp_settled := True\<rparr>)))"

definition tp_finished :: "qstring \<Rightarrow> transport \<Rightarrow> transport" where
  "tp_finished rest t =
     (if tp_settled t then t
      else (let t1 = t\<lparr>tp_settled := True, tp_buffer := tp_buffer t @ rest\<rparr> in
        if MaxMessageBytes < length (tp_buffer t1) then tp_emit (TransportFailed ''the lookup produced too much output'') t1
        else if tp_buffer t1 = [] then tp_emit (TransportFailed ''the lookup exited without answering'') t1
        else tp_emit (ReplyReceived (tp_buffer t1)) t1))"

definition new_transport :: transport where
  "new_transport = \<lparr>tp_process = False, tp_buffer = [], tp_abandoned = False, tp_settled = False, tp_signals = []\<rparr>"

inductive transport_run :: "transport \<Rightarrow> bool" where
  sent: "transport_run (tp_send new_transport)"
| given_up: "transport_run t \<Longrightarrow> transport_run (tp_abandon t)"
| printed: "transport_run t \<Longrightarrow> tp_process t \<Longrightarrow> transport_run (tp_output chunk t)"
| went_wrong: "transport_run t \<Longrightarrow> tp_process t \<Longrightarrow> transport_run (tp_error reason t)"
| ended: "transport_run t \<Longrightarrow> tp_process t \<Longrightarrow> transport_run (tp_finished rest t)"

definition good_signal :: "transport_signal \<Rightarrow> bool" where
  "good_signal x \<longleftrightarrow> (case x of ReplyReceived raw \<Rightarrow> raw \<noteq> [] \<and> length raw \<le> MaxMessageBytes | TransportFailed _ \<Rightarrow> True)"

definition tp_inv :: "transport \<Rightarrow> bool" where
  "tp_inv t \<longleftrightarrow> length (tp_signals t) \<le> 1 \<and> list_all good_signal (tp_signals t) \<and>
     (\<not> tp_settled t \<longrightarrow> tp_process t \<and> tp_signals t = [] \<and> length (tp_buffer t) \<le> MaxMessageBytes)"

lemma tp_simps [simp]:
  "tp_settled (tp_abandon t)" "tp_signals (tp_abandon t) = tp_signals t" "tp_settled (tp_emit x t) = tp_settled t"
  "tp_signals (tp_emit x t) = tp_signals t @ [x]"
  by (simp_all add: tp_abandon_def tp_emit_def Let_def)

lemma tp_settle_signal:
  assumes "\<not> tp_settled t"
  shows "\<exists>x. good_signal x \<and> tp_settled (tp_error reason t) \<and> tp_signals (tp_error reason t) = tp_signals t @ [x]"
    "\<exists>x. good_signal x \<and> tp_settled (tp_finished rest t) \<and> tp_signals (tp_finished rest t) = tp_signals t @ [x]"
  using assms by (auto simp: tp_error_def tp_finished_def good_signal_def Let_def)

lemma transport_run_inv: "transport_run t \<Longrightarrow> tp_inv t"
proof (induction rule: transport_run.induct)
  case (printed t chunk)
  then show ?case by (auto simp: tp_inv_def tp_output_def good_signal_def Let_def)
next
  case (went_wrong t reason)
  then show ?case using tp_settle_signal(1) [of t reason] by (cases "tp_settled t") (auto simp: tp_inv_def tp_error_def)
next
  case (ended t rest)
  then show ?case using tp_settle_signal(2) [of t rest] by (cases "tp_settled t") (auto simp: tp_inv_def tp_finished_def)
qed (simp_all add: tp_inv_def tp_send_def new_transport_def)

text \<open>C40. The transport emits at most one signal, whatever the child does: a reply it hands on is not
  empty and fits the bound of a message, it never holds more than that while it waits, and the end
  of the child, or an error of the process, gives exactly one signal.  After it was given up
  nothing is emitted any more.\<close>
theorem transport_settles_once:
  assumes "transport_run t"
  shows "length (tp_signals t) \<le> 1 \<and>
    (\<forall>raw. ReplyReceived raw \<in> set (tp_signals t) \<longrightarrow> raw \<noteq> [] \<and> length raw \<le> MaxMessageBytes) \<and>
    (\<forall>chunk reason. if tp_settled t
       then tp_output chunk t = t \<and> tp_error reason t = t \<and> tp_finished chunk t = t
       else length (tp_buffer t) \<le> MaxMessageBytes \<and> length (tp_signals (tp_error reason t)) = 1 \<and>
         length (tp_signals (tp_finished chunk t)) = 1 \<and>
         (tp_signals (tp_output chunk t) \<noteq> [] \<longleftrightarrow> MaxMessageBytes < length (tp_buffer t @ chunk))) \<and>
    tp_settled (tp_abandon t) \<and> tp_signals (tp_abandon t) = tp_signals t"
proof -
  note i = transport_run_inv [OF assms, unfolded tp_inv_def]
  have good: "\<forall>raw. ReplyReceived raw \<in> set (tp_signals t) \<longrightarrow> raw \<noteq> [] \<and> length raw \<le> MaxMessageBytes"
    using i by (auto simp: list_all_iff good_signal_def)
  have waits: "length (tp_buffer t) \<le> MaxMessageBytes \<and> length (tp_signals (tp_error reason t)) = 1 \<and>
      length (tp_signals (tp_finished chunk t)) = 1 \<and>
      (tp_signals (tp_output chunk t) \<noteq> [] \<longleftrightarrow> MaxMessageBytes < length (tp_buffer t @ chunk))" if "\<not> tp_settled t" for chunk reason
    using that i tp_settle_signal(1) [OF that, of reason] tp_settle_signal(2) [OF that, of chunk]
    by (auto simp: tp_output_def Let_def)
  show ?thesis
    using i good waits by (simp add: tp_output_def tp_error_def tp_finished_def)
qed

section \<open>The theorems on concrete inputs\<close>

text \<open>A codec for flat objects of texts and whole numbers, with the escapes of quote and backslash.\<close>

fun quoted :: "qstring \<Rightarrow> qstring" where
  "quoted [] = [CHR 0x22]"
| "quoted (c # s) = (if c = CHR 0x22 \<or> c = CHR 0x5C then CHR 0x5C # c # quoted s else c # quoted s)"

fun unquoted :: "qstring \<Rightarrow> qstring \<times> qstring" where
  "unquoted [] = ([], [])"
| "unquoted (c # s) =
     (if c = CHR 0x22 then ([], s)
      else if c = CHR 0x5C then (case s of [] \<Rightarrow> ([], []) | d # s' \<Rightarrow> apfst (Cons d) (unquoted s'))
      else apfst (Cons c) (unquoted s))"

lemma unquoted_quoted [simp]: "unquoted (quoted t @ r) = (t, r)"
  by (induction t) auto

definition value_text :: "json \<Rightarrow> qstring" where
  "value_text v = (case v of JString s \<Rightarrow> CHR 0x22 # quoted s | JNumber q \<Rightarrow> decimal (nat \<lfloor>q\<rfloor>) | _ \<Rightarrow> [])"

definition read_value :: "qstring \<Rightarrow> json \<times> qstring" where
  "read_value s =
     (case s of
        [] \<Rightarrow> (JNull, [])
      | c # s' \<Rightarrow> if c = CHR 0x22 then apfst JString (unquoted s')
                else (JNumber (of_nat (parse_decimal (takeWhile is_digit s))), dropWhile is_digit s))"

lemma read_value_text:
  assumes "wire_value v" "r \<noteq> []" "\<not> is_digit (hd r)"
  shows "read_value (value_text v @ r) = (v, r)"
proof (cases v)
  case (JNumber q)
  then obtain n where q: "q = of_nat n" using assms(1) by (auto simp: wire_value_def)
  have d: "\<forall>c \<in> set (decimal n). is_digit c" using set_decimal_digits by blast
  obtain c t where c: "decimal n = c # t" by (cases "decimal n") simp_all
  then have "c \<noteq> CHR 0x22" using d by (auto simp: is_digit_def less_eq_char_def)
  moreover have "takeWhile is_digit (decimal n @ r) = decimal n" "dropWhile is_digit (decimal n @ r) = r"
    using d assms(2,3) by (cases r; simp)+
  moreover have "parse_decimal (c # t) = n" using parse_decimal_decimal [of n] c by simp
  ultimately show ?thesis using c JNumber q by (simp add: read_value_def value_text_def)
qed (use assms(1) in \<open>simp_all add: wire_value_def read_value_def value_text_def\<close>)

fun members_text :: "(qstring \<times> json) list \<Rightarrow> qstring" where
  "members_text [] = ''}''"
| "members_text ((k, v) # ms) = CHR '','' # CHR 0x22 # quoted k @ CHR '':'' # value_text v @ members_text ms"

fun read_members :: "nat \<Rightarrow> qstring \<Rightarrow> (qstring \<times> json) list" where
  "read_members 0 s = []"
| "read_members (Suc n) s =
     (if take 1 s \<noteq> '','' then []
      else (case unquoted (drop 2 s) of (k, s1) \<Rightarrow> (case read_value (drop 1 s1) of (v, s2) \<Rightarrow> (k, v) # read_members n s2)))"

lemma members_text_end: "members_text ms \<noteq> []" "\<not> is_digit (hd (members_text ms))"
  by (cases ms; auto simp: is_digit_def less_eq_char_def)+

lemma read_members_text: "list_all wire_value (map snd ms) \<Longrightarrow> length ms \<le> n \<Longrightarrow> read_members n (members_text ms) = ms"
proof (induction ms arbitrary: n)
  case Nil
  then show ?case by (cases n) simp_all
next
  case (Cons m ms)
  obtain k v where m: "m = (k, v)" by (cases m)
  obtain n' where n': "n = Suc n'" "length ms \<le> n'" using Cons.prems(2) by (cases n) simp_all
  have "read_value (value_text v @ members_text ms) = (v, members_text ms)"
    using Cons.prems(1) m members_text_end by (intro read_value_text) simp_all
  then show ?case using Cons.IH [OF _ n'(2)] Cons.prems(1) m n'(1) by simp
qed

lemma length_members: "length ms < length (members_text ms)"
  by (induction ms) auto

definition plain_wire :: wire where
  "plain_wire =
     \<lparr>lk_qt = plain_qt,
      encoded_url = (\<lambda>u. if u = parse_url plain_qt StrictMode [] then [] else smbPrefix @ url_host u @ url_escaped (url_path u)),
      to_json = (\<lambda>o'. CHR ''{'' # tl (members_text o') @ (if o' = [] then ''}'' else [])),
      from_json = (\<lambda>s. case s of [] \<Rightarrow> Inl ''illegal value''
        | c # s' \<Rightarrow> if s' = ''}'' then Inr (JObject []) else Inr (JObject (read_members (length s) (CHR '','' # s'))))\<rparr>"

lemma plain_wire_law: "wire_law plain_wire"
  unfolding wire_law_def
proof (intro conjI allI impI)
  fix o' :: "(qstring \<times> json) list" assume w: "list_all wire_value (map snd o')"
  show "\<exists>o''. from_json plain_wire (to_json plain_wire o') = Inr (JObject o'') \<and> map_of o'' = map_of o'"
  proof (cases o')
    case (Cons m ms)
    obtain k v where m: "m = (k, v)" by (cases m)
    let ?t = "tl (members_text o')"
    have t: "members_text o' = CHR '','' # ?t" "?t \<noteq> ''}''" using Cons m by simp_all
    have "read_members (Suc (length ?t)) (CHR '','' # ?t) = o'"
      using read_members_text [OF w, of "Suc (length ?t)"] length_members [of o'] t(1) by (metis Suc_length_conv less_imp_le_nat)
    then show ?thesis using t(2) Cons by (simp add: plain_wire_def)
  qed (simp add: plain_wire_def)
qed (simp_all add: plain_wire_def no_url_def)

definition nas_lookup :: lookup_request where
  "nas_lookup = \<lparr>rq_target = parse_url plain_qt StrictMode ''smb://nas/archive'', rq_username = ''alice'', rq_windowId = 42, rq_userTime = 0\<rparr>"

definition nas_answer :: service_answer where
  "nas_answer = \<lparr>sv_answered = True, sv_modified = True, sv_url = parse_url plain_qt StrictMode ''smb://nas/archive'',
     sv_username = ''WORK/alice'', sv_realm = [], sv_password = ''secret''\<rparr>"

definition nas_pipes :: child_pipes where
  "nas_pipes = \<lparr>in_pipe = True, out_pipe = True, in_opens = True, out_opens = True, in_bytes = encodeRequest plain_wire nas_lookup\<rparr>"

lemma nas_lookup_facts:
  "encodeRequest plain_wire nas_lookup \<noteq> []" "readable plain_wire (rq_target nas_lookup)" "request_ok nas_lookup"
  "readable plain_wire (sv_url nas_answer)"
  "length (to_json plain_wire (reply_object plain_wire (service_reply plain_wire nas_answer))) \<le> MaxMessageBytes"
  by code_simp+

text \<open>A request for a share, and a service that has a credential for it.\<close>
theorem lookup_worker_answers_witness:
  "decodeReply plain_wire (snd (lookup_worker plain_wire (\<lambda>r. nas_answer) nas_pipes)) = Inr (service_reply plain_wire nas_answer)"
proof -
  have p: "in_pipe nas_pipes" "out_pipe nas_pipes" "in_opens nas_pipes" "out_opens nas_pipes"
      "in_bytes nas_pipes = encodeRequest plain_wire nas_lookup"
    by (simp_all add: nas_pipes_def)
  have "lookup_worker plain_wire (\<lambda>r. nas_answer) nas_pipes =
      (fst (lookup_worker plain_wire (\<lambda>r. nas_answer) nas_pipes), snd (lookup_worker plain_wire (\<lambda>r. nas_answer) nas_pipes))" by simp
  from lookup_worker_answers [OF plain_wire_law nas_lookup_facts(2,1) p nas_lookup_facts(4) this]
  show ?thesis using nas_lookup_facts(3,5) by (metis not_le)
qed

text \<open>That credential is accepted.\<close>
theorem accepted_candidate_safe_witness:
  "acceptCandidate plain_qt (service_reply plain_wire nas_answer) (rq_target nas_lookup) ''alice'' = Inr (''alice'', ''WORK'', ''secret'') \<and>
   validateCredentialFields ''alice'' ''WORK'' ''secret'' = Inr ()"
proof -
  have a: "acceptCandidate plain_qt (service_reply plain_wire nas_answer) (rq_target nas_lookup) ''alice'' =
      Inr (''alice'', ''WORK'', ''secret'')" by code_simp
  then show ?thesis using accepted_candidate_safe [OF a] by blast
qed

text \<open>A lookup that is cancelled: a reply that was already queued is ignored.\<close>
theorem lookup_delivers_once_witness:
  "let c = ctl_cancel (ctl_start plain_wire nas_lookup (new_controller nas_lookup)) in
   ctl_tag c = Some 1 \<and> ctl_reply plain_wire 1 ''{}'' c = c"
proof -
  let ?c = "ctl_cancel (ctl_start plain_wire nas_lookup (new_controller nas_lookup))"
  have r: "lookup_run plain_wire (Suc (Suc 0)) ?c" by (intro lookup_run.intros)
  have "url_valid (rq_target nas_lookup)" by code_simp
  then have t: "ctl_tag ?c = Some 1" using nas_lookup_facts(1) by (simp add: ctl_start_def new_controller_def Let_def)
  show ?thesis using lookup_delivers_once [OF r] t by (simp add: Let_def)
qed

text \<open>A child that prints in two pieces and ends.\<close>
theorem transport_settles_once_witness:
  "tp_signals (tp_finished ''}'' (tp_output ''{'' (tp_send new_transport))) = [ReplyReceived ''{}''] \<and>
   length ''{}'' \<le> MaxMessageBytes"
proof -
  let ?t = "tp_finished ''}'' (tp_output ''{'' (tp_send new_transport))"
  have p: "tp_process (tp_send new_transport)" "tp_process (tp_output ''{'' (tp_send new_transport))" by code_simp+
  have r: "transport_run ?t" by (intro transport_run.intros p)
  have "tp_signals ?t = [ReplyReceived ''{}'']" by code_simp
  then show ?thesis using transport_settles_once [OF r] by simp
qed

end
